(* ===== verification/Prelude.thy ===== *)
theory Prelude
  imports
    Complex_Main
    "HOL-Library.AList"
    "HOL-Library.Char_ord"
    "HOL-Library.List_Lexorder"
    "HOL-Library.Word"
begin

text \<open>
  The shared layer of the development: Python exceptions as values and the result type,
  Python dictionaries as insertion-ordered association lists, slices and sorted sets,
  byte strings, hexadecimal and UTF-8 text, decimal printing.

  Python facts used here. A \<^verbatim>\<open>dict\<close> keeps insertion order and an assignment to an existing
  key keeps that key's position, which is what \<open>AList.update\<close> does. A \<^verbatim>\<open>str\<close> is a list of
  code points; the model's \<open>string\<close> covers the code points below 256, and UTF-8 encoding is
  written for those. A \<^verbatim>\<open>bytes\<close> value is a list of 8-bit words.
\<close>

section \<open>Collections of facts\<close>

named_theorems res_simps \<open>rewriting for the result type\<close>
named_theorems dict_simps \<open>lookup in updated dictionaries\<close>
named_theorems codec_simps \<open>lengths and inverses of the text and byte codecs\<close>

section \<open>Exceptions and results\<close>

text \<open>
  One constructor per exception class the sources raise or let through. \<open>IllTyped\<close> marks an
  input outside the modelled fragment (a value whose run-time type contradicts the source's
  type annotation); no operation returns it on inputs that respect the annotations.
\<close>

datatype pyexc =
    KeyError string
  | IndexError int
  | ValueError string
  | TypeError string
  | OverflowError string
  | UnboundLocalError string
  | NotImplementedError string
  | ValidationError string
  | DerError string
  | TsaError string
  | HTTPException nat string
  | GrpcAbort string string
  | ExternalError string
  | IllTyped string

type_synonym 'a res = "pyexc + 'a"

definition rbind :: "'a res \<Rightarrow> ('a \<Rightarrow> 'b res) \<Rightarrow> 'b res" where
  "rbind r f = (case r of Inl e \<Rightarrow> Inl e | Inr x \<Rightarrow> f x)"

lemma rbind_simps [simp, res_simps]:
  "rbind (Inl e) f = Inl e"
  "rbind (Inr x) f = f x"
  by (simp_all add: rbind_def)

lemma rbind_eq_Inr [res_simps]: "rbind r f = Inr y \<longleftrightarrow> (\<exists>x. r = Inr x \<and> f x = Inr y)"
  by (cases r) auto

lemma rbind_eq_Inl [res_simps]: "rbind r f = Inl e \<longleftrightarrow> r = Inl e \<or> (\<exists>x. r = Inr x \<and> f x = Inl e)"
  by (cases r) auto

lemma rbind_assoc [res_simps]: "rbind (rbind r f) g = rbind r (\<lambda>x. rbind (f x) g)"
  by (cases r) auto

lemma rbind_cong [fundef_cong]:
  "r = r' \<Longrightarrow> (\<And>x. r' = Inr x \<Longrightarrow> f x = g x) \<Longrightarrow> rbind r f = rbind r' g"
  by (cases r') auto

text \<open>The exceptions a result may carry.\<close>

definition raises :: "(pyexc \<Rightarrow> bool) \<Rightarrow> 'a res \<Rightarrow> bool" where
  "raises E r = (case r of Inl e \<Rightarrow> E e | Inr _ \<Rightarrow> True)"

lemma raises_simps [simp]: "raises E (Inl e) = E e" "raises E (Inr x)"
  by (simp_all add: raises_def)

lemma raises_rbind: "raises E r \<Longrightarrow> (\<And>x. r = Inr x \<Longrightarrow> raises E (f x)) \<Longrightarrow> raises E (rbind r f)"
  by (cases r) auto

lemma raises_if: "(b \<Longrightarrow> raises E r) \<Longrightarrow> (\<not> b \<Longrightarrow> raises E s) \<Longrightarrow> raises E (if b then r else s)"
  by simp

lemma raises_mono: "raises E r \<Longrightarrow> (\<And>e. E e \<Longrightarrow> F e) \<Longrightarrow> raises F r"
  by (cases r) auto

text \<open>A list comprehension whose element expression may raise: left to right, first error wins.\<close>

primrec rmap :: "('a \<Rightarrow> 'b res) \<Rightarrow> 'a list \<Rightarrow> 'b list res" where
  "rmap f [] = Inr []"
| "rmap f (x # xs) = rbind (f x) (\<lambda>y. rbind (rmap f xs) (\<lambda>ys. Inr (y # ys)))"

text \<open>A loop over a list that threads a state and may raise.\<close>

primrec rfold :: "('a \<Rightarrow> 's \<Rightarrow> 's res) \<Rightarrow> 'a list \<Rightarrow> 's \<Rightarrow> 's res" where
  "rfold f [] s = Inr s"
| "rfold f (x # xs) s = rbind (f x s) (rfold f xs)"

lemma rmap_cong [fundef_cong]:
  "xs = ys \<Longrightarrow> (\<And>x. x \<in> set ys \<Longrightarrow> f x = g x) \<Longrightarrow> rmap f xs = rmap g ys"
  by (induction ys arbitrary: xs) auto

lemma rmap_Inr_all: "(\<And>x. x \<in> set xs \<Longrightarrow> f x = Inr (g x)) \<Longrightarrow> rmap f xs = Inr (map g xs)"
  by (induction xs) auto

lemma rmap_Inr_length: "rmap f xs = Inr ys \<Longrightarrow> length ys = length xs"
  by (induction xs arbitrary: ys) (auto simp: rbind_eq_Inr)

lemma rfold_append: "rfold f (xs @ ys) s = rbind (rfold f xs s) (rfold f ys)"
proof (induction xs arbitrary: s)
  case (Cons x xs)
  then show ?case by (cases "f x s") auto
qed simp

lemma rfold_inv:
  assumes "rfold f xs s = Inr t" "P s"
    and "\<And>x s t. x \<in> set xs \<Longrightarrow> P s \<Longrightarrow> f x s = Inr t \<Longrightarrow> P t"
  shows "P t"
  using assms
proof (induction xs arbitrary: s)
  case (Cons x xs)
  from Cons.prems(1) obtain s' where s': "f x s = Inr s'" "rfold f xs s' = Inr t"
    by (auto simp: rbind_eq_Inr)
  have "P s'" using Cons.prems(2,3) s'(1) by auto
  with Cons.IH [OF s'(2)] Cons.prems(3) show ?case by auto
qed simp

text \<open>
  A stateful operation returns the state it leaves behind next to its result: an exception does
  not undo the assignments made before it.
\<close>

type_synonym ('s, 'a) sres = "'s \<times> 'a res"

definition sbind :: "('s, 'a) sres \<Rightarrow> ('s \<Rightarrow> 'a \<Rightarrow> ('t, 'b) sres) \<Rightarrow> ('s \<Rightarrow> 't) \<Rightarrow> ('t, 'b) sres" where
  "sbind m f lift = (case m of (s, Inl e) \<Rightarrow> (lift s, Inl e) | (s, Inr x) \<Rightarrow> f s x)"

lemma sbind_simps [simp, res_simps]:
  "sbind (s, Inl e) f lift = (lift s, Inl e)"
  "sbind (s, Inr x) f lift = f s x"
  by (simp_all add: sbind_def)

section \<open>Dictionaries\<close>

text \<open>\<^verbatim>\<open>d[k]\<close>: a missing key raises.\<close>

definition getitem :: "(string \<times> 'v) list \<Rightarrow> string \<Rightarrow> 'v res" where
  "getitem d k = (case map_of d k of None \<Rightarrow> Inl (KeyError k) | Some v \<Rightarrow> Inr v)"

text \<open>\<^verbatim>\<open>d.get(k, default)\<close>.\<close>

definition dict_get :: "('k \<times> 'v) list \<Rightarrow> 'k \<Rightarrow> 'v \<Rightarrow> 'v" where
  "dict_get d k v0 = (case map_of d k of None \<Rightarrow> v0 | Some v \<Rightarrow> v)"

text \<open>\<^verbatim>\<open>d.update(e)\<close> and \<^verbatim>\<open>{**d, **e}\<close>: the entries of \<open>e\<close> are assigned one after the other.\<close>

definition dict_update :: "('k \<times> 'v) list \<Rightarrow> ('k \<times> 'v) list \<Rightarrow> ('k \<times> 'v) list" where
  "dict_update d e = fold (\<lambda>(k, v) m. AList.update k v m) e d"

lemma getitem_Inr [simp]: "getitem d k = Inr v \<longleftrightarrow> map_of d k = Some v"
  by (simp add: getitem_def split: option.splits)

lemma getitem_Some: "map_of d k = Some v \<Longrightarrow> getitem d k = Inr v"
  by simp

lemma map_of_AList_update [dict_simps]: "map_of (AList.update k v d) = (map_of d)(k \<mapsto> v)"
  by (simp add: update_conv')

lemma dict_update_Nil [simp, dict_simps]: "dict_update d [] = d"
  by (simp add: dict_update_def)

lemma dict_update_Cons [dict_simps]:
  "dict_update d ((k, v) # e) = dict_update (AList.update k v d) e"
  by (simp add: dict_update_def)

lemma map_of_dict_update:
  assumes "distinct (map fst e)"
  shows "map_of (dict_update d e) = map_of d ++ map_of e"
  using assms
proof (induction e arbitrary: d)
  case (Cons p e)
  obtain k v where p: "p = (k, v)" by (cases p)
  have none: "map_of e k = None"
    using Cons.prems by (simp add: p map_of_eq_None_iff)
  have "map_of (dict_update d (p # e)) = (map_of d)(k \<mapsto> v) ++ map_of e"
    using Cons by (simp add: p dict_update_Cons map_of_AList_update)
  with none show ?case
    by (auto simp: p map_add_def fun_eq_iff split: option.splits)
qed simp

lemma map_of_dict_update_other:
  "k \<notin> fst ` set e \<Longrightarrow> map_of (dict_update d e) k = map_of d k"
proof (induction e arbitrary: d)
  case (Cons p e)
  then show ?case by (cases p) (auto simp: dict_simps)
qed simp

lemma keys_AList_update: "fst ` set (AList.update k v d) = insert k (fst ` set d)"
  by (induction d) auto

lemma keys_dict_update: "fst ` set (dict_update d e) = fst ` set d \<union> fst ` set e"
proof (induction e arbitrary: d)
  case (Cons p e)
  then show ?case by (cases p) (simp add: dict_update_Cons keys_AList_update)
qed simp

lemma distinct_AList_update: "distinct (map fst d) \<Longrightarrow> distinct (map fst (AList.update k v d))"
  by (rule distinct_update)

lemma distinct_dict_update: "distinct (map fst d) \<Longrightarrow> distinct (map fst (dict_update d e))"
  by (induction e arbitrary: d) (auto simp: dict_update_Cons distinct_update)

section \<open>Slices and sorted sets\<close>

text \<open>\<^verbatim>\<open>xs[n:]\<close> and \<^verbatim>\<open>xs[:n]\<close> with an integer bound: negative bounds count from the end.\<close>

definition slice_from :: "int \<Rightarrow> 'a list \<Rightarrow> 'a list" where
  "slice_from n xs = drop (nat (if n < 0 then int (length xs) + n else n)) xs"

definition slice_to :: "int \<Rightarrow> 'a list \<Rightarrow> 'a list" where
  "slice_to n xs = take (nat (if n < 0 then int (length xs) + n else n)) xs"

lemma slice_from_0 [simp]: "slice_from 0 xs = xs"
  by (simp add: slice_from_def)

text \<open>\<^verbatim>\<open>sorted(set(xs))\<close>.\<close>

definition sorted_set :: "'a::linorder list \<Rightarrow> 'a list" where
  "sorted_set xs = sort (remdups xs)"

lemma set_sorted_set [simp]: "set (sorted_set xs) = set xs"
  by (simp add: sorted_set_def)

lemma distinct_sorted_set [simp]: "distinct (sorted_set xs)"
  by (simp add: sorted_set_def)

lemma sorted_sorted_set [simp]: "sorted (sorted_set xs)"
  by (simp add: sorted_set_def)

lemma sorted_set_eq_list_of_set: "sorted_set xs = sorted_list_of_set (set xs)"
  by (simp add: sorted_set_def sorted_list_of_set_sort_remdups)

lemma sorted_set_cong: "set xs = set ys \<Longrightarrow> sorted_set xs = sorted_set ys"
  by (simp add: sorted_set_eq_list_of_set)

lemma sorted_set_idem [simp]: "sorted_set (sorted_set xs) = sorted_set xs"
  by (rule sorted_set_cong) simp

lemma sorted_set_sort [simp]: "sorted_set (sort xs) = sorted_set xs"
  by (rule sorted_set_cong) simp

lemma sorted_set_eq_Nil [simp]: "sorted_set xs = [] \<longleftrightarrow> xs = []"
  by (metis set_empty set_sorted_set)

section \<open>Joining text\<close>

text \<open>\<^verbatim>\<open>sep.join(parts)\<close>.\<close>

fun join :: "'a list \<Rightarrow> 'a list list \<Rightarrow> 'a list" where
  "join sep [] = []"
| "join sep [p] = p"
| "join sep (p # q # ps) = p @ sep @ join sep (q # ps)"

lemma join_Cons: "ps \<noteq> [] \<Longrightarrow> join sep (p # ps) = p @ sep @ join sep ps"
  by (cases ps) auto

lemma append_sep_inj:
  assumes "xs @ c # ys = xs' @ c # ys'" "c \<notin> set xs" "c \<notin> set xs'"
  shows "xs = xs' \<and> ys = ys'"
  using assms
proof (induction xs arbitrary: xs')
  case Nil
  then show ?case by (cases xs') auto
next
  case (Cons x xs)
  then show ?case by (cases xs') auto
qed

lemma join_inj_no_sep:
  assumes "join [c] ps = join [c] qs" "ps \<noteq> []" "qs \<noteq> []"
    and "\<And>p. p \<in> set ps \<union> set qs \<Longrightarrow> c \<notin> set p"
  shows "ps = qs"
  using assms
proof (induction ps arbitrary: qs)
  case (Cons p ps)
  obtain q qs' where qs: "qs = q # qs'" using Cons.prems(3) by (cases qs) auto
  have cp: "c \<notin> set p" and cq: "c \<notin> set q" using Cons.prems(4) by (auto simp: qs)
  show ?case
  proof (cases "ps = [] \<or> qs' = []")
    case True
    have "set (join [c] (p # ps)) = set (join [c] qs)" using Cons.prems(1) by simp
    then show ?thesis using True Cons.prems(1) cp cq
      by (cases ps; cases qs') (auto simp: qs)
  next
    case False
    with Cons.prems(1) have "p @ c # join [c] ps = q @ c # join [c] qs'"
      by (simp add: qs join_Cons)
    from append_sep_inj [OF this cp cq] have "p = q" "join [c] ps = join [c] qs'" by auto
    moreover have "ps = qs'" using Cons.IH [OF \<open>join [c] ps = join [c] qs'\<close>] False Cons.prems(4)
      by (auto simp: qs)
    ultimately show ?thesis by (simp add: qs)
  qed
qed simp

end
