(* ===== verification/Codec.thy ===== *)
theory Codec
  imports Prelude
begin

text \<open>
  The conversions between numbers, text and bytes that the sources use from Python:
  \<^verbatim>\<open>bytes.hex\<close> and \<^verbatim>\<open>bytes.fromhex\<close>, \<^verbatim>\<open>str.encode("utf-8")\<close> and
  \<^verbatim>\<open>bytes.decode("utf-8")\<close>, \<^verbatim>\<open>str(int)\<close> and zero-padded decimals,
  \<^verbatim>\<open>int.to_bytes(..., "big")\<close> and \<^verbatim>\<open>int.from_bytes(..., "big")\<close>,
  with the inverse and injectivity lemmas the components build on.
\<close>

type_synonym byte = "8 word"
type_synonym bytes = "byte list"

section \<open>Definitions\<close>

subsection \<open>Hexadecimal\<close>

definition hex_digit :: "nat \<Rightarrow> char" where
  "hex_digit n = (if n < 10 then char_of (48 + n) else char_of (87 + n))"

definition hex_byte :: "byte \<Rightarrow> string" where
  "hex_byte b = [hex_digit (unat b div 16), hex_digit (unat b mod 16)]"

definition to_hex :: "bytes \<Rightarrow> string" where
  "to_hex bs = concat (map hex_byte bs)"

definition hex_value :: "char \<Rightarrow> nat option" where
  "hex_value c = (let n = of_char c :: nat in
     if 48 \<le> n \<and> n \<le> 57 then Some (n - 48)
     else if 97 \<le> n \<and> n \<le> 102 then Some (n - 87)
     else if 65 \<le> n \<and> n \<le> 70 then Some (n - 55)
     else None)"

definition ascii_space :: "char \<Rightarrow> bool" where
  "ascii_space c = (let n = of_char c :: nat in n = 32 \<or> (9 \<le> n \<and> n \<le> 13))"

text \<open>\<^verbatim>\<open>bytes.fromhex\<close>: ASCII white space is skipped before each pair of digits.\<close>

fun fromhex :: "string \<Rightarrow> bytes res" where
  "fromhex [] = Inr []"
| "fromhex [c] = (if ascii_space c then Inr [] else Inl (ValueError ''fromhex''))"
| "fromhex (c # d # s) =
     (if ascii_space c then fromhex (d # s)
      else case (hex_value c, hex_value d) of
        (Some h, Some l) \<Rightarrow> rbind (fromhex s) (\<lambda>bs. Inr (word_of_nat (16 * h + l) # bs))
      | _ \<Rightarrow> Inl (ValueError ''fromhex''))"

definition is_lower_hex :: "char \<Rightarrow> bool" where
  "is_lower_hex c = (let n = of_char c :: nat in (48 \<le> n \<and> n \<le> 57) \<or> (97 \<le> n \<and> n \<le> 102))"

subsection \<open>UTF-8\<close>

definition utf8_char :: "char \<Rightarrow> bytes" where
  "utf8_char c = (let n = of_char c :: nat in
     if n < 128 then [word_of_nat n] else [word_of_nat (192 + n div 64), word_of_nat (128 + n mod 64)])"

definition utf8_encode :: "string \<Rightarrow> bytes" where
  "utf8_encode s = concat (map utf8_char s)"

definition utf8_cont :: "byte \<Rightarrow> bool" where
  "utf8_cont b = (128 \<le> unat b \<and> unat b < 192)"

text \<open>Strict decoding to code points: no overlong forms, no surrogates, nothing above 0x10FFFF.\<close>

fun utf8_decode :: "bytes \<Rightarrow> nat list option" where
  "utf8_decode [] = Some []"
| "utf8_decode (b # bs) = (let n = unat b in
     if n < 128 then map_option (Cons n) (utf8_decode bs)
     else if 194 \<le> n \<and> n \<le> 223 then
       (case bs of
          c1 # r \<Rightarrow> if utf8_cont c1
                    then map_option (Cons ((n - 192) * 64 + (unat c1 - 128))) (utf8_decode r) else None
        | _ \<Rightarrow> None)
     else if 224 \<le> n \<and> n \<le> 239 then
       (case bs of
          c1 # c2 # r \<Rightarrow>
            (let p = (n - 224) * 4096 + (unat c1 - 128) * 64 + (unat c2 - 128) in
             if utf8_cont c1 \<and> utf8_cont c2 \<and> 2048 \<le> p \<and> \<not> (55296 \<le> p \<and> p \<le> 57343)
             then map_option (Cons p) (utf8_decode r) else None)
        | _ \<Rightarrow> None)
     else if 240 \<le> n \<and> n \<le> 244 then
       (case bs of
          c1 # c2 # c3 # r \<Rightarrow>
            (let p = (n - 240) * 262144 + (unat c1 - 128) * 4096 + (unat c2 - 128) * 64 + (unat c3 - 128) in
             if utf8_cont c1 \<and> utf8_cont c2 \<and> utf8_cont c3 \<and> 65536 \<le> p \<and> p \<le> 1114111
             then map_option (Cons p) (utf8_decode r) else None)
        | _ \<Rightarrow> None)
     else None)"

subsection \<open>Decimal text\<close>

definition digit_char :: "nat \<Rightarrow> char" where
  "digit_char n = char_of (48 + n)"

definition is_digit :: "char \<Rightarrow> bool" where
  "is_digit c = (let n = of_char c :: nat in 48 \<le> n \<and> n \<le> 57)"

definition digit_val :: "char \<Rightarrow> nat" where
  "digit_val c = (of_char c :: nat) - 48"

fun nat_str :: "nat \<Rightarrow> string" where
  "nat_str n = (if n < 10 then [digit_char n] else nat_str (n div 10) @ [digit_char (n mod 10)])"

declare nat_str.simps [simp del]

definition int_str :: "int \<Rightarrow> string" where
  "int_str i = (if i < 0 then CHR ''-'' # nat_str (nat (- i)) else nat_str (nat i))"

text \<open>\<^verbatim>\<open>f"{n:0wd}"\<close>: decimal, padded with zeros on the left to width \<open>w\<close>.\<close>

definition pad :: "nat \<Rightarrow> nat \<Rightarrow> string" where
  "pad w n = (let s = nat_str n in replicate (w - length s) (CHR ''0'') @ s)"

text \<open>The number a digit string denotes; \<open>None\<close> when a character is not a digit.\<close>

fun digits_acc :: "nat \<Rightarrow> string \<Rightarrow> nat option" where
  "digits_acc a [] = Some a"
| "digits_acc a (c # s) = (if is_digit c then digits_acc (10 * a + digit_val c) s else None)"

definition digits_nat :: "string \<Rightarrow> nat option" where
  "digits_nat s = (if s = [] then None else digits_acc 0 s)"

definition digits_val :: "string \<Rightarrow> nat" where
  "digits_val s = (case digits_nat s of None \<Rightarrow> 0 | Some n \<Rightarrow> n)"

subsection \<open>Big-endian integers\<close>

text \<open>\<^verbatim>\<open>int.from_bytes(bs, "big")\<close>.\<close>

definition from_bytes :: "bytes \<Rightarrow> nat" where
  "from_bytes bs = foldl (\<lambda>a b. 256 * a + unat b) 0 bs"

text \<open>\<^verbatim>\<open>n.to_bytes((n.bit_length() + 7) // 8, "big")\<close>: the shortest big-endian form, empty for 0.\<close>

fun to_bytes :: "nat \<Rightarrow> bytes" where
  "to_bytes n = (if n = 0 then [] else to_bytes (n div 256) @ [word_of_nat (n mod 256)])"

declare to_bytes.simps [simp del]

section \<open>Lemmas\<close>

lemma of_char_less_256: "(of_char c :: nat) < 256"
  by (metis of_char_of of_char_mod_256 mod_less_divisor zero_less_numeral)

lemma unat_byte_less [simp]: "unat (b :: byte) < 256"
  using unsigned_less [of b, where 'a = nat] by simp

lemma unat_byte_of_nat: "n < 256 \<Longrightarrow> unat (word_of_nat n :: byte) = n"
  by (simp add: unat_of_nat take_bit_nat_eq_self_iff)

lemma of_char_char_of_small [simp]: "n < 256 \<Longrightarrow> (of_char (char_of (n :: nat)) :: nat) = n"
  by simp

subsection \<open>Hexadecimal\<close>

lemma hex_value_digit: "n < 16 \<Longrightarrow> hex_value (hex_digit n) = Some n"
  by (auto simp: hex_value_def hex_digit_def Let_def)

lemma hex_digit_not_space: "n < 16 \<Longrightarrow> \<not> ascii_space (hex_digit n)"
  by (auto simp: ascii_space_def hex_digit_def Let_def)

lemma hex_digit_lower: "n < 16 \<Longrightarrow> is_lower_hex (hex_digit n)"
  by (auto simp: is_lower_hex_def hex_digit_def Let_def)

lemma to_hex_simps [simp]:
  "to_hex [] = []"
  "to_hex (b # bs) = hex_digit (unat b div 16) # hex_digit (unat b mod 16) # to_hex bs"
  by (simp_all add: to_hex_def hex_byte_def)

lemma hex_nibbles: "unat (b :: byte) div 16 < 16" "unat (b :: byte) mod 16 < 16"
  using unat_byte_less [of b] by (simp_all add: less_mult_imp_div_less)

theorem fromhex_to_hex [simp, codec_simps]: "fromhex (to_hex bs) = Inr bs"
proof (induction bs)
  case (Cons b bs)
  have "word_of_nat (16 * (unat b div 16) + unat b mod 16) = b"
    by (simp only: mult_div_mod_eq) simp
  with Cons show ?case
    by (simp add: hex_value_digit hex_digit_not_space hex_nibbles)
qed simp

lemma to_hex_inj: "to_hex bs = to_hex cs \<longleftrightarrow> bs = cs"
  by (metis fromhex_to_hex sum.inject(2))

lemma length_to_hex [simp, codec_simps]: "length (to_hex bs) = 2 * length bs"
  by (induction bs) auto

lemma to_hex_lower: "list_all is_lower_hex (to_hex bs)"
  by (induction bs) (auto simp: hex_digit_lower hex_nibbles)

subsection \<open>UTF-8\<close>

lemma utf8_encode_simps [simp]:
  "utf8_encode [] = []"
  "utf8_encode (c # s) = utf8_char c @ utf8_encode s"
  by (simp_all add: utf8_encode_def)

theorem utf8_decode_encode [simp, codec_simps]:
  "utf8_decode (utf8_encode s) = Some (map of_char s)"
proof (induction s)
  case (Cons c s)
  define n where "n = (of_char c :: nat)"
  have n: "n < 256" by (simp add: n_def of_char_less_256)
  show ?case
  proof (cases "n < 128")
    case True
    with Cons n show ?thesis by (simp add: utf8_char_def n_def [symmetric] unat_byte_of_nat)
  next
    case False
    define b1 b2 :: byte where "b1 = word_of_nat (192 + n div 64)" and "b2 = word_of_nat (128 + n mod 64)"
    have q: "2 \<le> n div 64" "n div 64 < 4" using False n by auto
    have "unat b1 = 192 + n div 64" "unat b2 = 128 + n mod 64"
      unfolding b1_def b2_def by (rule unat_byte_of_nat, use q in simp)+
    moreover have "utf8_char c = [b1, b2]"
      using False by (simp add: utf8_char_def n_def [symmetric] b1_def b2_def)
    ultimately show ?thesis using Cons q
      by (simp add: n_def [symmetric] utf8_cont_def Let_def)
  qed
qed simp

lemma utf8_encode_inj: "utf8_encode s = utf8_encode t \<longleftrightarrow> s = t"
proof
  assume "utf8_encode s = utf8_encode t"
  then have "map (of_char :: char \<Rightarrow> nat) s = map of_char t"
    by (metis option.inject utf8_decode_encode)
  then show "s = t" by (rule map_injective) (rule inj_of_char)
qed simp

subsection \<open>Decimal text\<close>

lemma is_digit_char [simp]: "n < 10 \<Longrightarrow> is_digit (digit_char n)"
  by (simp add: is_digit_def digit_char_def Let_def)

lemma digit_val_char [simp]: "n < 10 \<Longrightarrow> digit_val (digit_char n) = n"
  by (simp add: digit_val_def digit_char_def)

lemma digits_acc_append:
  "digits_acc a (s @ t) = (case digits_acc a s of None \<Rightarrow> None | Some b \<Rightarrow> digits_acc b t)"
  by (induction s arbitrary: a) auto

lemma digits_acc_nat_str: "digits_acc 0 (nat_str n) = Some n"
proof (induction n rule: nat_str.induct)
  case (1 n)
  then show ?case
    by (cases "n < 10") (simp_all add: nat_str.simps [of n] digits_acc_append)
qed

lemma nat_str_nonempty [simp]: "nat_str n \<noteq> []"
  by (simp add: nat_str.simps [of n])

lemma nat_str_digits: "list_all is_digit (nat_str n)"
proof (induction n rule: nat_str.induct)
  case (1 n)
  then show ?case by (cases "n < 10") (simp_all add: nat_str.simps [of n])
qed

theorem digits_nat_str [simp, codec_simps]: "digits_nat (nat_str n) = Some n"
  by (simp add: digits_nat_def digits_acc_nat_str)

lemma nat_str_inj: "nat_str m = nat_str n \<longleftrightarrow> m = n"
  by (metis digits_nat_str option.inject)

lemma digits_acc_zeros: "digits_acc 0 (replicate k (CHR ''0'') @ s) = digits_acc 0 s"
  by (induction k) (simp_all add: is_digit_def digit_val_def)

lemma digits_nat_pad [simp, codec_simps]: "digits_nat (pad w n) = Some n"
  by (simp add: pad_def Let_def digits_nat_def digits_acc_zeros digits_acc_nat_str)

lemma digits_val_pad [simp, codec_simps]: "digits_val (pad w n) = n"
  by (simp add: digits_val_def)

lemma length_nat_str_le: "n < 10 ^ k \<Longrightarrow> 0 < k \<Longrightarrow> length (nat_str n) \<le> k"
proof (induction n arbitrary: k rule: nat_str.induct)
  case (1 n)
  show ?case
  proof (cases "n < 10")
    case True
    with 1 show ?thesis by (simp add: nat_str.simps [of n])
  next
    case False
    with 1 obtain j where k: "k = Suc j" "0 < j" by (cases k; cases "k - 1") auto
    with 1(2) have "n div 10 < 10 ^ j" by auto
    with 1(1) False k have "length (nat_str (n div 10)) \<le> j" by simp
    with False k show ?thesis by (simp add: nat_str.simps [of n])
  qed
qed

lemma pad_digits: "list_all is_digit (pad w n)"
proof -
  have "is_digit (CHR ''0'')" by (simp add: is_digit_def)
  then show ?thesis using nat_str_digits [of n] by (auto simp: pad_def Let_def list_all_iff)
qed

lemma length_pad: "n < 10 ^ w \<Longrightarrow> 0 < w \<Longrightarrow> length (pad w n) = w"
  using length_nat_str_le [of n w] by (simp add: pad_def Let_def)

subsection \<open>Big-endian integers\<close>

lemma from_bytes_snoc [simp]: "from_bytes (bs @ [b]) = 256 * from_bytes bs + unat b"
  by (simp add: from_bytes_def)

lemma from_bytes_Nil [simp]: "from_bytes [] = 0"
  by (simp add: from_bytes_def)

lemma to_bytes_0 [simp]: "to_bytes 0 = []"
  by (simp add: to_bytes.simps)

theorem from_bytes_to_bytes [simp, codec_simps]: "from_bytes (to_bytes n) = n"
proof (induction n rule: to_bytes.induct)
  case (1 n)
  then show ?case by (cases "n = 0") (simp_all add: to_bytes.simps [of n] unat_byte_of_nat)
qed

lemma to_bytes_eq_Nil [simp]: "to_bytes n = [] \<longleftrightarrow> n = 0"
  by (simp add: to_bytes.simps [of n])

lemma to_bytes_hd_nonzero: "n \<noteq> 0 \<Longrightarrow> hd (to_bytes n) \<noteq> 0"
proof (induction n rule: to_bytes.induct)
  case (1 n)
  show ?case
  proof (cases "n div 256 = 0")
    case True
    then have "n < 256" by simp
    with 1(2) have "unat (word_of_nat n :: byte) \<noteq> 0" by (simp add: unat_byte_of_nat)
    with True 1(2) \<open>n < 256\<close> show ?thesis by (auto simp: to_bytes.simps [of n])
  next
    case False
    with 1 have "hd (to_bytes (n div 256)) \<noteq> 0" by simp
    moreover have "to_bytes (n div 256) \<noteq> []" using False by simp
    ultimately show ?thesis using 1(2) by (simp add: to_bytes.simps [of n])
  qed
qed

lemma length_to_bytes_le: "n < 256 ^ k \<Longrightarrow> length (to_bytes n) \<le> k"
proof (induction n arbitrary: k rule: to_bytes.induct)
  case (1 n)
  show ?case
  proof (cases "n = 0")
    case False
    with 1(2) obtain j where k: "k = Suc j" by (cases k) auto
    with 1(2) have "n div 256 < 256 ^ j" by auto
    with 1(1) False k have "length (to_bytes (n div 256)) \<le> j" by simp
    with False k show ?thesis by (simp add: to_bytes.simps [of n])
  qed simp
qed

end
