(* ===== verification/PyFloat.thy ===== *)
theory PyFloat
  imports Prelude "HOL-Library.Log_Nat"
begin

text \<open>
  Python's \<^verbatim>\<open>float\<close>: IEEE 754 binary64 with round-to-nearest-even, executable over the
  rationals. A finite value is the exact rational it denotes (\<open>Fin 0\<close> is \<open>+0.0\<close>); negative zero,
  the infinities and NaN are constructors of their own. \<open>rnd\<close> rounds an exact rational to
  53 significant bits (gradual underflow below \<open>2 ^ -1022\<close>), \<open>fl\<close> adds overflow and signed
  underflow. The order facts the policy code needs (rounding is monotone, exact on its own results)
  are packed into the interface \<open>rounding\<close>, interpreted on \<open>rnd\<close>.
\<close>

section \<open>Definitions\<close>

subsection \<open>Rounding\<close>

text \<open>\<open>flog2 q\<close> is the exponent \<open>e\<close> with \<open>2 ^ e \<le> q < 2 ^ (e + 1)\<close>, for positive \<open>q\<close>.\<close>

definition flog2 :: "rat \<Rightarrow> int" where
  "flog2 q = (let (a, b) = quotient_of q; e = bitlen a - bitlen b
              in if 2 powi e \<le> q then e else e - 1)"

text \<open>Nearest integer, ties to even.\<close>

definition rhe :: "rat \<Rightarrow> int" where
  "rhe x = (let f = \<lfloor>x\<rfloor>; d = x - of_int f in
     if d < 1 / 2 then f else if 1 / 2 < d then f + 1 else if even f then f else f + 1)"

definition ulp_exp :: "rat \<Rightarrow> int" where
  "ulp_exp q = max (flog2 \<bar>q\<bar> - 52) (-1074)"

definition rnd :: "rat \<Rightarrow> rat" where
  "rnd q = (if q = 0 then 0 else of_int (rhe (q / 2 powi ulp_exp q)) * 2 powi ulp_exp q)"

subsection \<open>Values and arithmetic\<close>

datatype pyfloat = Fin rat | NegZero | PInf | NInf | NaN

definition fl :: "rat \<Rightarrow> pyfloat" where
  "fl q = (let r = rnd q in
     if 2 ^ 1024 \<le> r then PInf else if r \<le> - (2 ^ 1024) then NInf
     else if r = 0 \<and> q < 0 then NegZero else Fin r)"

fun fval :: "pyfloat \<Rightarrow> rat" where
  "fval (Fin q) = q"
| "fval _ = 0"

fun sign_bit :: "pyfloat \<Rightarrow> bool" where
  "sign_bit (Fin q) = (q < 0)"
| "sign_bit NegZero = True"
| "sign_bit PInf = False"
| "sign_bit NInf = True"
| "sign_bit NaN = False"

definition is_inf :: "pyfloat \<Rightarrow> bool" where
  "is_inf x = (x = PInf \<or> x = NInf)"

definition is_zero :: "pyfloat \<Rightarrow> bool" where
  "is_zero x = (x = Fin 0 \<or> x = NegZero)"

fun fneg :: "pyfloat \<Rightarrow> pyfloat" where
  "fneg (Fin q) = (if q = 0 then NegZero else Fin (- q))"
| "fneg NegZero = Fin 0"
| "fneg PInf = NInf"
| "fneg NInf = PInf"
| "fneg NaN = NaN"

definition fadd :: "pyfloat \<Rightarrow> pyfloat \<Rightarrow> pyfloat" where
  "fadd x y =
     (if x = NaN \<or> y = NaN \<or> (x = PInf \<and> y = NInf) \<or> (x = NInf \<and> y = PInf) then NaN
      else if x = PInf \<or> y = PInf then PInf
      else if x = NInf \<or> y = NInf then NInf
      else if fval x + fval y = 0 then (if x = NegZero \<and> y = NegZero then NegZero else Fin 0)
      else fl (fval x + fval y))"

definition fsub :: "pyfloat \<Rightarrow> pyfloat \<Rightarrow> pyfloat" where
  "fsub x y = fadd x (fneg y)"

definition fmul :: "pyfloat \<Rightarrow> pyfloat \<Rightarrow> pyfloat" where
  "fmul x y =
     (if x = NaN \<or> y = NaN \<or> (is_inf x \<and> is_zero y) \<or> (is_zero x \<and> is_inf y) then NaN
      else if is_inf x \<or> is_inf y then (if sign_bit x = sign_bit y then PInf else NInf)
      else if fval x * fval y = 0 then (if sign_bit x = sign_bit y then Fin 0 else NegZero)
      else fl (fval x * fval y))"

text \<open>Division; Python raises \<^verbatim>\<open>ZeroDivisionError\<close> before it gets here when \<open>y\<close> is a zero.\<close>

definition fdiv :: "pyfloat \<Rightarrow> pyfloat \<Rightarrow> pyfloat" where
  "fdiv x y =
     (if x = NaN \<or> y = NaN \<or> (is_inf x \<and> is_inf y) \<or> is_zero y then NaN
      else if is_inf x then (if sign_bit x = sign_bit y then PInf else NInf)
      else if is_inf y \<or> fval x = 0 then (if sign_bit x = sign_bit y then Fin 0 else NegZero)
      else fl (fval x / fval y))"

subsection \<open>Comparison\<close>

definition fle :: "pyfloat \<Rightarrow> pyfloat \<Rightarrow> bool" where
  "fle x y = (x \<noteq> NaN \<and> y \<noteq> NaN \<and>
     (x = NInf \<or> y = PInf \<or> (\<not> is_inf x \<and> \<not> is_inf y \<and> fval x \<le> fval y)))"

definition flt :: "pyfloat \<Rightarrow> pyfloat \<Rightarrow> bool" where
  "flt x y = (x \<noteq> NaN \<and> y \<noteq> NaN \<and> \<not> fle y x)"

text \<open>The built-in \<^verbatim>\<open>min(a, b)\<close> and \<^verbatim>\<open>max(a, b)\<close>: the first argument stays unless the second compares strictly better.\<close>

definition py_min :: "pyfloat \<Rightarrow> pyfloat \<Rightarrow> pyfloat" where
  "py_min a b = (if flt b a then b else a)"

definition py_max :: "pyfloat \<Rightarrow> pyfloat \<Rightarrow> pyfloat" where
  "py_max a b = (if flt a b then b else a)"

text \<open>\<^verbatim>\<open>sum(xs)\<close> over floats (Python 3.11): left to right, starting from 0.\<close>

definition fsum :: "pyfloat list \<Rightarrow> pyfloat" where
  "fsum xs = foldl fadd (Fin 0) xs"

text \<open>\<^verbatim>\<open>float(n)\<close> for an integer: \<^verbatim>\<open>OverflowError\<close> when the rounded value is out of range.\<close>

definition float_of_int :: "int \<Rightarrow> pyfloat res" where
  "float_of_int n = (if is_inf (fl (of_int n)) then Inl (OverflowError ''int too large to convert to float'')
                     else Inr (fl (of_int n)))"

text \<open>A representable finite value.\<close>

definition b64 :: "rat \<Rightarrow> bool" where
  "b64 q = (rnd q = q \<and> \<bar>q\<bar> < 2 ^ 1024)"

definition wf_float :: "pyfloat \<Rightarrow> bool" where
  "wf_float x = (case x of Fin q \<Rightarrow> b64 q | _ \<Rightarrow> True)"

section \<open>The rounding interface\<close>

locale rounding =
  fixes r :: "rat \<Rightarrow> rat"
  assumes mono: "p \<le> q \<Longrightarrow> r p \<le> r q"
    and idem: "r (r q) = r q"
    and zero: "r 0 = 0"
begin

lemma nonneg: "0 \<le> q \<Longrightarrow> 0 \<le> r q"
  using mono [of 0 q] zero by simp

text \<open>Adding a non-negative amount to a representable value never rounds below it.\<close>

lemma add_nonneg: "r p = p \<Longrightarrow> 0 \<le> q \<Longrightarrow> p \<le> r (p + q)"
  using mono [of p "p + q"] by simp

lemma sub_antimono: "p \<le> q \<Longrightarrow> r (c - q) \<le> r (c - p)"
  by (rule mono) simp

end

section \<open>Rounding is monotone and idempotent\<close>

lemma pow2_pos [simp]: "0 < (2 :: rat) powi e"
  by simp

lemma of_int_bitlen_bounds:
  assumes "0 < a"
  shows "2 powi (bitlen a - 1) \<le> (of_int a :: rat) \<and> (of_int a :: rat) < 2 powi bitlen a"
proof -
  have l: "1 \<le> bitlen a" using assms bitlen_eq_zero_iff [of a] bitlen_nonneg [of a] by linarith
  from bitlen_bounds [OF assms]
  have "of_int (2 ^ nat (bitlen a - 1)) \<le> (of_int a :: rat)" "(of_int a :: rat) < of_int (2 ^ nat (bitlen a))"
    by (simp_all only: of_int_le_iff of_int_less_iff)
  with l show ?thesis by (simp add: power_int_def)
qed

lemma flog2_bounds:
  assumes "0 < q"
  shows "2 powi flog2 q \<le> q" "q < 2 powi (flog2 q + 1)"
proof -
  obtain a b where ab: "quotient_of q = (a, b)" by (cases "quotient_of q")
  have b: "0 < b" using ab by (rule quotient_of_denom_pos)
  have q: "q = of_int a / of_int b" using ab by (rule quotient_of_div)
  then have a: "0 < a" using assms b by (simp add: zero_less_divide_iff)
  have A: "2 powi (bitlen a - 1) \<le> (of_int a :: rat)" "(of_int a :: rat) < 2 powi bitlen a"
    and B: "2 powi (bitlen b - 1) \<le> (of_int b :: rat)" "(of_int b :: rat) < 2 powi bitlen b"
    using of_int_bitlen_bounds a b by auto
  have lo: "2 powi (bitlen a - bitlen b - 1) \<le> q"
  proof -
    have "2 powi (bitlen a - bitlen b - 1) * of_int b \<le> (2 powi (bitlen a - bitlen b - 1) * 2 powi bitlen b :: rat)"
      using B(2) by (intro mult_left_mono) auto
    also have "\<dots> = 2 powi (bitlen a - 1)" by (simp flip: power_int_add add: algebra_simps)
    finally show ?thesis using A(1) b by (simp add: q le_divide_eq)
  qed
  have hi: "q < 2 powi (bitlen a - bitlen b + 1)"
  proof -
    have "(2 powi bitlen a :: rat) = 2 powi (bitlen a - bitlen b + 1) * 2 powi (bitlen b - 1)"
      by (simp flip: power_int_add add: algebra_simps)
    also have "\<dots> \<le> 2 powi (bitlen a - bitlen b + 1) * of_int b"
      using B(1) by (intro mult_left_mono) auto
    finally show ?thesis using A(2) b by (simp add: q divide_less_eq)
  qed
  show "2 powi flog2 q \<le> q" "q < 2 powi (flog2 q + 1)"
    using lo hi by (auto simp: flog2_def ab Let_def)
qed

lemma pow2_mono: "d \<le> e \<Longrightarrow> (2 :: rat) powi d \<le> 2 powi e"
  by (rule power_int_increasing) auto

lemma pow2_less_iff: "(2 :: rat) powi d < 2 powi e \<longleftrightarrow> d < e"
proof
  assume "(2 :: rat) powi d < 2 powi e"
  then show "d < e" using pow2_mono [of e d] by (meson leI not_le)
next
  assume "d < e"
  then show "(2 :: rat) powi d < 2 powi e" by (intro power_int_strict_increasing) auto
qed

lemma flog2_unique:
  assumes "2 powi e \<le> q" "q < 2 powi (e + 1)"
  shows "flog2 q = e"
proof -
  have q: "0 < q" using assms(1) pow2_pos [of e] by linarith
  have "(2 :: rat) powi flog2 q < 2 powi (e + 1)" "(2 :: rat) powi e < 2 powi (flog2 q + 1)"
    using flog2_bounds [OF q] assms by linarith+
  then show ?thesis by (simp add: pow2_less_iff)
qed

lemma flog2_mono:
  assumes "0 < p" "p \<le> q"
  shows "flog2 p \<le> flog2 q"
proof -
  have "(2 :: rat) powi flog2 p < 2 powi (flog2 q + 1)"
    using flog2_bounds [OF assms(1)] flog2_bounds [of q] assms by linarith
  then show ?thesis by (simp add: pow2_less_iff)
qed

lemma rhe_of_int [simp]: "rhe (of_int n) = n"
  by (simp add: rhe_def)

lemma rhe_bounds: "\<lfloor>x\<rfloor> \<le> rhe x" "rhe x \<le> \<lfloor>x\<rfloor> + 1"
  by (auto simp: rhe_def Let_def)

lemma rhe_mono: "x \<le> y \<Longrightarrow> rhe x \<le> rhe y"
proof (cases "\<lfloor>x\<rfloor> = \<lfloor>y\<rfloor>")
  case True
  then show "x \<le> y \<Longrightarrow> ?thesis" by (auto simp: rhe_def Let_def)
next
  case False
  then show "x \<le> y \<Longrightarrow> ?thesis"
    using rhe_bounds(2) [of x] rhe_bounds(1) [of y] floor_mono [of x y] by linarith
qed

lemma rhe_minus: "rhe (- x) = - rhe x"
proof (cases "x = of_int \<lfloor>x\<rfloor>")
  case True
  then show ?thesis by (metis of_int_minus rhe_of_int)
next
  case False
  have "\<lfloor>- x\<rfloor> = - \<lfloor>x\<rfloor> - 1"
  proof (rule floor_unique)
    have "of_int \<lfloor>x\<rfloor> < x" using False of_int_floor_le [of x] by linarith
    then show "- x < of_int (- \<lfloor>x\<rfloor> - 1) + 1" by simp
  qed (use floor_correct [of x] in auto)
  then show ?thesis by (auto simp: rhe_def Let_def)
qed

lemma rnd_0 [simp]: "rnd 0 = 0"
  by (simp add: rnd_def)

lemma rnd_minus: "rnd (- q) = - rnd q"
  by (simp add: rnd_def ulp_exp_def rhe_minus)

text \<open>A number with at most 53 significant bits on a representable scale is its own rounding.\<close>

lemma rnd_exact_aux:
  assumes "ulp_exp q \<le> e" "q = of_int m * 2 powi e"
  shows "rnd q = q"
proof -
  define n where "n = m * 2 ^ nat (e - ulp_exp q)"
  have eq: "of_int n * 2 powi ulp_exp q = q"
    using assms by (simp add: n_def field_simps flip: power_int_add power_int_of_nat)
  then have "q / 2 powi ulp_exp q = of_int n"
    by (metis nonzero_mult_div_cancel_right order_less_irrefl pow2_pos)
  then show ?thesis using eq by (simp add: rnd_def)
qed

lemma ulp_exp_le:
  assumes "\<bar>q\<bar> < 2 powi (e + 53)" "q \<noteq> 0" "-1074 \<le> e"
  shows "ulp_exp q \<le> e"
proof -
  have "(2 :: rat) powi flog2 \<bar>q\<bar> < 2 powi (e + 53)"
    using flog2_bounds(1) [of "\<bar>q\<bar>"] assms by linarith
  then show ?thesis using assms by (simp add: pow2_less_iff ulp_exp_def)
qed

lemma abs_less_ulp: "q \<noteq> 0 \<Longrightarrow> \<bar>q\<bar> < 2 powi (ulp_exp q + 53)"
  using flog2_bounds(2) [of "\<bar>q\<bar>"] pow2_mono [of "flog2 \<bar>q\<bar> + 1" "ulp_exp q + 53"]
  by (fastforce simp: ulp_exp_def)

lemma rnd_exact:
  assumes "\<bar>m\<bar> \<le> 2 ^ 53" "-1074 \<le> e" and q: "q = of_int m * 2 powi e"
  shows "rnd q = q"
proof (cases "m = 0")
  case False
  have p53: "(2 :: rat) powi (e + 53) = 2 ^ 53 * 2 powi e"
    by (simp add: power_int_add)
  have absq: "\<bar>q\<bar> = of_int \<bar>m\<bar> * 2 powi e" by (simp add: q abs_mult)
  show ?thesis
  proof (cases "\<bar>m\<bar> = 2 ^ 53")
    case True
    then obtain k where k: "m = k * 2"
      by (intro that [of "sgn m * 2 ^ 52"]) (auto simp: sgn_if abs_if split: if_splits)
    have "q = of_int k * 2 powi (e + 1)"
      by (simp add: q k power_int_add_1)
    moreover have "\<bar>q\<bar> < 2 powi (e + 1 + 53)"
      using True absq pow2_less_iff [of "e + 53" "e + 1 + 53"] p53 by simp
    moreover have "q \<noteq> 0" using \<open>m \<noteq> 0\<close> by (simp add: q)
    ultimately show ?thesis
      using ulp_exp_le [of q "e + 1"] assms(2) rnd_exact_aux [of q "e + 1" k] by simp
  next
    case False
    with assms(1) have "\<bar>m\<bar> < 2 ^ 53" by simp
    then have "(of_int \<bar>m\<bar> :: rat) < of_int (2 ^ 53)" by (simp only: of_int_less_iff)
    then have "\<bar>q\<bar> < 2 powi (e + 53)" by (simp add: absq p53)
    then show ?thesis
      using ulp_exp_le [of q e] assms(2) \<open>m \<noteq> 0\<close> by (intro rnd_exact_aux [of q e]) (auto simp: q)
  qed
qed (simp add: q)

lemma rnd_form: "\<exists>m e. rnd q = of_int m * 2 powi e \<and> \<bar>m\<bar> \<le> 2 ^ 53 \<and> -1074 \<le> e"
proof (cases "q = 0")
  case True
  then show ?thesis by (intro exI [of _ 0]) auto
next
  case False
  define x where "x = q / 2 powi ulp_exp q"
  have "\<bar>x\<bar> < 2 ^ 53"
    using abs_less_ulp [OF False] by (simp add: x_def field_simps power_int_add)
  then have "x \<le> of_int (2 ^ 53)" "of_int (- (2 ^ 53)) \<le> x" by auto
  then have "rhe x \<le> 2 ^ 53" "- (2 ^ 53) \<le> rhe x"
    using rhe_mono rhe_of_int by metis+
  then show ?thesis using False
    by (intro exI [of _ "rhe x"] exI [of _ "ulp_exp q"]) (auto simp: rnd_def x_def ulp_exp_def)
qed

lemma rnd_idem: "rnd (rnd q) = rnd q"
  using rnd_form [of q] rnd_exact by blast

lemma rnd_le_pow2:
  assumes "0 < p" "p \<le> of_int n * 2 powi ulp_exp p"
  shows "rnd p \<le> of_int n * 2 powi ulp_exp p"
proof -
  have "rhe (p / 2 powi ulp_exp p) \<le> rhe (of_int n)"
    using assms by (intro rhe_mono) (simp add: divide_le_eq)
  then show ?thesis using assms(1) by (simp add: rnd_def)
qed

lemma rnd_ge_pow2:
  assumes "0 < p" "of_int n * 2 powi ulp_exp p \<le> p"
  shows "of_int n * 2 powi ulp_exp p \<le> rnd p"
proof -
  have "rhe (of_int n) \<le> rhe (p / 2 powi ulp_exp p)"
    using assms by (intro rhe_mono) (simp add: le_divide_eq)
  then show ?thesis using assms(1) by (simp add: rnd_def)
qed

lemma rnd_mono_pos:
  assumes "0 < p" "p \<le> q"
  shows "rnd p \<le> rnd q"
proof (cases "ulp_exp p = ulp_exp q")
  case True
  with assms have "rhe (p / 2 powi ulp_exp p) \<le> rhe (q / 2 powi ulp_exp q)"
    by (intro rhe_mono) (simp add: divide_right_mono)
  with True assms show ?thesis by (simp add: rnd_def)
next
  case False
  define u v where "u = ulp_exp p" and "v = ulp_exp q"
  have uv: "u < v" "v = flog2 q - 52"
    using False flog2_mono [OF assms] assms by (auto simp: u_def v_def ulp_exp_def)
  define c :: rat where "c = 2 powi (v + 52)"
  have cq: "c = of_int (2 ^ 52) * 2 powi v" by (simp add: c_def power_int_add)
  have cp: "c = of_int (2 ^ nat (v + 52 - u)) * 2 powi u"
    using uv by (simp add: c_def flip: power_int_add power_int_of_nat)
  have "p < 2 powi (u + 53)" using abs_less_ulp [of p] assms by (simp add: u_def)
  also have "\<dots> \<le> c" using uv pow2_mono by (simp add: c_def)
  finally have "rnd p \<le> c"
    using rnd_le_pow2 [OF assms(1), of "2 ^ nat (v + 52 - u)"] cp by (simp add: u_def)
  also have "c \<le> q" using flog2_bounds(1) [of q] assms uv by (simp add: c_def)
  then have "c \<le> rnd q" using rnd_ge_pow2 [of q "2 ^ 52"] cq assms by (simp add: v_def)
  finally show ?thesis .
qed

lemma rnd_nonneg: "0 \<le> q \<Longrightarrow> 0 \<le> rnd q"
  using rhe_mono [of 0 "q / 2 powi ulp_exp q"] rhe_of_int [of 0] by (simp add: rnd_def)

lemma rnd_mono: "p \<le> q \<Longrightarrow> rnd p \<le> rnd q"
proof -
  assume pq: "p \<le> q"
  consider "0 < p" | "p \<le> 0" "0 \<le> q" | "q < 0" by linarith
  then show ?thesis
  proof cases
    case 1
    then show ?thesis using pq by (rule rnd_mono_pos)
  next
    case 2
    then show ?thesis using rnd_nonneg [of q] rnd_nonneg [of "- p"] by (simp add: rnd_minus)
  next
    case 3
    then have "rnd (- q) \<le> rnd (- p)" using pq by (intro rnd_mono_pos) auto
    then show ?thesis by (simp add: rnd_minus)
  qed
qed

interpretation binary64: rounding rnd
  by unfold_locales (auto intro: rnd_mono rnd_idem)


section \<open>Order facts of the arithmetic\<close>

lemma fle_refl: "x \<noteq> NaN \<Longrightarrow> fle x x"
  by (cases x) (auto simp: fle_def is_inf_def)

lemma fle_trans: "fle x y \<Longrightarrow> fle y z \<Longrightarrow> fle x z"
  by (cases x; cases y; cases z) (auto simp: fle_def is_inf_def)

lemma fle_notNaN: "fle x y \<Longrightarrow> x \<noteq> NaN \<and> y \<noteq> NaN"
  by (simp add: fle_def)

lemma fle_Fin [simp]: "fle (Fin p) (Fin q) \<longleftrightarrow> p \<le> q"
  by (simp add: fle_def is_inf_def)

lemma flt_Fin [simp]: "flt (Fin p) (Fin q) \<longleftrightarrow> p < q"
  by (auto simp: flt_def)

lemma fl_0 [simp]: "fl 0 = Fin 0"
  by (simp add: fl_def)

lemma fl_notNaN [simp]: "fl q \<noteq> NaN"
  by (simp add: fl_def Let_def)

lemma wf_fl [simp]: "wf_float (fl q)"
  by (auto simp: fl_def Let_def wf_float_def b64_def rnd_idem abs_less_iff)

lemma fl_b64: "b64 q \<Longrightarrow> q \<noteq> 0 \<Longrightarrow> fl q = Fin q"
  by (auto simp: fl_def Let_def b64_def abs_less_iff)

lemma fl_mono: "p \<le> q \<Longrightarrow> fle (fl p) (fl q)"
  using rnd_mono [of p q] by (auto simp: fl_def Let_def fle_def is_inf_def)

lemma fl_nonneg: "0 \<le> q \<Longrightarrow> fle (Fin 0) (fl q)"
  using fl_mono [of 0 q] by simp

lemma fl_ge: "b64 p \<Longrightarrow> p \<le> q \<Longrightarrow> fle (Fin p) (fl q)"
  using fl_mono [of p q] fl_b64 [of p] fl_0 by (cases "p = 0") auto

lemma wf_fadd [simp]: "wf_float (fadd x y)"
  by (simp add: fadd_def) (simp add: wf_float_def b64_def)

lemma wf_fmul [simp]: "wf_float (fmul x y)"
  by (simp add: fmul_def) (simp add: wf_float_def b64_def)

text \<open>On finite operands an addition is, up to the sign of a zero, the rounded exact sum.\<close>

lemma fadd_finite:
  assumes "x \<noteq> NaN" "y \<noteq> NaN" "\<not> is_inf x" "\<not> is_inf y"
  shows "fle (fadd x y) (fl (fval x + fval y)) \<and> fle (fl (fval x + fval y)) (fadd x y)"
  using assms fle_refl [OF fl_notNaN, of "fval x + fval y"]
  by (auto simp: fadd_def is_inf_def) (auto simp: fle_def is_inf_def)

lemma fadd_ge:
  assumes "wf_float x" "fle (Fin 0) x" "fle (Fin 0) y"
  shows "fle x (fadd x y)"
proof (cases "is_inf x \<or> is_inf y")
  case True
  with assms show ?thesis by (cases x; cases y) (auto simp: is_inf_def fle_def fadd_def)
next
  case False
  have nn: "x \<noteq> NaN" "y \<noteq> NaN" using assms fle_notNaN by blast+
  have v: "0 \<le> fval y" "b64 (fval x)" "fle x (Fin (fval x))"
    using assms False nn by (cases x; cases y; simp add: fle_def is_inf_def wf_float_def b64_def)+
  have "fle (Fin (fval x)) (fl (fval x + fval y))" using v by (intro fl_ge) auto
  then show ?thesis using fadd_finite [of x y] nn False v(3) fle_trans by blast
qed

lemma fadd_nonneg: "wf_float x \<Longrightarrow> fle (Fin 0) x \<Longrightarrow> fle (Fin 0) y \<Longrightarrow> fle (Fin 0) (fadd x y)"
  using fadd_ge fle_trans by blast

lemma fmul_nonneg:
  assumes "fle (Fin 0) x" "0 < c"
  shows "fle (Fin 0) (fmul x (Fin c))"
  using assms fl_nonneg [of "fval x * c"]
  by (cases x) (auto simp: fmul_def fle_def is_inf_def is_zero_def)

lemma fsub_antimono:
  assumes "fle y z" "fle (Fin 0) y"
  shows "fle (fsub (Fin b) z) (fsub (Fin b) y)"
proof (cases "is_inf y \<or> is_inf z")
  case True
  with assms show ?thesis
    by (cases y; cases z) (auto simp: is_inf_def fle_def fsub_def fadd_def Let_def)
next
  case False
  have nn: "fneg y \<noteq> NaN" "fneg z \<noteq> NaN" "\<not> is_inf (fneg y)" "\<not> is_inf (fneg z)"
    using assms False by (cases y; cases z; simp add: fle_def is_inf_def)+
  have "fval (fneg z) \<le> fval (fneg y)"
    using assms False by (cases y; cases z) (auto simp: fle_def is_inf_def)
  then have "fle (fl (b + fval (fneg z))) (fl (b + fval (fneg y)))" by (intro fl_mono) simp
  then show ?thesis
    using fadd_finite [of "Fin b" "fneg z"] fadd_finite [of "Fin b" "fneg y"] nn fle_trans
    unfolding fsub_def by (metis fval.simps(1) is_inf_def pyfloat.distinct(3,5,7))
qed

subsection \<open>Sums of non-negative terms\<close>

lemma fsum_snoc: "fsum (xs @ [x]) = fadd (fsum xs) x"
  by (simp add: fsum_def)

lemma fsum_nonneg: "list_all (fle (Fin 0)) xs \<Longrightarrow> wf_float (fsum xs) \<and> fle (Fin 0) (fsum xs)"
proof (induction xs rule: rev_induct)
  case Nil
  then show ?case by (simp add: fsum_def wf_float_def b64_def)
next
  case (snoc x xs)
  then show ?case by (simp add: fsum_snoc fadd_nonneg)
qed

lemma fsum_append_ge: "list_all (fle (Fin 0)) (xs @ ys) \<Longrightarrow> fle (fsum xs) (fsum (xs @ ys))"
proof (induction ys rule: rev_induct)
  case Nil
  then show ?case using fsum_nonneg [of xs] fle_notNaN fle_refl by fastforce
next
  case (snoc y ys)
  then have "fle (fsum (xs @ ys)) (fsum ((xs @ ys) @ [y]))"
    using fsum_nonneg [of "xs @ ys"] unfolding fsum_snoc by (intro fadd_ge) auto
  with snoc show ?case using fle_trans by fastforce
qed

subsection \<open>Clamping to the unit interval\<close>

definition clamp01 :: "pyfloat \<Rightarrow> pyfloat" where
  "clamp01 x = py_max (Fin 0) (py_min (Fin 1) x)"

lemma clamp01_range: "\<exists>q. clamp01 x = Fin q \<and> 0 \<le> q \<and> q \<le> 1"
  by (cases x) (auto simp: clamp01_def py_max_def py_min_def flt_def fle_def is_inf_def)

lemma clamp01_mono: "fle x y \<Longrightarrow> fle (clamp01 x) (clamp01 y)"
  by (cases x; cases y) (auto simp: clamp01_def py_max_def py_min_def flt_def fle_def is_inf_def)

lemma clamp01_NaN [simp]: "clamp01 NaN = Fin 1"
  by (simp add: clamp01_def py_max_def py_min_def flt_def fle_def is_inf_def)

end
