(* ===== verification/Json.thy ===== *)
theory Json
  imports Codec PyFloat "HOL-Library.Multiset"
begin

text \<open>
  The JSON-shaped Python values the service passes around (\<^verbatim>\<open>Any\<close> / \<^verbatim>\<open>JsonValue\<close> in the
  sources) and \<^verbatim>\<open>json.dumps\<close> with the options the sources use, including the shortest
  round-trip \<^verbatim>\<open>repr\<close> of a float. \<open>canonical_json\<close> is the function of the same name in
  \<^verbatim>\<open>application/merkle.py\<close>.
\<close>

section \<open>Values\<close>

datatype pyval =
    PNone
  | PBool bool
  | PInt int
  | PFloat pyfloat
  | PStr string
  | PList "pyval list"
  | PDict "(string \<times> pyval) list"

type_synonym pydict = "(string \<times> pyval) list"

section \<open>Float text\<close>

text \<open>The exponent \<open>e\<close> with \<open>10 ^ e \<le> q < 10 ^ (e + 1)\<close>, for positive \<open>q\<close>.\<close>

definition flog10 :: "rat \<Rightarrow> int" where
  "flog10 q = (let (a, b) = quotient_of q; e = int (length (int_str a)) - int (length (int_str b))
               in if 10 powi e \<le> q then e else e - 1)"

text \<open>The \<open>n\<close>-digit decimals next to \<open>a\<close> that round back to \<open>a\<close>: the nearest of them, if any.\<close>

definition shortest_at :: "rat \<Rightarrow> nat \<Rightarrow> int option" where
  "shortest_at a n =
     (let s = 10 powi (int n - 1 - flog10 a); x = a * s; lo = \<lfloor>x\<rfloor>; hi = lo + 1;
          okl = (0 < lo \<and> rnd (of_int lo / s) = a); okh = (rnd (of_int hi / s) = a)
      in if okl \<and> okh then
           Some (if x - of_int lo < 1 / 2 \<or> (x - of_int lo = 1 / 2 \<and> even lo) then lo else hi)
         else if okl then Some lo else if okh then Some hi else None)"

fun shortest_from :: "rat \<Rightarrow> nat \<Rightarrow> nat list \<Rightarrow> int \<times> nat" where
  "shortest_from a n [] = (\<lfloor>a * 10 powi (16 - flog10 a)\<rfloor>, 17)"
| "shortest_from a _ (n # ns) = (case shortest_at a n of Some d \<Rightarrow> (d, n) | None \<Rightarrow> shortest_from a n ns)"

definition strip_zeros :: "string \<Rightarrow> string" where
  "strip_zeros s = rev (dropWhile (\<lambda>c. c = CHR ''0'') (rev s))"

text \<open>Placing the digits: fixed notation for decimal points in \<open>(-4, 16]\<close>, exponent notation otherwise.\<close>

definition place_digits :: "string \<Rightarrow> int \<Rightarrow> string" where
  "place_digits ds decpt =
     (if -4 < decpt \<and> decpt \<le> 16 then
        (if decpt \<le> 0 then ''0.'' @ replicate (nat (- decpt)) (CHR ''0'') @ ds
         else if int (length ds) \<le> decpt
              then ds @ replicate (nat decpt - length ds) (CHR ''0'') @ ''.0''
              else take (nat decpt) ds @ ''.'' @ drop (nat decpt) ds)
      else (let e = decpt - 1 in
        take 1 ds @ (if length ds = 1 then [] else ''.'' @ drop 1 ds) @ ''e''
          @ (if e < 0 then ''-'' else ''+'') @ pad 2 (nat \<bar>e\<bar>)))"

definition repr_pos :: "rat \<Rightarrow> string" where
  "repr_pos a = (case shortest_from a 0 [1..<18] of (d, n) \<Rightarrow>
     let s = int_str d in
     place_digits (strip_zeros s) (flog10 a + 1 + (int (length s) - int n)))"

text \<open>\<^verbatim>\<open>float.__repr__\<close> with the spellings \<^verbatim>\<open>json\<close> uses for the special values.\<close>

fun json_float :: "pyfloat \<Rightarrow> string" where
  "json_float (Fin q) = (if q = 0 then ''0.0'' else if q < 0 then ''-'' @ repr_pos (- q) else repr_pos q)"
| "json_float NegZero = ''-0.0''"
| "json_float PInf = ''Infinity''"
| "json_float NInf = ''-Infinity''"
| "json_float NaN = ''NaN''"

section \<open>Serialisation\<close>

definition hex4 :: "nat \<Rightarrow> string" where
  "hex4 n = map (\<lambda>i. hex_digit (n div 16 ^ i mod 16)) [3, 2, 1, 0]"

definition json_char :: "bool \<Rightarrow> char \<Rightarrow> string" where
  "json_char ascii c = (let n = of_char c :: nat; bs = char_of (92 :: nat) in
     if n = 34 \<or> n = 92 then [bs, c]
     else if n = 8 then [bs, CHR ''b''] else if n = 12 then [bs, CHR ''f'']
     else if n = 10 then [bs, CHR ''n''] else if n = 13 then [bs, CHR ''r'']
     else if n = 9 then [bs, CHR ''t'']
     else if n < 32 \<or> (ascii \<and> 126 < n) then bs # CHR ''u'' # hex4 n
     else [c])"

definition json_str :: "bool \<Rightarrow> string \<Rightarrow> string" where
  "json_str ascii s = (let q = char_of (34 :: nat) in q # concat (map (json_char ascii) s) @ [q])"

text \<open>The options of \<^verbatim>\<open>json.dumps\<close> the sources use.\<close>

record json_opts =
  sort_keys :: bool
  item_sep :: string
  key_sep :: string
  ensure_ascii :: bool

fun json_dumps :: "json_opts \<Rightarrow> pyval \<Rightarrow> string" where
  "json_dumps opts PNone = ''null''"
| "json_dumps opts (PBool b) = (if b then ''true'' else ''false'')"
| "json_dumps opts (PInt i) = int_str i"
| "json_dumps opts (PFloat x) = json_float x"
| "json_dumps opts (PStr s) = json_str (ensure_ascii opts) s"
| "json_dumps opts (PList vs) = ''['' @ join (item_sep opts) (map (json_dumps opts) vs) @ '']''"
| "json_dumps opts (PDict kvs) =
     (let items = map (\<lambda>(k, v). (k, json_dumps opts v)) kvs;
          ordered = (if sort_keys opts then sort_key fst items else items)
      in ''{'' @ join (item_sep opts)
                   (map (\<lambda>(k, t). json_str (ensure_ascii opts) k @ key_sep opts @ t) ordered) @ ''}'')"

definition canonical_opts :: json_opts where
  "canonical_opts = \<lparr>sort_keys = True, item_sep = '','', key_sep = '':'', ensure_ascii = False\<rparr>"

definition default_opts :: json_opts where
  "default_opts = \<lparr>sort_keys = False, item_sep = '', '', key_sep = '': '', ensure_ascii = True\<rparr>"

definition canonical_json :: "pyval \<Rightarrow> string" where
  "canonical_json v = json_dumps canonical_opts v"

section \<open>Reordered dictionaries\<close>

text \<open>
  \<open>json_perm v w\<close>: \<open>w\<close> is \<open>v\<close> with the entries of any of its dictionaries, at any depth,
  inserted in another order.
\<close>

inductive json_perm :: "pyval \<Rightarrow> pyval \<Rightarrow> bool" where
  refl: "json_perm v v"
| list: "list_all2 json_perm vs ws \<Longrightarrow> json_perm (PList vs) (PList ws)"
| dict: "list_all2 (\<lambda>p q. fst p = fst q \<and> json_perm (snd p) (snd q)) kvs lws \<Longrightarrow>
    distinct (map fst kvs) \<Longrightarrow> mset lws = mset lws' \<Longrightarrow> json_perm (PDict kvs) (PDict lws')"

lemma sort_key_fst_perm:
  fixes xs ys :: "('k::linorder \<times> 'v) list"
  assumes "mset xs = mset ys" "distinct (map fst xs)"
  shows "sort_key fst xs = sort_key fst ys"
proof (rule sort_key_inj_key_eq)
  show "mset xs = mset (sort_key fst ys)" using assms(1) by simp
  show "inj_on fst (set xs)" using assms(2) by (simp add: distinct_map)
qed simp

lemma dumps_items_perm:
  assumes "list_all2 (\<lambda>p q. fst p = fst q \<and> json_dumps opts (snd p) = json_dumps opts (snd q)) kvs lws"
  shows "map (\<lambda>(k, v). (k, json_dumps opts v)) kvs = map (\<lambda>(k, v). (k, json_dumps opts v)) lws"
  using assms by (induction rule: list_all2_induct) auto

lemma list_all2_map_eq:
  "list_all2 (\<lambda>x y. f x = f y) xs ys \<Longrightarrow> map f xs = map f ys"
  by (induction rule: list_all2_induct) auto

lemma json_dumps_perm:
  assumes "json_perm v w" "sort_keys opts"
  shows "json_dumps opts v = json_dumps opts w"
  using assms(1)
proof (induction rule: json_perm.induct)
  case (list vs ws)
  then have "list_all2 (\<lambda>x y. json_dumps opts x = json_dumps opts y) vs ws"
    by (auto elim: list_all2_mono)
  then show ?case by (simp add: list_all2_map_eq)
next
  case (dict kvs lws lws')
  let ?t = "map (\<lambda>(k, v). (k, json_dumps opts v))"
  have eq: "?t kvs = ?t lws"
    by (rule dumps_items_perm) (use dict in \<open>auto elim: list_all2_mono\<close>)
  have "mset (?t kvs) = mset (?t lws')" using dict(3) eq by simp
  moreover have "distinct (map fst (?t kvs))" using dict(2) by (simp add: comp_def case_prod_beta)
  ultimately have "sort_key fst (?t kvs) = sort_key fst (?t lws')" by (rule sort_key_fst_perm)
  then show ?case using assms(2) by simp
qed simp

end
