(* ===== verification/PyTime.thy ===== *)
theory PyTime
  imports Codec PyFloat
begin

text \<open>
  What the sources use of Python's \<^verbatim>\<open>datetime\<close>: the validating constructor, \<^verbatim>\<open>isoformat\<close> (plain and
  with \<^verbatim>\<open>timespec="milliseconds"\<close>), \<^verbatim>\<open>fromisoformat\<close> of calendar dates (Python 3.11) and \<^verbatim>\<open>timestamp()\<close> of an aware value. A value carries its UTC offset
  in microseconds, or none when it is naive. The current time is an input of every operation
  that reads the clock.
\<close>

section \<open>Definitions\<close>

record datetime =
  dt_year :: nat
  dt_month :: nat
  dt_day :: nat
  dt_hour :: nat
  dt_minute :: nat
  dt_second :: nat
  dt_micro :: nat
  dt_offset :: "int option"

definition is_leap :: "nat \<Rightarrow> bool" where
  "is_leap y = (y mod 4 = 0 \<and> (y mod 100 \<noteq> 0 \<or> y mod 400 = 0))"

definition days_in_month :: "nat \<Rightarrow> nat \<Rightarrow> nat" where
  "days_in_month y m = (if m = 2 then (if is_leap y then 29 else 28)
     else if m \<in> {4, 6, 9, 11} then 30 else 31)"

definition valid_datetime :: "datetime \<Rightarrow> bool" where
  "valid_datetime t = (1 \<le> dt_year t \<and> dt_year t \<le> 9999 \<and> 1 \<le> dt_month t \<and> dt_month t \<le> 12 \<and>
     1 \<le> dt_day t \<and> dt_day t \<le> days_in_month (dt_year t) (dt_month t) \<and>
     dt_hour t < 24 \<and> dt_minute t < 60 \<and> dt_second t < 60 \<and> dt_micro t < 1000000)"

definition day_us :: int where
  "day_us = 86400000000"

text \<open>\<^verbatim>\<open>datetime(...)\<close> with a \<^verbatim>\<open>timezone\<close>: field ranges and an offset strictly between -24 h and 24 h.\<close>

definition mk_datetime :: "datetime \<Rightarrow> datetime res" where
  "mk_datetime t =
     (if (case dt_offset t of None \<Rightarrow> True | Some z \<Rightarrow> - day_us < z \<and> z < day_us) \<and> valid_datetime t
      then Inr t else Inl (ValueError ''datetime''))"

definition iso_date_time :: "datetime \<Rightarrow> string" where
  "iso_date_time t = pad 4 (dt_year t) @ ''-'' @ pad 2 (dt_month t) @ ''-'' @ pad 2 (dt_day t) @ ''T'' @
     pad 2 (dt_hour t) @ '':'' @ pad 2 (dt_minute t) @ '':'' @ pad 2 (dt_second t)"

definition iso_offset :: "int option \<Rightarrow> string" where
  "iso_offset off = (case off of None \<Rightarrow> [] | Some z \<Rightarrow>
     (let a = nat \<bar>z\<bar>; us = a mod 1000000; s = a div 1000000 in
      (if z < 0 then ''-'' else ''+'') @ pad 2 (s div 3600) @ '':'' @ pad 2 (s div 60 mod 60) @
      (if s mod 60 = 0 \<and> us = 0 then [] else '':'' @ pad 2 (s mod 60)) @
      (if us = 0 then [] else ''.'' @ pad 6 us)))"

text \<open>\<^verbatim>\<open>t.isoformat()\<close>.\<close>

definition isoformat :: "datetime \<Rightarrow> string" where
  "isoformat t = iso_date_time t @ (if dt_micro t = 0 then [] else ''.'' @ pad 6 (dt_micro t)) @
     iso_offset (dt_offset t)"

text \<open>\<^verbatim>\<open>t.isoformat(timespec="milliseconds")\<close>.\<close>

definition isoformat_ms :: "datetime \<Rightarrow> string" where
  "isoformat_ms t = iso_date_time t @ ''.'' @ pad 3 (dt_micro t div 1000) @ iso_offset (dt_offset t)"

subsection \<open>Calendar and \<^verbatim>\<open>timestamp()\<close>\<close>

definition days_before_year :: "nat \<Rightarrow> int" where
  "days_before_year y = (let p = int y - 1 in p * 365 + p div 4 - p div 100 + p div 400)"

definition days_before_month :: "nat \<Rightarrow> nat \<Rightarrow> nat" where
  "days_before_month y m = sum_list (map (days_in_month y) [1..<m])"

definition ymd2ord :: "nat \<Rightarrow> nat \<Rightarrow> nat \<Rightarrow> int" where
  "ymd2ord y m d = days_before_year y + int (days_before_month y m) + int d"

text \<open>Microseconds since 1970-01-01T00:00:00Z of an aware value.\<close>

definition epoch_us :: "datetime \<Rightarrow> int" where
  "epoch_us t = ((ymd2ord (dt_year t) (dt_month t) (dt_day t) - 719163) * 86400 +
      int (dt_hour t * 3600 + dt_minute t * 60 + dt_second t)) * 1000000 + int (dt_micro t) -
      (case dt_offset t of None \<Rightarrow> 0 | Some z \<Rightarrow> z)"

text \<open>\<^verbatim>\<open>t.timestamp()\<close>: seconds since the epoch, correctly rounded.\<close>

definition timestamp :: "datetime \<Rightarrow> pyfloat" where
  "timestamp t = (let u = epoch_us t in if u = 0 then Fin 0 else fl (of_int u / 1000000))"

subsection \<open>\<^verbatim>\<open>fromisoformat\<close>\<close>

definition two_digits :: "string \<Rightarrow> nat option" where
  "two_digits s = (if length s < 2 then None else digits_nat (take 2 s))"

text \<open>The loop over hours, minutes and seconds; \<open>c\<close> is the index of the component.\<close>

fun hms_loop :: "nat list \<Rightarrow> nat \<Rightarrow> bool \<Rightarrow> string \<Rightarrow> (nat list \<times> string) option" where
  "hms_loop [] c has_sep s = Some ([], s)"
| "hms_loop (w # ws) c has_sep s =
     (case two_digits s of None \<Rightarrow> None | Some v \<Rightarrow>
       (let r = drop 2 s; sep = (if c = 0 then take 1 r = '':'' else has_sep) in
        if r = [] \<or> 2 \<le> c then Some ([v], r)
        else if sep \<and> take 1 r \<noteq> '':'' then None
        else map_option (\<lambda>(vs, rest). (v # vs, rest))
               (hms_loop ws (Suc c) sep (if sep then drop 1 r else r))))"

definition parse_fraction :: "string \<Rightarrow> nat option" where
  "parse_fraction s =
     (if s = [] then Some 0
      else if take 1 s \<noteq> ''.'' \<and> take 1 s \<noteq> '','' then None
      else (let r = drop 1 s; n = min 6 (length r) in
        if list_all is_digit (drop n r)
        then map_option (\<lambda>v. v * 10 ^ (6 - n)) (digits_nat (take n r)) else None))"

text \<open>Hours, minutes, seconds, microseconds.\<close>

definition parse_hh_mm_ss_ff :: "string \<Rightarrow> (nat \<times> nat \<times> nat \<times> nat) option" where
  "parse_hh_mm_ss_ff s =
     (case hms_loop [0, 1, 2] 0 False s of None \<Rightarrow> None | Some (vs, rest) \<Rightarrow>
        (case parse_fraction rest of None \<Rightarrow> None | Some us \<Rightarrow>
           Some (vs ! 0, (if length vs < 2 then 0 else vs ! 1), (if length vs < 3 then 0 else vs ! 2), us)))"

definition split_at :: "char \<Rightarrow> string \<Rightarrow> (string \<times> string) option" where
  "split_at c s = (let pre = takeWhile (\<lambda>x. x \<noteq> c) s in
     if length pre < length s then Some (pre, drop (Suc (length pre)) s) else None)"

text \<open>The time part; the zone starts at the first minus, else the first plus, else the first Z.\<close>

definition parse_isoformat_time :: "string \<Rightarrow> ((nat \<times> nat \<times> nat \<times> nat) \<times> int option) option" where
  "parse_isoformat_time s =
     (if length s < 2 then None
      else let zone = (case split_at (CHR ''-'') s of Some (a, b) \<Rightarrow> Some (CHR ''-'', a, b) | None \<Rightarrow>
                       (case split_at (CHR ''+'') s of Some (a, b) \<Rightarrow> Some (CHR ''+'', a, b) | None \<Rightarrow>
                        (case split_at (CHR ''Z'') s of Some (a, b) \<Rightarrow> Some (CHR ''Z'', a, b) | None \<Rightarrow> None)))
      in case zone of
        None \<Rightarrow> map_option (\<lambda>t. (t, None)) (parse_hh_mm_ss_ff s)
      | Some (c, a, b) \<Rightarrow>
          (case parse_hh_mm_ss_ff a of None \<Rightarrow> None | Some t \<Rightarrow>
             if b = [] \<and> c = CHR ''Z'' then Some (t, Some 0)
             else if length b \<in> {0, 1, 3} then None
             else (case parse_hh_mm_ss_ff b of None \<Rightarrow> None | Some (h, m, sec, us) \<Rightarrow>
               Some (t, Some ((if c = CHR ''-'' then -1 else 1) *
                 int ((h * 3600 + m * 60 + sec) * 1000000 + us))))))"

text \<open>Where the date ends: 10 for the dashed form, 8 for the compact one. ISO week dates
  (\<^verbatim>\<open>2026-W01-1\<close>) are outside the modelled fragment.\<close>

definition date_length :: "string \<Rightarrow> nat option" where
  "date_length s = (if take 1 (drop 4 s) = ''-''
     then (if take 1 (drop 5 s) = ''W'' then None else Some 10)
     else if take 1 (drop 4 s) = ''W'' then None else Some 8)"

definition parse_isoformat_date :: "string \<Rightarrow> (nat \<times> nat \<times> nat) option" where
  "parse_isoformat_date s =
     (let dash = (take 1 (drop 4 s) = ''-''); p = (if dash then 5 else 4) in
      case (digits_nat (take 4 s), two_digits (drop p s)) of
        (Some y, Some mo) \<Rightarrow>
          (if (take 1 (drop (p + 2) s) = ''-'') \<noteq> dash then None
           else map_option (\<lambda>d. (y, mo, d)) (two_digits (drop (if dash then p + 3 else p + 2) s)))
      | _ \<Rightarrow> None)"

definition fromisoformat :: "string \<Rightarrow> datetime res" where
  "fromisoformat s =
     (if length s < 7 then Inl (ValueError ''Invalid isoformat string'')
      else case date_length s of
        None \<Rightarrow> Inl (IllTyped ''ISO week date'')
      | Some n \<Rightarrow>
          (case parse_isoformat_date (take n s) of
             None \<Rightarrow> Inl (ValueError ''Invalid isoformat string'')
           | Some (y, mo, d) \<Rightarrow>
               (case (if drop n s = [] then Some ((0, 0, 0, 0), None)
                      else parse_isoformat_time (drop (n + 1) s)) of
                  None \<Rightarrow> Inl (ValueError ''Invalid isoformat string'')
                | Some ((h, mi, sec, us), off) \<Rightarrow>
                    mk_datetime \<lparr>dt_year = y, dt_month = mo, dt_day = d, dt_hour = h, dt_minute = mi,
                      dt_second = sec, dt_micro = us, dt_offset = off\<rparr>)))"

section \<open>Reading back what \<^verbatim>\<open>isoformat\<close> wrote\<close>

lemma is_digit_neq:
  "is_digit c \<Longrightarrow> c \<noteq> CHR ''-''" "is_digit c \<Longrightarrow> c \<noteq> CHR ''+''" "is_digit c \<Longrightarrow> c \<noteq> CHR '':''"
  "is_digit c \<Longrightarrow> c \<noteq> CHR ''W''" "is_digit c \<Longrightarrow> c \<noteq> CHR ''Z''" "is_digit c \<Longrightarrow> c \<noteq> CHR ''.''"
  by (auto simp: is_digit_def)

lemma pad2: assumes "n < 100"
  shows "\<exists>a b. pad 2 n = [a, b] \<and> is_digit a \<and> is_digit b \<and> digits_nat [a, b] = Some n"
proof -
  have len: "length (pad 2 n) = 2" using assms by (intro length_pad) auto
  then obtain a b where ab: "pad 2 n = [a, b]" by (auto simp: length_Suc_conv numeral_2_eq_2)
  with pad_digits [of 2 n] digits_nat_pad [of 2 n] show ?thesis by auto
qed

lemma pad3: assumes "n < 1000"
  shows "\<exists>a b c. pad 3 n = [a, b, c] \<and> is_digit a \<and> is_digit b \<and> is_digit c \<and> digits_nat [a, b, c] = Some n"
proof -
  have len: "length (pad 3 n) = 3" using assms by (intro length_pad) auto
  then obtain a b c where ab: "pad 3 n = [a, b, c]" by (auto simp: length_Suc_conv numeral_3_eq_3)
  with pad_digits [of 3 n] digits_nat_pad [of 3 n] show ?thesis by auto
qed

lemma pad4: assumes "n < 10000"
  shows "\<exists>a b c d. pad 4 n = [a, b, c, d] \<and> is_digit a \<and> is_digit b \<and> is_digit c \<and> is_digit d \<and>
    digits_nat [a, b, c, d] = Some n"
proof -
  have len: "length (pad 4 n) = 4" using assms by (intro length_pad) auto
  then obtain a b c d where ab: "pad 4 n = [a, b, c, d]" by (auto simp: length_Suc_conv eval_nat_numeral)
  with pad_digits [of 4 n] digits_nat_pad [of 4 n] show ?thesis by auto
qed

lemma days_in_month_le: "days_in_month y m \<le> 31"
  by (simp add: days_in_month_def)

lemma digit_char_0: "digit_char 0 = CHR ''0''"
  by code_simp

lemma iso_offset_utc: "iso_offset (Some 0) = ''+00:00''"
  by (simp add: iso_offset_def pad_def nat_str.simps digit_char_0)

lemma parse_utc_time:
  assumes "dt_hour t < 24" "dt_minute t < 60" "dt_second t < 60" "dt_micro t < 1000000"
  shows "parse_isoformat_time (pad 2 (dt_hour t) @ '':'' @ pad 2 (dt_minute t) @ '':'' @ pad 2 (dt_second t) @
      ''.'' @ pad 3 (dt_micro t div 1000) @ ''+00:00'') =
    Some ((dt_hour t, dt_minute t, dt_second t, dt_micro t div 1000 * 1000), Some 0)"
proof -
  obtain h1 h2 where h: "pad 2 (dt_hour t) = [h1, h2]" "is_digit h1" "is_digit h2" "digits_nat [h1, h2] = Some (dt_hour t)"
    using assms pad2 [of "dt_hour t"] by auto
  obtain m1 m2 where m: "pad 2 (dt_minute t) = [m1, m2]" "is_digit m1" "is_digit m2" "digits_nat [m1, m2] = Some (dt_minute t)"
    using assms pad2 [of "dt_minute t"] by auto
  obtain s1 s2 where s: "pad 2 (dt_second t) = [s1, s2]" "is_digit s1" "is_digit s2" "digits_nat [s1, s2] = Some (dt_second t)"
    using assms pad2 [of "dt_second t"] by auto
  obtain u1 u2 u3 where u: "pad 3 (dt_micro t div 1000) = [u1, u2, u3]" "is_digit u1" "is_digit u2" "is_digit u3"
      "digits_nat [u1, u2, u3] = Some (dt_micro t div 1000)"
    using assms pad3 [of "dt_micro t div 1000"] by (auto simp: less_mult_imp_div_less)
  have zz: "digits_nat ''00'' = Some 0" by (simp add: digits_nat_def is_digit_def digit_val_def)
  show ?thesis
    using h m s u zz
    by (simp add: parse_isoformat_time_def split_at_def Let_def is_digit_neq parse_hh_mm_ss_ff_def
        two_digits_def parse_fraction_def numeral_2_eq_2 numeral_3_eq_3)
qed

theorem fromisoformat_isoformat_ms:
  assumes "valid_datetime t" "dt_offset t = Some 0"
  shows "fromisoformat (isoformat_ms t) = Inr (t\<lparr>dt_micro := dt_micro t div 1000 * 1000\<rparr>)"
proof -
  note v = assms(1) [unfolded valid_datetime_def]
  obtain y1 y2 y3 y4 where y: "pad 4 (dt_year t) = [y1, y2, y3, y4]" "is_digit y1" "is_digit y2" "is_digit y3" "is_digit y4"
      "digits_nat [y1, y2, y3, y4] = Some (dt_year t)"
    using v pad4 [of "dt_year t"] by auto
  obtain m1 m2 where m: "pad 2 (dt_month t) = [m1, m2]" "is_digit m1" "is_digit m2" "digits_nat [m1, m2] = Some (dt_month t)"
    using v pad2 [of "dt_month t"] by auto
  have "dt_day t < 100" using v days_in_month_le [of "dt_year t" "dt_month t"] by simp
  then obtain d1 d2 where d: "pad 2 (dt_day t) = [d1, d2]" "is_digit d1" "is_digit d2" "digits_nat [d1, d2] = Some (dt_day t)"
    using pad2 [of "dt_day t"] by auto
  define tm where "tm = pad 2 (dt_hour t) @ '':'' @ pad 2 (dt_minute t) @ '':'' @ pad 2 (dt_second t) @
      ''.'' @ pad 3 (dt_micro t div 1000) @ ''+00:00''"
  have iso: "isoformat_ms t = y1 # y2 # y3 # y4 # CHR ''-'' # m1 # m2 # CHR ''-'' # d1 # d2 # CHR ''T'' # tm"
    using y m d assms(2) by (simp add: isoformat_ms_def iso_date_time_def iso_offset_utc tm_def)
  have ptm: "parse_isoformat_time tm = Some ((dt_hour t, dt_minute t, dt_second t, dt_micro t div 1000 * 1000), Some 0)"
    unfolding tm_def using v by (intro parse_utc_time) auto
  have "valid_datetime (t\<lparr>dt_micro := dt_micro t div 1000 * 1000\<rparr>)"
    using v by (simp add: valid_datetime_def less_mult_imp_div_less)
  then show ?thesis
    using y m d ptm assms(2)
    by (simp add: iso fromisoformat_def date_length_def parse_isoformat_date_def two_digits_def
        is_digit_neq mk_datetime_def day_us_def valid_datetime_def)
qed


text \<open>The Unix epoch, as the clock reading of concrete runs.\<close>

definition epoch :: datetime where
  "epoch = \<lparr>dt_year = 1970, dt_month = 1, dt_day = 1, dt_hour = 0, dt_minute = 0, dt_second = 0,
     dt_micro = 0, dt_offset = Some 0\<rparr>"

lemma epoch_valid [simp]: "valid_datetime epoch" "dt_offset epoch = Some 0"
  by (simp_all add: epoch_def valid_datetime_def days_in_month_def)

lemma fromisoformat_epoch [simp]: "fromisoformat (isoformat_ms epoch) = Inr epoch"
  by (simp add: fromisoformat_isoformat_ms) (simp add: epoch_def)

end
