(* ===== verification/Domain.thy ===== *)
theory Domain
  imports Json PyTime
begin

text \<open>
  \<^verbatim>\<open>domain/enums.py\<close> and \<^verbatim>\<open>domain/models.py\<close>: the enumerations and the Pydantic models as records with
  their validating constructors.

  Pydantic itself is a library: how it coerces a raw value to a declared field type, and how it
  dumps a model, is the parameter record \<open>pydantic\<close>. The constraints the sources declare (patterns,
  bounds, the \<open>evidence_refs\<close> validator) are written out here. \<open>pydantic_ok\<close> names the documented
  behaviour the theorems use: a value that already has the declared type is accepted unchanged, a
  \<^verbatim>\<open>str\<close> field accepts nothing but strings and a \<^verbatim>\<open>list[str]\<close> field nothing but lists of strings, and a \<^verbatim>\<open>datetime\<close> field reads UTC times in the millisecond
  format that the code writes.
\<close>

section \<open>Enumerations\<close>

datatype metric_status =
    MS_PROPOSED | MS_DEBATED | MS_CRITIQUED | MS_RECONCILED | MS_COMMITTED | MS_REJECTED | MS_SUPERSEDED

fun metric_status_value :: "metric_status \<Rightarrow> string" where
  "metric_status_value MS_PROPOSED = ''PROPOSED''"
| "metric_status_value MS_DEBATED = ''DEBATED''"
| "metric_status_value MS_CRITIQUED = ''CRITIQUED''"
| "metric_status_value MS_RECONCILED = ''RECONCILED''"
| "metric_status_value MS_COMMITTED = ''COMMITTED''"
| "metric_status_value MS_REJECTED = ''REJECTED''"
| "metric_status_value MS_SUPERSEDED = ''SUPERSEDED''"

datatype update_metric_status = ACCEPTED | DUPLICATE_IGNORED | REJECTED_MISSING_EVIDENCE

fun update_metric_status_value :: "update_metric_status \<Rightarrow> string" where
  "update_metric_status_value ACCEPTED = ''ACCEPTED''"
| "update_metric_status_value DUPLICATE_IGNORED = ''DUPLICATE_IGNORED''"
| "update_metric_status_value REJECTED_MISSING_EVIDENCE = ''REJECTED_MISSING_EVIDENCE''"

datatype policy_verdict = APPROVE | REJECT | MANUAL_REVIEW | INSUFFICIENT_DATA

fun policy_verdict_value :: "policy_verdict \<Rightarrow> string" where
  "policy_verdict_value APPROVE = ''APPROVE''"
| "policy_verdict_value REJECT = ''REJECT''"
| "policy_verdict_value MANUAL_REVIEW = ''MANUAL_REVIEW''"
| "policy_verdict_value INSUFFICIENT_DATA = ''INSUFFICIENT_DATA''"

datatype decision_stage =
    DS_PROPOSED | DS_DEBATING | DS_RECONCILING | DS_READY | DS_REJECTED | DS_INSUFFICIENT_DATA | DS_ABANDONED

datatype risk_severity_category = DATA_FRESHNESS | CONTRADICTION | CRITICAL | POLICY_BREACH

datatype proof_position = LEFT | RIGHT

section \<open>Models\<close>

record evidence_record =
  er_evidence_id :: string
  er_decision_id :: string
  er_source_type :: string
  er_content_hash :: string
  er_storage_ref :: string
  er_fetched_at :: datetime
  er_ttl_expires_at :: "datetime option"

record metric_record =
  mr_decision_id :: string
  mr_metric_name :: string
  mr_value :: pyval
  mr_proposed_by :: string
  mr_idempotency_key :: string
  mr_evidence_refs :: "string list"
  mr_status :: metric_status
  mr_created_at :: datetime
  mr_leaf_hash :: "string option"
  mr_runtime_context :: pyval
  mr_superseded_by :: pyval

record risk_signal_entry =
  rs_decision_id :: string
  rs_metric_name :: string
  rs_category :: string
  rs_severity :: pyfloat
  rs_status :: string
  rs_resolved_by :: "string option"
  rs_resolved_at :: "datetime option"
  rs_contradiction_flags :: "string list"

record scoreboard_metric_view =
  sv_value :: pyval
  sv_evidence_refs :: "string list"
  sv_committed_at :: datetime
  sv_status :: metric_status

record scoreboard_state =
  sb_decision_id :: string
  sb_trust_score :: "pyfloat option"
  sb_policy_verdict :: policy_verdict
  sb_metrics :: "(string \<times> scoreboard_metric_view) list"
  sb_merkle_root_ref :: "string option"
  sb_merkle_timestamp :: "datetime option"
  sb_rebuilt_at :: datetime
  sb_rebuild_seq :: nat

record proof_node =
  pd_hash :: string
  pd_position :: proof_position

record merkle_proof_response =
  mp_leaf_hash :: string
  mp_proof_path :: "proof_node list"
  mp_root :: string
  mp_anchor_signature :: string
  mp_anchor_timestamp :: datetime

record policy_verdict_result =
  pv_trust_score :: "pyfloat option"
  pv_status :: policy_verdict
  pv_missing_metrics :: "string list"
  pv_evidence_refs :: "string list"
  pv_computed_at :: datetime

section \<open>Pydantic as a parameter\<close>

record pydantic =
  v_str :: "pyval \<Rightarrow> string option"
  v_float :: "pyval \<Rightarrow> pyfloat option"
  v_int :: "pyval \<Rightarrow> int option"
  v_str_list :: "pyval \<Rightarrow> string list option"
  v_datetime :: "pyval \<Rightarrow> datetime option"
  dump_scoreboard :: "scoreboard_state \<Rightarrow> pydict"

definition pydantic_ok :: "pydantic \<Rightarrow> bool" where
  "pydantic_ok P \<longleftrightarrow>
     (\<forall>v s. v_str P v = Some s \<longleftrightarrow> v = PStr s) \<and>
     (\<forall>x. v_float P (PFloat x) = Some x) \<and>
     (\<forall>i. v_int P (PInt i) = Some i) \<and>
     (\<forall>v ss. v_str_list P v = Some ss \<longleftrightarrow> v = PList (map PStr ss)) \<and>
     (\<forall>t. valid_datetime t \<and> dt_offset t = Some 0 \<longrightarrow>
          v_datetime P (PStr (isoformat_ms t)) = Some (t\<lparr>dt_micro := dt_micro t div 1000 * 1000\<rparr>))"

text \<open>An instance that accepts exactly the declared types, for concrete runs.\<close>

fun strict_strs :: "pyval list \<Rightarrow> string list option" where
  "strict_strs [] = Some []"
| "strict_strs (PStr s # vs) = map_option (Cons s) (strict_strs vs)"
| "strict_strs (_ # vs) = None"

definition strict_pydantic :: pydantic where
  "strict_pydantic = \<lparr>
     v_str = (\<lambda>v. case v of PStr s \<Rightarrow> Some s | _ \<Rightarrow> None),
     v_float = (\<lambda>v. case v of PFloat x \<Rightarrow> Some x | _ \<Rightarrow> None),
     v_int = (\<lambda>v. case v of PInt i \<Rightarrow> Some i | _ \<Rightarrow> None),
     v_str_list = (\<lambda>v. case v of PList vs \<Rightarrow> strict_strs vs | _ \<Rightarrow> None),
     v_datetime = (\<lambda>v. case v of PStr s \<Rightarrow> (case fromisoformat s of Inr t \<Rightarrow> Some t | Inl _ \<Rightarrow> None) | _ \<Rightarrow> None),
     dump_scoreboard = (\<lambda>s. [(''decision_id'', PStr (sb_decision_id s))])\<rparr>"

section \<open>Validating constructors\<close>

text \<open>\<^verbatim>\<open>pattern=r"^[a-f0-9]{64}$"\<close>.\<close>

definition leaf_hash_pattern :: "string \<Rightarrow> bool" where
  "leaf_hash_pattern s = (length s = 64 \<and> list_all is_lower_hex s)"

definition v_leaf_hash :: "pydantic \<Rightarrow> pyval \<Rightarrow> string option option" where
  "v_leaf_hash P v = (if v = PNone then Some None
     else case v_str P v of None \<Rightarrow> None
          | Some s \<Rightarrow> if leaf_hash_pattern s then Some (Some s) else None)"

definition mk_metric_record ::
    "pydantic \<Rightarrow> string \<Rightarrow> pyval \<Rightarrow> pyval \<Rightarrow> pyval \<Rightarrow> pyval \<Rightarrow> pyval \<Rightarrow> metric_status \<Rightarrow> datetime \<Rightarrow> pyval
     \<Rightarrow> metric_record res" where
  "mk_metric_record P decision_id metric_name val proposed_by idempotency_key evidence_refs status created_at leaf_hash =
     (case (v_str P metric_name, v_str P proposed_by, v_str P idempotency_key,
            v_str_list P evidence_refs, v_leaf_hash P leaf_hash) of
        (Some n, Some b, Some k, Some refs, Some h) \<Rightarrow>
          Inr \<lparr>mr_decision_id = decision_id, mr_metric_name = n, mr_value = val, mr_proposed_by = b,
               mr_idempotency_key = k, mr_evidence_refs = sorted_set refs, mr_status = status,
               mr_created_at = created_at, mr_leaf_hash = h, mr_runtime_context = PDict [],
               mr_superseded_by = PNone\<rparr>
      | _ \<Rightarrow> Inl (ValidationError ''MetricRecord''))"

definition mk_risk_signal_entry ::
    "pydantic \<Rightarrow> string \<Rightarrow> pyval \<Rightarrow> pyval \<Rightarrow> pyval \<Rightarrow> string \<Rightarrow> pyval \<Rightarrow> risk_signal_entry res" where
  "mk_risk_signal_entry P decision_id metric_name category severity status flags =
     (case (v_str P metric_name, v_str P category, v_float P severity, v_str_list P flags) of
        (Some n, Some c, Some x, Some fs) \<Rightarrow>
          (if fle (Fin 0) x \<and> fle x (Fin 1)
           then Inr \<lparr>rs_decision_id = decision_id, rs_metric_name = n, rs_category = c, rs_severity = x,
                     rs_status = status, rs_resolved_by = None, rs_resolved_at = None,
                     rs_contradiction_flags = fs\<rparr>
           else Inl (ValidationError ''RiskSignalEntry''))
      | _ \<Rightarrow> Inl (ValidationError ''RiskSignalEntry''))"

definition mk_evidence_record ::
    "pydantic \<Rightarrow> pyval \<Rightarrow> string \<Rightarrow> pyval \<Rightarrow> pyval \<Rightarrow> pyval \<Rightarrow> datetime \<Rightarrow> evidence_record res" where
  "mk_evidence_record P evidence_id decision_id source_type content_hash storage_ref fetched_at =
     (case (v_str P evidence_id, v_str P source_type, v_str P content_hash, v_str P storage_ref) of
        (Some e, Some t, Some h, Some r) \<Rightarrow>
          Inr \<lparr>er_evidence_id = e, er_decision_id = decision_id, er_source_type = t, er_content_hash = h,
               er_storage_ref = r, er_fetched_at = fetched_at, er_ttl_expires_at = None\<rparr>
      | _ \<Rightarrow> Inl (ValidationError ''EvidenceRecord''))"

section \<open>Lemmas\<close>

lemma pydantic_okD:
  assumes "pydantic_ok P"
  shows "v_str P v = Some s \<longleftrightarrow> v = PStr s" "v_str P (PStr s) = Some s"
    "v_float P (PFloat x) = Some x" "v_str_list P (PList (map PStr ss)) = Some ss"
    "v_str_list P (PList []) = Some []" "v_str_list P v = Some ss \<longleftrightarrow> v = PList (map PStr ss)"
proof -
  show "v_str P v = Some s \<longleftrightarrow> v = PStr s" "v_str P (PStr s) = Some s"
    "v_float P (PFloat x) = Some x" "v_str_list P (PList (map PStr ss)) = Some ss"
    "v_str_list P v = Some ss \<longleftrightarrow> v = PList (map PStr ss)"
    using assms by (simp_all add: pydantic_ok_def)
  show "v_str_list P (PList []) = Some []"
    using assms by (simp add: pydantic_ok_def)
qed

lemma strict_strs_map [simp]: "strict_strs (map PStr ss) = Some ss"
  by (induction ss) auto

lemma strict_strs_Some [simp]: "strict_strs vs = Some ss \<longleftrightarrow> vs = map PStr ss"
  by (induction vs arbitrary: ss rule: strict_strs.induct) auto

lemma strict_pydantic_ok [simp]: "pydantic_ok strict_pydantic"
  by (auto simp: pydantic_ok_def strict_pydantic_def fromisoformat_isoformat_ms split: pyval.splits)

lemma leaf_hash_pattern_to_hex: "length bs = 32 \<Longrightarrow> leaf_hash_pattern (to_hex bs)"
  by (simp add: leaf_hash_pattern_def to_hex_lower)

lemma mk_metric_record_refs:
  "mk_metric_record P d n v b k r st t h = Inr m \<Longrightarrow>
     sorted (mr_evidence_refs m) \<and> distinct (mr_evidence_refs m) \<and> mr_status m = st \<and> mr_value m = v \<and>
     mr_decision_id m = d \<and> mr_created_at m = t"
  by (auto simp: mk_metric_record_def split: option.splits)

lemma mk_metric_record_strs:
  assumes "mk_metric_record P d n v b k r st t h = Inr m" "pydantic_ok P"
  shows "n = PStr (mr_metric_name m)" "b = PStr (mr_proposed_by m)" "k = PStr (mr_idempotency_key m)"
    "v_leaf_hash P h = Some (mr_leaf_hash m)" "mr_status m = st" "mr_value m = v"
    "mr_created_at m = t" "mr_decision_id m = d"
  using assms by (simp_all add: mk_metric_record_def split: option.splits)
    (auto simp: pydantic_okD)

lemma mk_metric_record_ok:
  assumes "pydantic_ok P" "length h = 32"
  shows "mk_metric_record P d (PStr n) v (PStr b) (PStr k) (PList (map PStr refs)) st t (PStr (to_hex h)) =
    Inr \<lparr>mr_decision_id = d, mr_metric_name = n, mr_value = v, mr_proposed_by = b, mr_idempotency_key = k,
         mr_evidence_refs = sorted_set refs, mr_status = st, mr_created_at = t, mr_leaf_hash = Some (to_hex h),
         mr_runtime_context = PDict [], mr_superseded_by = PNone\<rparr>"
  using assms by (simp add: mk_metric_record_def pydantic_okD v_leaf_hash_def leaf_hash_pattern_to_hex)

lemma mk_risk_signal_entry_bounds:
  "mk_risk_signal_entry P d n c x st fs = Inr r \<Longrightarrow>
     fle (Fin 0) (rs_severity r) \<and> fle (rs_severity r) (Fin 1) \<and> rs_status r = st"
  by (auto simp: mk_risk_signal_entry_def split: option.splits if_splits)

end
