(* ===== verification/Registries.thy ===== *)
theory Registries
  imports Domain
begin

text \<open>
  The three registries that rebuild state from a decision's event stream, and the completion
  criteria: \<^verbatim>\<open>application/metrics_registry.py\<close>, \<^verbatim>\<open>risk_matrix.py\<close>, \<^verbatim>\<open>evidence_registry.py\<close> and
  \<^verbatim>\<open>completion_criteria.py\<close>. Events are dictionaries read from the trail; every missing key,
  wrong type and failed validation is an error value.
\<close>

section \<open>Shared reading of events\<close>

definition has_type :: "string \<Rightarrow> pydict \<Rightarrow> bool" where
  "has_type ty evt = (map_of evt ''event_type'' = Some (PStr ty))"

text \<open>\<^verbatim>\<open>_parse\<close>: an ISO string becomes a datetime.\<close>

definition parse_dt :: "pyval \<Rightarrow> datetime res" where
  "parse_dt v = (case v of PStr s \<Rightarrow> fromisoformat s | _ \<Rightarrow> Inl (TypeError ''fromisoformat: argument must be str''))"

text \<open>\<^verbatim>\<open>key in d\<close> and \<^verbatim>\<open>d[key] = ...\<close> for a dictionary whose keys are strings.\<close>

definition key_in :: "pyval \<Rightarrow> (string \<times> 'v) list \<Rightarrow> bool res" where
  "key_in v d = (case v of PStr s \<Rightarrow> Inr (map_of d s \<noteq> None)
     | PList _ \<Rightarrow> Inl (TypeError ''unhashable type'') | PDict _ \<Rightarrow> Inl (TypeError ''unhashable type'')
     | _ \<Rightarrow> Inr False)"

definition as_key :: "pyval \<Rightarrow> string res" where
  "as_key v = (case v of PStr s \<Rightarrow> Inr s
     | PList _ \<Rightarrow> Inl (TypeError ''unhashable type'') | PDict _ \<Rightarrow> Inl (TypeError ''unhashable type'')
     | _ \<Rightarrow> Inl (IllTyped ''dictionary key''))"

section \<open>Metrics registry\<close>

type_synonym metrics = "(string \<times> metric_record) list"

definition committed_record :: "pydantic \<Rightarrow> string \<Rightarrow> pydict \<Rightarrow> metric_record res" where
  "committed_record P decision_id evt =
     rbind (getitem evt ''metric_name'') (\<lambda>n.
     rbind (getitem evt ''value'') (\<lambda>v.
     rbind (getitem evt ''idempotency_key'') (\<lambda>k.
     rbind (getitem evt ''evidence_refs'') (\<lambda>refs.
     rbind (rbind (getitem evt ''committed_at'') parse_dt) (\<lambda>t.
     rbind (getitem evt ''leaf_hash'') (\<lambda>h.
       mk_metric_record P decision_id n v (dict_get evt ''proposed_by'' (PStr ''unknown'')) k refs MS_COMMITTED t h))))))"

definition rejected_record :: "pydantic \<Rightarrow> string \<Rightarrow> pydict \<Rightarrow> metric_record res" where
  "rejected_record P decision_id evt =
     rbind (getitem evt ''metric_name'') (\<lambda>n.
     rbind (getitem evt ''idempotency_key'') (\<lambda>k.
     rbind (rbind (getitem evt ''occurred_at'') parse_dt) (\<lambda>t.
       mk_metric_record P decision_id n PNone (PStr ''unknown'') k (PList []) MS_REJECTED t PNone)))"

fun metrics_loop :: "pydantic \<Rightarrow> string \<Rightarrow> pydict list \<Rightarrow> metrics \<Rightarrow> metrics res" where
  "metrics_loop P decision_id [] ms = Inr ms"
| "metrics_loop P decision_id (evt # evts) ms =
     (if has_type ''MetricCommitted'' evt then
        rbind (committed_record P decision_id evt) (\<lambda>m.
        rbind (rbind (getitem evt ''metric_name'') as_key) (\<lambda>n.
          metrics_loop P decision_id evts (AList.update n m ms)))
      else if has_type ''MetricRejected'' evt then
        rbind (rbind (getitem evt ''metric_name'') (\<lambda>n. key_in n ms)) (\<lambda>known.
          if known then metrics_loop P decision_id evts ms
          else rbind (rejected_record P decision_id evt) (\<lambda>m.
               rbind (rbind (getitem evt ''metric_name'') as_key) (\<lambda>n.
                 metrics_loop P decision_id evts (AList.update n m ms))))
      else if has_type ''MetricSuperseded'' evt then
        rbind (getitem evt ''metric_name'') (\<lambda>target.
        rbind (key_in target ms) (\<lambda>known.
          if \<not> known then metrics_loop P decision_id evts ms
          else rbind (as_key target) (\<lambda>n.
               rbind (getitem evt ''superseded_by_idempotency_key'') (\<lambda>k.
                 Inr (AList.update n ((the (map_of ms n))\<lparr>mr_status := MS_SUPERSEDED, mr_superseded_by := k\<rparr>) ms)))))
      else metrics_loop P decision_id evts ms)"

definition metrics_reconstruct :: "pydantic \<Rightarrow> string \<Rightarrow> pydict list \<Rightarrow> metrics res" where
  "metrics_reconstruct P decision_id events = metrics_loop P decision_id events []"

section \<open>Risk matrix\<close>

definition risk_entry :: "pydantic \<Rightarrow> string \<Rightarrow> pydict \<Rightarrow> risk_signal_entry res" where
  "risk_entry P decision_id evt =
     rbind (getitem evt ''metric_name'') (\<lambda>n.
       mk_risk_signal_entry P decision_id n (dict_get evt ''risk_level'' (PStr ''UNKNOWN''))
         (dict_get evt ''severity'' (PFloat (Fin 0))) ''ACTIVE'' (dict_get evt ''contradiction_flags'' (PList [])))"

definition risk_reconstruct :: "pydantic \<Rightarrow> string \<Rightarrow> pydict list \<Rightarrow> risk_signal_entry list res" where
  "risk_reconstruct P decision_id events = rmap (risk_entry P decision_id) (filter (has_type ''RiskSignal'') events)"

definition active_only :: "risk_signal_entry list \<Rightarrow> risk_signal_entry list" where
  "active_only signals = filter (\<lambda>s. rs_status s = ''ACTIVE'') signals"

definition has_critical :: "risk_signal_entry list \<Rightarrow> bool" where
  "has_critical signals = list_ex (\<lambda>s. rs_category s = ''CRITICAL'' \<and> rs_status s = ''ACTIVE'') signals"

section \<open>Evidence registry\<close>

text \<open>
  The loop body only skips; the registration after it sees the variable \<^verbatim>\<open>evt\<close> the loop left
  behind, that is the last event, and no variable at all when there is no event.
\<close>

definition evidence_reconstruct :: "pydantic \<Rightarrow> string \<Rightarrow> pydict list \<Rightarrow> (string \<times> evidence_record) list res" where
  "evidence_reconstruct P decision_id events =
     (if events = [] then Inl (UnboundLocalError ''evt'')
      else let evt = last events in
        rbind (getitem evt ''evidence_id'') (\<lambda>i.
        rbind (getitem evt ''source_type'') (\<lambda>ty.
        rbind (getitem evt ''content_hash'') (\<lambda>h.
        rbind (getitem evt ''storage_ref'') (\<lambda>r.
        rbind (rbind (getitem evt ''fetched_at'') parse_dt) (\<lambda>t.
        rbind (mk_evidence_record P i decision_id ty h r t) (\<lambda>er.
        rbind (as_key i) (\<lambda>n. Inr [(n, er)]))))))))"

definition all_present :: "string list \<Rightarrow> (string \<times> evidence_record) list \<Rightarrow> bool" where
  "all_present evidence_refs known = list_all (\<lambda>ref. map_of known ref \<noteq> None) evidence_refs"

section \<open>Completion criteria\<close>

definition terminal :: "metric_status \<Rightarrow> bool" where
  "terminal st = (st = MS_COMMITTED \<or> st = MS_REJECTED \<or> st = MS_SUPERSEDED)"

fun is_ready_to_publish :: "string list \<Rightarrow> (string \<times> metric_status) list \<Rightarrow> bool" where
  "is_ready_to_publish [] statuses = True"
| "is_ready_to_publish (n # ns) statuses =
     (case map_of statuses n of None \<Rightarrow> False
      | Some st \<Rightarrow> if \<not> terminal st then False else is_ready_to_publish ns statuses)"

section \<open>Lemmas\<close>

lemma has_type_unique: "has_type a evt \<Longrightarrow> has_type b evt \<longleftrightarrow> b = a"
  by (auto simp: has_type_def)

lemma has_type_cases:
  assumes "has_type a evt"
  shows "has_type ''MetricCommitted'' evt = (a = ''MetricCommitted'')"
    "has_type ''MetricRejected'' evt = (a = ''MetricRejected'')"
    "has_type ''MetricSuperseded'' evt = (a = ''MetricSuperseded'')"
  using has_type_unique [OF assms] by auto

text \<open>Without a supersession the loop is an ordinary left fold, so it splits at any point.\<close>

lemma metrics_loop_append:
  assumes "\<forall>e \<in> set es. \<not> has_type ''MetricSuperseded'' e"
  shows "metrics_loop P d (es @ fs) ms = rbind (metrics_loop P d es ms) (metrics_loop P d fs)"
  using assms
proof (induction es arbitrary: ms)
  case (Cons e es)
  then show ?case by (auto simp: rbind_def split: sum.splits)
qed simp

text \<open>Events that are neither a commit, a rejection nor a supersession do not matter.\<close>

definition metric_event :: "pydict \<Rightarrow> bool" where
  "metric_event e = (has_type ''MetricCommitted'' e \<or> has_type ''MetricRejected'' e \<or> has_type ''MetricSuperseded'' e)"

lemma metrics_loop_filter: "metrics_loop P d es ms = metrics_loop P d (filter metric_event es) ms"
proof (induction es arbitrary: ms)
  case (Cons e es)
  show ?case by (simp add: metric_event_def [of e] Cons.IH [symmetric] cong: if_cong)
qed simp

lemma as_key_Inr [simp]: "as_key v = Inr s \<longleftrightarrow> v = PStr s"
  by (cases v) (auto simp: as_key_def)

lemma key_in_PStr [simp]: "key_in (PStr s) d = Inr (map_of d s \<noteq> None)"
  by (simp add: key_in_def)

lemma committed_record_key:
  assumes "committed_record P d e = Inr m" "pydantic_ok P"
  shows "map_of e ''metric_name'' = Some (PStr (mr_metric_name m))" "mr_status m = MS_COMMITTED"
    "map_of e ''value'' = Some (mr_value m)"
  using assms by (auto simp: committed_record_def rbind_eq_Inr dest: mk_metric_record_strs)

lemma rejected_record_key:
  assumes "rejected_record P d e = Inr m" "pydantic_ok P"
  shows "map_of e ''metric_name'' = Some (PStr (mr_metric_name m))" "mr_status m = MS_REJECTED"
  using assms by (auto simp: rejected_record_def rbind_eq_Inr dest: mk_metric_record_strs)

text \<open>What one event can do to the entry of metric \<open>n\<close> when it is not a commit of \<open>n\<close>: nothing, if there is one.\<close>

lemma metrics_loop_keeps:
  assumes "metrics_loop P d es ms = Inr ms'" "map_of ms n = Some m"
    and "\<forall>e \<in> set es. \<not> has_type ''MetricSuperseded'' e"
    and "\<forall>e \<in> set es. has_type ''MetricCommitted'' e \<longrightarrow> map_of e ''metric_name'' \<noteq> Some (PStr n)"
  shows "map_of ms' n = Some m"
  using assms
proof (induction es arbitrary: ms)
  case (Cons e es)
  consider (c) "has_type ''MetricCommitted'' e" | (r) "has_type ''MetricRejected'' e" "\<not> has_type ''MetricCommitted'' e"
    | (o) "\<not> has_type ''MetricCommitted'' e" "\<not> has_type ''MetricRejected'' e" by blast
  then show ?case
  proof cases
    case c
    with Cons.prems(1,4) obtain m' n' where "metrics_loop P d es (AList.update n' m' ms) = Inr ms'" "n' \<noteq> n"
      by (auto simp: rbind_eq_Inr)
    with Cons.IH [of "AList.update n' m' ms"] Cons.prems show ?thesis by (simp add: map_of_AList_update)
  next
    case r
    show ?thesis
    proof (cases "metrics_loop P d es ms = Inr ms'")
      case True
      with Cons show ?thesis by simp
    next
      case False
      with r Cons.prems obtain m' n' where "metrics_loop P d es (AList.update n' m' ms) = Inr ms'" "map_of ms n' = None"
        by (auto simp: rbind_eq_Inr split: if_splits)
      moreover from this Cons.prems(2) have "map_of (AList.update n' m' ms) n = Some m"
        by (auto simp: map_of_AList_update)
      ultimately show ?thesis using Cons.IH Cons.prems(3,4) by simp
    qed
  next
    case o
    with Cons show ?thesis by simp
  qed
qed simp

lemma evidence_reconstruct_last:
  "evidence_reconstruct P d (es @ [e]) = evidence_reconstruct P d [e]"
  by (simp add: evidence_reconstruct_def)

lemma risk_reconstruct_active:
  assumes "risk_reconstruct P d es = Inr rs"
  shows "\<forall>r \<in> set rs. rs_status r = ''ACTIVE'' \<and> fle (Fin 0) (rs_severity r) \<and> fle (rs_severity r) (Fin 1)"
proof -
  have "rmap (risk_entry P d) xs = Inr rs \<Longrightarrow>
     \<forall>r \<in> set rs. rs_status r = ''ACTIVE'' \<and> fle (Fin 0) (rs_severity r) \<and> fle (rs_severity r) (Fin 1)" for xs
    by (induction xs arbitrary: rs)
       (auto simp: rbind_eq_Inr risk_entry_def dest: mk_risk_signal_entry_bounds)
  with assms show ?thesis by (simp add: risk_reconstruct_def)
qed


text \<open>The step of a commit, and the two effects of a supersession.\<close>

lemma metrics_loop_commit:
  assumes "has_type ''MetricCommitted'' c" "committed_record P d c = Inr m" "pydantic_ok P"
  shows "metrics_loop P d (c # es) ms = metrics_loop P d es (AList.update (mr_metric_name m) m ms)"
  using assms committed_record_key [OF assms(2,3)] by (simp add: getitem_Some as_key_def)

lemma metrics_loop_supersede:
  assumes "has_type ''MetricSuperseded'' s" "map_of s ''metric_name'' = Some (PStr n)"
    and "map_of s ''superseded_by_idempotency_key'' = Some k" "map_of ms n = Some m"
  shows "metrics_loop P d (s # es) ms =
    Inr (AList.update n (m\<lparr>mr_status := MS_SUPERSEDED, mr_superseded_by := k\<rparr>) ms)"
  using assms has_type_cases [OF assms(1)] by (simp add: getitem_Some as_key_def)

lemma is_ready_iff:
  "is_ready_to_publish req st \<longleftrightarrow> (\<forall>n \<in> set req. \<exists>s. map_of st n = Some s \<and> terminal s)"
  by (induction req) (auto split: option.splits)

section \<open>Properties\<close>

text \<open>Last write wins. In a stream without supersessions, the reconstructed entry of a metric is exactly
  the validated record of its last commit, whatever was committed before it and whatever rejections and other
  events surround it; in particular a rejection never hides a committed value.\<close>

theorem last_commit_wins:
  assumes "metrics_reconstruct P d (es @ c # fs) = Inr ms" "pydantic_ok P"
    and "\<forall>e \<in> set (es @ c # fs). \<not> has_type ''MetricSuperseded'' e"
    and "has_type ''MetricCommitted'' c" "map_of c ''metric_name'' = Some (PStr n)"
    and "\<forall>e \<in> set fs. has_type ''MetricCommitted'' e \<longrightarrow> map_of e ''metric_name'' \<noteq> Some (PStr n)"
  shows "\<exists>m. committed_record P d c = Inr m \<and> map_of ms n = Some m \<and> mr_status m = MS_COMMITTED"
proof -
  obtain ms1 where ms1: "metrics_loop P d es [] = Inr ms1" "metrics_loop P d (c # fs) ms1 = Inr ms"
    using assms(1,3) by (auto simp: metrics_reconstruct_def metrics_loop_append rbind_eq_Inr)
  obtain m where m: "committed_record P d c = Inr m"
    using ms1(2) assms(4) by (auto simp: rbind_eq_Inr)
  note key = committed_record_key [OF m assms(2)]
  have n: "mr_metric_name m = n" using key(1) assms(5) by simp
  have "metrics_loop P d fs (AList.update n m ms1) = Inr ms"
    using ms1(2) metrics_loop_commit [OF assms(4) m assms(2)] n by simp
  from metrics_loop_keeps [OF this, of n m] assms(3,6) have "map_of ms n = Some m"
    by (simp add: map_of_AList_update)
  with m key(2) show ?thesis by simp
qed

theorem last_commit_wins_witness:
  "\<exists>m. committed_record strict_pydantic ''d'' [(''event_type'', PStr ''MetricCommitted''), (''metric_name'', PStr ''m''),
       (''value'', PInt 7), (''idempotency_key'', PStr ''k''), (''evidence_refs'', PList []),
       (''committed_at'', PStr (isoformat_ms epoch)), (''leaf_hash'', PNone)] = Inr m \<and>
     map_of [(''m'', m)] ''m'' = Some m \<and> mr_status m = MS_COMMITTED"
proof -
  obtain m where m: "committed_record strict_pydantic ''d'' [(''event_type'', PStr ''MetricCommitted''), (''metric_name'', PStr ''m''),
       (''value'', PInt 7), (''idempotency_key'', PStr ''k''), (''evidence_refs'', PList []),
       (''committed_at'', PStr (isoformat_ms epoch)), (''leaf_hash'', PNone)] = Inr m"
    by (simp add: committed_record_def getitem_def dict_get_def parse_dt_def mk_metric_record_def v_leaf_hash_def strict_pydantic_def)
  have "metrics_reconstruct strict_pydantic ''d'' ([[(''event_type'', PStr ''X'')]] @
      [(''event_type'', PStr ''MetricCommitted''), (''metric_name'', PStr ''m''),
       (''value'', PInt 7), (''idempotency_key'', PStr ''k''), (''evidence_refs'', PList []),
       (''committed_at'', PStr (isoformat_ms epoch)), (''leaf_hash'', PNone)] # []) = Inr [(''m'', m)]"
    by (simp add: metrics_reconstruct_def has_type_def m getitem_def as_key_def)
  from last_commit_wins [OF this, of "''m''"] show ?thesis by (simp add: has_type_def)
qed

text \<open>C35: a supersession keeps the history (invariant I7), and ends the reconstruction. It changes the status and
  the successor key of one entry and nothing else of it (value, leaf hash, evidence, creation time stay), and leaves
  every other entry alone. But the loop returns right there: the events that follow, whatever they are, a new commit
  of the same or another metric included, do not influence the result.\<close>

theorem supersede_keeps_and_stops:
  assumes "metrics_reconstruct P d es = Inr ms" "\<forall>e \<in> set es. \<not> has_type ''MetricSuperseded'' e"
    and "has_type ''MetricSuperseded'' s" "map_of s ''metric_name'' = Some (PStr n)"
    and "map_of s ''superseded_by_idempotency_key'' = Some k" "map_of ms n = Some m"
  shows "metrics_reconstruct P d (es @ s # fs) =
    Inr (AList.update n (m\<lparr>mr_status := MS_SUPERSEDED, mr_superseded_by := k\<rparr>) ms)"
  using assms(1,2) metrics_loop_supersede [OF assms(3-6)]
  by (simp add: metrics_reconstruct_def metrics_loop_append)

theorem supersede_keeps_and_stops_witness:
  "\<exists>m. metrics_reconstruct strict_pydantic ''d''
     [[(''event_type'', PStr ''MetricRejected''), (''metric_name'', PStr ''m''), (''idempotency_key'', PStr ''k''),
       (''occurred_at'', PStr (isoformat_ms epoch))],
      [(''event_type'', PStr ''MetricSuperseded''), (''metric_name'', PStr ''m''),
       (''superseded_by_idempotency_key'', PStr ''k2'')],
      [(''event_type'', PStr ''MetricCommitted'')]] =
   Inr [(''m'', m\<lparr>mr_status := MS_SUPERSEDED, mr_superseded_by := PStr ''k2''\<rparr>)]"
proof -
  obtain m where m: "rejected_record strict_pydantic ''d'' [(''event_type'', PStr ''MetricRejected''),
      (''metric_name'', PStr ''m''), (''idempotency_key'', PStr ''k''), (''occurred_at'', PStr (isoformat_ms epoch))] = Inr m"
    by (simp add: rejected_record_def getitem_def parse_dt_def mk_metric_record_def v_leaf_hash_def strict_pydantic_def)
  have "metrics_reconstruct strict_pydantic ''d'' [[(''event_type'', PStr ''MetricRejected''),
      (''metric_name'', PStr ''m''), (''idempotency_key'', PStr ''k''), (''occurred_at'', PStr (isoformat_ms epoch))]] = Inr [(''m'', m)]"
    by (simp add: metrics_reconstruct_def has_type_def m getitem_def as_key_def)
  from supersede_keeps_and_stops [OF this, of
      "[(''event_type'', PStr ''MetricSuperseded''), (''metric_name'', PStr ''m''), (''superseded_by_idempotency_key'', PStr ''k2'')]"
      "''m''" "PStr ''k2''" m "[[(''event_type'', PStr ''MetricCommitted'')]]"]
  show ?thesis by (intro exI [of _ m]) (simp add: has_type_def)
qed

text \<open>The evidence registry sees one event. It raises on an empty stream, and on any other it returns what it
  would return for the last event alone, so at most one record, and a \<^verbatim>\<open>KeyError\<close> when the stream ends with an
  event that carries no evidence identifier.\<close>

theorem evidence_registry_sees_last_only:
  "evidence_reconstruct P d [] = Inl (UnboundLocalError ''evt'') \<and>
   evidence_reconstruct P d (es @ [e]) = evidence_reconstruct P d [e] \<and>
   evidence_reconstruct P d (es @ [[(''event_type'', PStr ''MetricCommitted'')]]) = Inl (KeyError ''evidence_id'')"
  by (simp add: evidence_reconstruct_def getitem_def)

text \<open>Completion. A decision is ready to publish exactly when every required metric has a known status and that
  status is terminal; publishing stays possible when further metrics reach a terminal status.\<close>

theorem ready_iff_all_terminal:
  "(is_ready_to_publish req st \<longleftrightarrow> (\<forall>n \<in> set req. \<exists>s. map_of st n = Some s \<and> terminal s)) \<and>
   (is_ready_to_publish req st \<and> terminal s' \<longrightarrow> is_ready_to_publish req (AList.update n' s' st))"
  by (auto simp: is_ready_iff map_of_AList_update)

theorem ready_iff_all_terminal_witness:
  "is_ready_to_publish [''a''] [(''a'', MS_REJECTED)] \<and>
   is_ready_to_publish [''a''] (AList.update ''a'' MS_SUPERSEDED [(''a'', MS_REJECTED)])"
  using ready_iff_all_terminal [of "[''a'']" "[(''a'', MS_REJECTED)]" MS_SUPERSEDED "''a''"]
  by (simp add: terminal_def)

end
