(* ===== verification/PolicyEvaluator.thy ===== *)
theory PolicyEvaluator
  imports Registries
begin

text \<open>
  \<^verbatim>\<open>application/policy_evaluator.py\<close>: the trust score and the verdict, in binary64 arithmetic with the
  built-in \<^verbatim>\<open>min\<close>/\<^verbatim>\<open>max\<close>/\<^verbatim>\<open>sum\<close> exactly as the code composes them. Thresholds and risk weights are the
  literals of the source. The clock reading is an argument.
\<close>

section \<open>Definitions\<close>

record policy_thresholds =
  approve_at :: pyfloat
  reject_below :: pyfloat

definition default_thresholds :: policy_thresholds where
  "default_thresholds = \<lparr>approve_at = fl (7 / 10), reject_below = fl (5 / 10)\<rparr>"

definition RISK_WEIGHTS :: "(string \<times> pyfloat) list" where
  "RISK_WEIGHTS = [(''DATA_FRESHNESS'', fl (5 / 100)), (''CONTRADICTION'', fl (15 / 100)),
     (''POLICY_BREACH'', fl (30 / 100)), (''CRITICAL'', fl (50 / 100))]"

text \<open>\<^verbatim>\<open>isinstance(value, (int, float))\<close> holds for booleans too; an integer is converted when it meets a float.\<close>

definition numeric_val :: "pyval \<Rightarrow> pyfloat res" where
  "numeric_val v = (case v of
     PBool b \<Rightarrow> Inr (Fin (if b then 1 else 0))
   | PInt n \<Rightarrow> float_of_int n
   | PFloat x \<Rightarrow> Inr x
   | _ \<Rightarrow> Inr (Fin 1))"

definition committed_required :: "string list \<Rightarrow> metrics \<Rightarrow> metrics" where
  "committed_required required_metrics ms =
     filter (\<lambda>(name, m). mr_status m = MS_COMMITTED \<and> name \<in> set required_metrics) ms"

definition policy_weights :: "(string \<times> pyfloat) list option \<Rightarrow> string list \<Rightarrow> (string \<times> pyfloat) list" where
  "policy_weights weights required_metrics =
     (case weights of
        Some (x # xs) \<Rightarrow> x # xs
      | _ \<Rightarrow> dict_update [] (map (\<lambda>name. (name, Fin 1)) required_metrics))"

text \<open>\<^verbatim>\<open>sum(...) or 1.0\<close>: a zero sum of either sign is falsy.\<close>

definition total_weight :: "(string \<times> pyfloat) list \<Rightarrow> metrics \<Rightarrow> pyfloat" where
  "total_weight w committed =
     (let s = fsum (map (\<lambda>(name, m). dict_get w name (Fin 1)) committed) in if is_zero s then Fin 1 else s)"

text \<open>The loop over \<^verbatim>\<open>committed.items()\<close>; the state is the list of terms so far and the score so far.\<close>

fun score_loop :: "(string \<times> pyfloat) list \<Rightarrow> metrics \<Rightarrow> metrics \<Rightarrow> pyfloat list \<Rightarrow> pyfloat \<Rightarrow> pyfloat res" where
  "score_loop w committed [] numeric_terms base_score = Inr base_score"
| "score_loop w committed ((name, m) # rest) numeric_terms base_score =
     rbind (numeric_val (mr_value m)) (\<lambda>x.
       let numeric_terms = numeric_terms @ [fmul x (dict_get w name (Fin 1))] in
       score_loop w committed rest numeric_terms
         (clamp01 (fdiv (fsum numeric_terms) (total_weight w committed))))"

definition risk_terms :: "risk_signal_entry list \<Rightarrow> pyfloat list" where
  "risk_terms risk_signals =
     map (\<lambda>r. fmul (rs_severity r) (dict_get RISK_WEIGHTS (rs_category r) (fl (1 / 10)))) (active_only risk_signals)"

definition risk_penalty :: "risk_signal_entry list \<Rightarrow> pyfloat" where
  "risk_penalty risk_signals = fsum (risk_terms risk_signals)"

definition verdict :: "policy_thresholds \<Rightarrow> pyfloat \<Rightarrow> bool \<Rightarrow> policy_verdict" where
  "verdict thresholds trust_score critical =
     (if fle (approve_at thresholds) trust_score \<and> \<not> critical then APPROVE
      else if flt trust_score (reject_below thresholds) \<or> critical then REJECT
      else MANUAL_REVIEW)"

definition missing_metrics :: "string list \<Rightarrow> metrics \<Rightarrow> string list" where
  "missing_metrics required_metrics committed =
     sorted_set (filter (\<lambda>n. n \<notin> set (map fst committed)) required_metrics)"

definition evaluate_policy ::
    "datetime \<Rightarrow> string list \<Rightarrow> metrics \<Rightarrow> risk_signal_entry list \<Rightarrow> (string \<times> pyfloat) list option
     \<Rightarrow> policy_thresholds \<Rightarrow> policy_verdict_result res" where
  "evaluate_policy now required_metrics ms risk_signals weights thresholds =
     (let committed = committed_required required_metrics ms;
          missing = missing_metrics required_metrics committed in
      if missing \<noteq> [] then
        Inr \<lparr>pv_trust_score = None, pv_status = INSUFFICIENT_DATA, pv_missing_metrics = missing,
             pv_evidence_refs = [], pv_computed_at = now\<rparr>
      else
        rbind (score_loop (policy_weights weights required_metrics) committed committed [] (Fin 0)) (\<lambda>base_score.
          let trust_score = clamp01 (fsub base_score (risk_penalty risk_signals));
              critical = list_ex (\<lambda>r. rs_category r = ''CRITICAL'') (active_only risk_signals) in
          Inr \<lparr>pv_trust_score = Some trust_score, pv_status = verdict thresholds trust_score critical,
               pv_missing_metrics = [], pv_evidence_refs = sorted_set (concat (map (mr_evidence_refs \<circ> snd) committed)),
               pv_computed_at = now\<rparr>))"

section \<open>Lemmas\<close>

lemma missing_set:
  "set (missing_metrics req (committed_required req ms)) =
     {n \<in> set req. \<not> (\<exists>m. (n, m) \<in> set ms \<and> mr_status m = MS_COMMITTED)}"
  by (force simp: missing_metrics_def committed_required_def)

lemma missing_Nil:
  "missing_metrics req (committed_required req ms) = [] \<longleftrightarrow>
     (\<forall>n \<in> set req. \<exists>m. (n, m) \<in> set ms \<and> mr_status m = MS_COMMITTED)"
proof -
  have "missing_metrics req (committed_required req ms) = [] \<longleftrightarrow> set (missing_metrics req (committed_required req ms)) = {}"
    by (simp only: set_empty)
  then show ?thesis unfolding missing_set by auto
qed

lemma score_loop_range:
  assumes "score_loop w com rest ts (Fin b) = Inr s" "0 \<le> b" "b \<le> 1"
  shows "\<exists>q. s = Fin q \<and> 0 \<le> q \<and> q \<le> 1"
  using assms
proof (induction rest arbitrary: ts b)
  case (Cons p rest)
  obtain n m where p: "p = (n, m)" by (cases p)
  from Cons.prems(1) obtain x where
    "score_loop w com rest (ts @ [fmul x (dict_get w n (Fin 1))])
       (clamp01 (fdiv (fsum (ts @ [fmul x (dict_get w n (Fin 1))])) (total_weight w com))) = Inr s"
    by (auto simp: p rbind_eq_Inr Let_def)
  with Cons.IH clamp01_range show ?case by metis
qed auto

lemma score_loop_total:
  "(\<And>n m. (n, m) \<in> set rest \<Longrightarrow> \<exists>x. numeric_val (mr_value m) = Inr x) \<Longrightarrow> \<exists>s. score_loop w com rest ts b = Inr s"
proof (induction rest arbitrary: ts b)
  case (Cons p rest)
  obtain n m where p: "p = (n, m)" by (cases p)
  from Cons.prems [of n m] p obtain x where x: "numeric_val (mr_value m) = Inr x" by auto
  have "(n', m') \<in> set rest \<Longrightarrow> \<exists>x. numeric_val (mr_value m') = Inr x" for n' m'
    using Cons.prems [of n' m'] by simp
  then show ?case using Cons.IH by (simp add: p x Let_def)
qed auto

lemma numeric_val_total: "\<forall>i. v = PInt i \<longrightarrow> \<bar>i\<bar> \<le> 2 ^ 53 \<Longrightarrow> \<exists>x. numeric_val v = Inr x"
proof -
  have "\<bar>i\<bar> \<le> 2 ^ 53 \<Longrightarrow> \<not> is_inf (fl (of_int i))" for i
    using rnd_exact [of i 0 "of_int i"] by (auto simp: fl_def Let_def is_inf_def)
  then show "\<forall>i. v = PInt i \<longrightarrow> \<bar>i\<bar> \<le> 2 ^ 53 \<Longrightarrow> \<exists>x. numeric_val v = Inr x"
    by (cases v) (auto simp: numeric_val_def float_of_int_def)
qed

lemma evaluate_policy_total:
  assumes "\<forall>(n, m) \<in> set ms. \<forall>i. mr_value m = PInt i \<longrightarrow> \<bar>i\<bar> \<le> 2 ^ 53"
  shows "\<exists>r. evaluate_policy now req ms rs w th = Inr r"
proof -
  have "\<exists>x. numeric_val (mr_value m) = Inr x" if "(n, m) \<in> set (committed_required req ms)" for n m
    using that assms by (intro numeric_val_total) (auto simp: committed_required_def)
  then obtain s where "score_loop (policy_weights w req) (committed_required req ms) (committed_required req ms) [] (Fin 0) = Inr s"
    using score_loop_total by blast
  then show ?thesis by (simp add: evaluate_policy_def Let_def)
qed

text \<open>Everything the score path returns, in one place.\<close>

lemma evaluate_policy_score:
  assumes "evaluate_policy now req ms rs w th = Inr r" "missing_metrics req (committed_required req ms) = []"
  obtains b where "score_loop (policy_weights w req) (committed_required req ms) (committed_required req ms) [] (Fin 0) = Inr (Fin b)"
    "0 \<le> b" "b \<le> 1" "pv_trust_score r = Some (clamp01 (fsub (Fin b) (risk_penalty rs)))"
    "pv_status r = verdict th (clamp01 (fsub (Fin b) (risk_penalty rs))) (list_ex (\<lambda>r. rs_category r = ''CRITICAL'') (active_only rs))"
    "pv_missing_metrics r = []"
proof -
  obtain s where s: "score_loop (policy_weights w req) (committed_required req ms) (committed_required req ms) [] (Fin 0) = Inr s"
    using assms by (auto simp: evaluate_policy_def Let_def rbind_eq_Inr)
  with score_loop_range [OF s] obtain b where "s = Fin b" "0 \<le> b" "b \<le> 1" by auto
  with s assms that show ?thesis by (auto simp: evaluate_policy_def Let_def)
qed

text \<open>The penalty of validated signals is a non-negative sum that only grows with further signals.\<close>

lemma risk_weight_range: "fle (Fin 0) (dict_get RISK_WEIGHTS c (fl (1 / 10))) \<and> fle (dict_get RISK_WEIGHTS c (fl (1 / 10))) (Fin 1)"
proof -
  have "b64 1" using rnd_exact [of 1 0 1] by (simp add: b64_def)
  then have one: "fl 1 = Fin 1" by (rule fl_b64) simp
  have r: "fle (Fin 0) (fl q) \<and> fle (fl q) (Fin 1)" if "0 \<le> q" "q \<le> 1" for q
    using fl_nonneg [OF that(1)] fl_mono [OF that(2)] one by simp
  show ?thesis by (simp add: RISK_WEIGHTS_def dict_get_def r)
qed

lemma fmul_unit_nonneg:
  assumes "fle (Fin 0) x" "fle x (Fin 1)" "fle (Fin 0) y" "fle y (Fin 1)"
  shows "fle (Fin 0) (fmul x y)"
  using assms fl_nonneg [of "fval x * fval y"]
  by (cases x; cases y) (auto simp: fmul_def fle_def is_inf_def is_zero_def)

definition severities_valid :: "risk_signal_entry list \<Rightarrow> bool" where
  "severities_valid rs = list_all (\<lambda>r. fle (Fin 0) (rs_severity r) \<and> fle (rs_severity r) (Fin 1)) rs"

lemma risk_terms_nonneg: "severities_valid rs \<Longrightarrow> list_all (fle (Fin 0)) (risk_terms rs)"
  using risk_weight_range
  by (auto simp: risk_terms_def severities_valid_def list_all_iff active_only_def intro!: fmul_unit_nonneg)

lemma risk_penalty_grows:
  assumes "severities_valid (rs @ rs')"
  shows "fle (risk_penalty rs) (risk_penalty (rs @ rs')) \<and> fle (Fin 0) (risk_penalty rs)"
proof -
  have "risk_terms (rs @ rs') = risk_terms rs @ risk_terms rs'" by (simp add: risk_terms_def active_only_def)
  with risk_terms_nonneg [OF assms] fsum_append_ge [of "risk_terms rs" "risk_terms rs'"] fsum_nonneg [of "risk_terms rs"]
  show ?thesis by (simp add: risk_penalty_def)
qed

text \<open>How good a verdict is; a lower score or a critical signal never makes it better.\<close>

fun verdict_rank :: "policy_verdict \<Rightarrow> nat" where
  "verdict_rank APPROVE = 2"
| "verdict_rank MANUAL_REVIEW = 1"
| "verdict_rank REJECT = 0"
| "verdict_rank INSUFFICIENT_DATA = 0"

lemma verdict_mono:
  assumes "fle s s'" "c' \<longrightarrow> c"
  shows "verdict_rank (verdict th s c) \<le> verdict_rank (verdict th s' c')"
  using assms fle_trans [of "approve_at th" s s'] fle_trans [of "reject_below th" s s'] fle_notNaN [OF assms(1)]
  by (auto simp: verdict_def flt_def)

section \<open>Properties\<close>

text \<open>C14: no score without data (invariant I4). The evaluation withholds the score and answers
  \<^verbatim>\<open>INSUFFICIENT_DATA\<close> exactly when some required metric is not committed, and it then names exactly the
  metrics that are missing, sorted and without repetition; otherwise it gives a number and no missing metric.\<close>

theorem policy_gate:
  assumes "evaluate_policy now req ms rs w th = Inr r"
  shows "(pv_trust_score r = None \<longleftrightarrow> (\<exists>n \<in> set req. \<not> (\<exists>m. (n, m) \<in> set ms \<and> mr_status m = MS_COMMITTED))) \<and>
    (pv_status r = INSUFFICIENT_DATA \<longleftrightarrow> pv_trust_score r = None) \<and>
    set (pv_missing_metrics r) = {n \<in> set req. \<not> (\<exists>m. (n, m) \<in> set ms \<and> mr_status m = MS_COMMITTED)} \<and>
    sorted (pv_missing_metrics r) \<and> distinct (pv_missing_metrics r)"
proof (cases "missing_metrics req (committed_required req ms) = []")
  case True
  with assms obtain s where "pv_trust_score r = Some s" "pv_missing_metrics r = []" "pv_status r \<noteq> INSUFFICIENT_DATA"
    by (auto simp: evaluate_policy_def Let_def rbind_eq_Inr verdict_def)
  with True missing_set [of req ms] show ?thesis by (auto simp: missing_Nil)
next
  case False
  with assms have "r = \<lparr>pv_trust_score = None, pv_status = INSUFFICIENT_DATA,
      pv_missing_metrics = missing_metrics req (committed_required req ms), pv_evidence_refs = [], pv_computed_at = now\<rparr>"
    by (simp add: evaluate_policy_def Let_def)
  with False missing_set [of req ms] show ?thesis
    by (auto simp: missing_Nil) (auto simp: missing_metrics_def)
qed

theorem policy_gate_witness:
  "\<exists>r. evaluate_policy epoch [''m''] [] [] None default_thresholds = Inr r \<and> pv_trust_score r = None \<and>
     pv_status r = INSUFFICIENT_DATA \<and> set (pv_missing_metrics r) = {''m''}"
proof -
  obtain r where r: "evaluate_policy epoch [''m''] [] [] None default_thresholds = Inr r"
    by (simp add: evaluate_policy_def Let_def committed_required_def missing_metrics_def sorted_set_def)
  from policy_gate [OF r] r show ?thesis by auto
qed

text \<open>C15: the score is a probability-like number, always. Whatever the metric values (negative, huge, infinite or
  NaN), weights and signals are, a returned score is a finite number between 0 and 1; and the evaluation does return
  unless an integer value is too large for a float: integers up to 2^53 in absolute value never fail.\<close>

theorem policy_score_unit_interval:
  "(\<forall>r s. evaluate_policy now req ms rs w th = Inr r \<and> pv_trust_score r = Some s \<longrightarrow> (\<exists>q. s = Fin q \<and> 0 \<le> q \<and> q \<le> 1)) \<and>
   ((\<forall>(n, m) \<in> set ms. \<forall>i. mr_value m = PInt i \<longrightarrow> \<bar>i\<bar> \<le> 2 ^ 53) \<longrightarrow> (\<exists>r. evaluate_policy now req ms rs w th = Inr r))"
proof (intro conjI allI impI)
  fix r s
  assume a: "evaluate_policy now req ms rs w th = Inr r \<and> pv_trust_score r = Some s"
  then have "missing_metrics req (committed_required req ms) = []"
    by (auto simp: evaluate_policy_def Let_def split: if_splits)
  with a show "\<exists>q. s = Fin q \<and> 0 \<le> q \<and> q \<le> 1"
    using clamp01_range by (auto elim!: evaluate_policy_score)
next
  assume "\<forall>(n, m) \<in> set ms. \<forall>i. mr_value m = PInt i \<longrightarrow> \<bar>i\<bar> \<le> 2 ^ 53"
  then show "\<exists>r. evaluate_policy now req ms rs w th = Inr r" by (rule evaluate_policy_total)
qed

theorem policy_score_unit_interval_witness:
  "\<exists>r. evaluate_policy epoch [] [] [] None default_thresholds = Inr r \<and>
     (\<exists>q. pv_trust_score r = Some (Fin q) \<and> 0 \<le> q \<and> q \<le> 1)"
proof -
  obtain r s where r: "evaluate_policy epoch [] [] [] None default_thresholds = Inr r" "pv_trust_score r = Some s"
    by (simp add: evaluate_policy_def Let_def committed_required_def missing_metrics_def)
  with policy_score_unit_interval [of epoch "[]" "[]" "[]" None default_thresholds] show ?thesis by blast
qed



text \<open>C17: more risk never helps. Adding validated risk signals (severity between 0 and 1) behind those already
  there never raises the score and never improves the verdict, in spite of every rounding error of the sums and the
  products.\<close>

theorem policy_risk_monotone:
  assumes "evaluate_policy now req ms rs w th = Inr r" "evaluate_policy now req ms (rs @ rs') w th = Inr r'"
    and "severities_valid (rs @ rs')" "pv_trust_score r = Some s" "pv_trust_score r' = Some s'"
  shows "fle s' s \<and> verdict_rank (pv_status r') \<le> verdict_rank (pv_status r)"
proof -
  have m: "missing_metrics req (committed_required req ms) = []"
    using assms(1,4) by (auto simp: evaluate_policy_def Let_def split: if_splits)
  obtain b where b: "score_loop (policy_weights w req) (committed_required req ms) (committed_required req ms) [] (Fin 0) = Inr (Fin b)"
    and r: "pv_trust_score r = Some (clamp01 (fsub (Fin b) (risk_penalty rs)))"
      "pv_status r = verdict th (clamp01 (fsub (Fin b) (risk_penalty rs))) (list_ex (\<lambda>r. rs_category r = ''CRITICAL'') (active_only rs))"
    by (rule evaluate_policy_score [OF assms(1) m])
  have r': "pv_trust_score r' = Some (clamp01 (fsub (Fin b) (risk_penalty (rs @ rs'))))"
      "pv_status r' = verdict th (clamp01 (fsub (Fin b) (risk_penalty (rs @ rs')))) (list_ex (\<lambda>r. rs_category r = ''CRITICAL'') (active_only (rs @ rs')))"
    using assms(2) m b by (auto simp: evaluate_policy_def Let_def)
  have le: "fle (clamp01 (fsub (Fin b) (risk_penalty (rs @ rs')))) (clamp01 (fsub (Fin b) (risk_penalty rs)))"
    using risk_penalty_grows [OF assms(3)] by (intro clamp01_mono fsub_antimono) auto
  then have "verdict_rank (pv_status r') \<le> verdict_rank (pv_status r)"
    unfolding r r' by (rule verdict_mono) (simp add: active_only_def)
  with le r r' assms(4,5) show ?thesis by simp
qed

theorem policy_risk_monotone_witness:
  "\<exists>r r' s s'. evaluate_policy epoch [] [] [] None default_thresholds = Inr r \<and>
     evaluate_policy epoch [] [] ([] @ [\<lparr>rs_decision_id = ''d'', rs_metric_name = ''m'', rs_category = ''CONTRADICTION'',
      rs_severity = Fin 1, rs_status = ''ACTIVE'', rs_resolved_by = None, rs_resolved_at = None,
      rs_contradiction_flags = []\<rparr>]) None default_thresholds = Inr r' \<and> pv_trust_score r = Some s \<and>
     pv_trust_score r' = Some s' \<and> fle s' s \<and> verdict_rank (pv_status r') \<le> verdict_rank (pv_status r)"
proof -
  let ?sig = "\<lparr>rs_decision_id = ''d'', rs_metric_name = ''m'', rs_category = ''CONTRADICTION'',
      rs_severity = Fin 1, rs_status = ''ACTIVE'', rs_resolved_by = None, rs_resolved_at = None,
      rs_contradiction_flags = []\<rparr>"
  obtain r s where r: "evaluate_policy epoch [] [] [] None default_thresholds = Inr r" "pv_trust_score r = Some s"
    by (simp add: evaluate_policy_def Let_def committed_required_def missing_metrics_def)
  obtain r' s' where r': "evaluate_policy epoch [] [] ([] @ [?sig]) None default_thresholds = Inr r'" "pv_trust_score r' = Some s'"
    by (simp add: evaluate_policy_def Let_def committed_required_def missing_metrics_def)
  have "severities_valid ([] @ [?sig])" by (simp add: severities_valid_def)
  from policy_risk_monotone [OF r(1) r'(1) this r(2) r'(2)] r r' show ?thesis by blast
qed

text \<open>A NaN is worth the full score. A single required metric whose committed value is NaN gets the trust
  score 1, and the verdict is \<^verbatim>\<open>APPROVE\<close>, because the built-in \<^verbatim>\<open>min(1.0, nan)\<close> is 1.\<close>

theorem policy_nan_approves:
  assumes "mr_status m = MS_COMMITTED" "mr_value m = PFloat NaN"
  shows "\<exists>r. evaluate_policy now [n] [(n, m)] [] None default_thresholds = Inr r \<and>
    pv_trust_score r = Some (Fin 1) \<and> pv_status r = APPROVE"
proof -
  have "b64 1" using rnd_exact [of 1 0 1] by (simp add: b64_def)
  then have one: "fl 1 = Fin 1" by (rule fl_b64) simp
  have sub: "clamp01 (fsub (Fin 1) (Fin 0)) = Fin 1"
    by (simp add: fsub_def fadd_def one clamp01_def py_max_def py_min_def)
  have "fle (fl (7 / 10)) (Fin 1)" using fl_mono [of "7 / 10" 1] one by simp
  then have v: "verdict default_thresholds (Fin 1) False = APPROVE"
    by (simp add: verdict_def default_thresholds_def)
  have nan: "fmul NaN x = NaN" "fadd (Fin 0) NaN = NaN" "fdiv NaN x = NaN" for x
    by (simp_all add: fmul_def fadd_def fdiv_def)
  have com: "committed_required [n] [(n, m)] = [(n, m)]" using assms by (simp add: committed_required_def)
  have "score_loop w [(n, m)] [(n, m)] [] (Fin 0) = Inr (Fin 1)" for w
    using assms(2) by (simp add: numeric_val_def fsum_def nan)
  then show ?thesis
    by (simp add: evaluate_policy_def com missing_metrics_def risk_penalty_def risk_terms_def active_only_def
        fsum_def sub v)
qed

theorem policy_nan_approves_witness:
  "\<exists>r. evaluate_policy epoch [''m''] [(''m'', \<lparr>mr_decision_id = ''d'', mr_metric_name = ''m'', mr_value = PFloat NaN,
      mr_proposed_by = ''u'', mr_idempotency_key = ''k'', mr_evidence_refs = [''e''], mr_status = MS_COMMITTED,
      mr_created_at = epoch, mr_leaf_hash = None, mr_runtime_context = PDict [], mr_superseded_by = PNone\<rparr>)]
      [] None default_thresholds = Inr r \<and> pv_trust_score r = Some (Fin 1) \<and> pv_status r = APPROVE"
  by (rule policy_nan_approves) simp_all

end
