(* ===== verification/AuditTrail.thy ===== *)
theory AuditTrail
  imports Domain "HOL-Library.Sublist"
begin

text \<open>
  The write-side port \<^verbatim>\<open>interfaces/audit_trail.py\<close> and its in-memory adapter
  \<^verbatim>\<open>MemoryAuditTrail\<close> (\<^verbatim>\<open>infrastructure/memory_adapters.py\<close>). The port is a record of operations
  (the application code takes it as an argument, as the Python constructors do) with the
  locale \<open>audit_trail\<close> as its contract: appending extends exactly one decision's stream,
  a key that was seen makes append a no-op, marking a batch changes no stream. The identifier a call of
  \<^verbatim>\<open>uuid.uuid4()\<close> returns is an argument of the operation that draws it.
\<close>

section \<open>The port\<close>

record append_result =
  ar_event_id :: string
  ar_deduplicated :: bool
  ar_existing_event_id :: "string option"

record 'a audit_ops =
  op_append :: "string \<Rightarrow> 'a \<Rightarrow> string \<Rightarrow> string \<Rightarrow> pydict \<Rightarrow> string option \<Rightarrow> ('a, append_result) sres"
  op_read_range :: "'a \<Rightarrow> string \<Rightarrow> int \<Rightarrow> pydict list res"
  op_read_unbatched :: "'a \<Rightarrow> int \<Rightarrow> pydict list res"
  op_mark_batched :: "'a \<Rightarrow> string list \<Rightarrow> string \<Rightarrow> ('a, unit) sres"

section \<open>The in-memory adapter\<close>

record memory_audit =
  ma_events :: "pydict list"
  ma_by_decision :: "(string \<times> pydict list) list"
  ma_idempotency_index :: "(string \<times> string) list"
  ma_batched :: "string set"

definition new_memory_audit :: memory_audit where
  "new_memory_audit = \<lparr>ma_events = [], ma_by_decision = [], ma_idempotency_index = [], ma_batched = {}\<rparr>"

text \<open>\<^verbatim>\<open>{"event_id": ..., "event_type": ..., "decision_id": ..., **payload}\<close>.\<close>

definition memory_record :: "string \<Rightarrow> string \<Rightarrow> string \<Rightarrow> pydict \<Rightarrow> pydict" where
  "memory_record event_id event_type decision_id payload =
     dict_update [(''event_id'', PStr event_id), (''event_type'', PStr event_type),
                  (''decision_id'', PStr decision_id)] payload"

definition memory_append ::
    "string \<Rightarrow> memory_audit \<Rightarrow> string \<Rightarrow> string \<Rightarrow> pydict \<Rightarrow> string option \<Rightarrow> (memory_audit, append_result) sres" where
  "memory_append event_id a decision_id event_type payload idempotency_key =
     (case Option.bind idempotency_key (map_of (ma_idempotency_index a)) of
        Some seen \<Rightarrow> (a, Inr \<lparr>ar_event_id = seen, ar_deduplicated = True, ar_existing_event_id = Some seen\<rparr>)
      | None \<Rightarrow>
          (let record = memory_record event_id event_type decision_id payload;
               by_decision = AList.update decision_id (dict_get (ma_by_decision a) decision_id [] @ [record]) (ma_by_decision a);
               index = (case idempotency_key of
                          None \<Rightarrow> ma_idempotency_index a
                        | Some k \<Rightarrow> AList.update k event_id (ma_idempotency_index a))
           in (a\<lparr>ma_events := ma_events a @ [record], ma_by_decision := by_decision, ma_idempotency_index := index\<rparr>,
               Inr \<lparr>ar_event_id = event_id, ar_deduplicated = False, ar_existing_event_id = None\<rparr>)))"

definition memory_read_range :: "memory_audit \<Rightarrow> string \<Rightarrow> int \<Rightarrow> pydict list res" where
  "memory_read_range a decision_id since_seq = Inr (slice_from since_seq (dict_get (ma_by_decision a) decision_id []))"

text \<open>\<^verbatim>\<open>x in self._batched\<close>: an unhashable value raises, a non-string is never a member.\<close>

definition in_str_set :: "pyval \<Rightarrow> string set \<Rightarrow> bool res" where
  "in_str_set v ids = (case v of
     PStr s \<Rightarrow> Inr (s \<in> ids)
   | PList _ \<Rightarrow> Inl (TypeError ''unhashable type'')
   | PDict _ \<Rightarrow> Inl (TypeError ''unhashable type'')
   | _ \<Rightarrow> Inr False)"

definition memory_is_unbatched :: "memory_audit \<Rightarrow> pydict \<Rightarrow> bool res" where
  "memory_is_unbatched a e =
     rbind (getitem e ''event_id'') (\<lambda>i.
     rbind (in_str_set i (ma_batched a)) (\<lambda>batched.
       if batched then Inr False
       else rbind (getitem e ''event_type'') (\<lambda>t. Inr (t = PStr ''MetricCommitted''))))"

definition memory_read_unbatched :: "memory_audit \<Rightarrow> int \<Rightarrow> pydict list res" where
  "memory_read_unbatched a limit =
     rbind (rmap (memory_is_unbatched a) (ma_events a)) (\<lambda>keep.
       Inr (slice_to limit (map fst (filter snd (zip (ma_events a) keep)))))"

definition memory_mark_batched :: "memory_audit \<Rightarrow> string list \<Rightarrow> string \<Rightarrow> (memory_audit, unit) sres" where
  "memory_mark_batched a event_ids batch_id = (a\<lparr>ma_batched := ma_batched a \<union> set event_ids\<rparr>, Inr ())"

definition memory_ops :: "memory_audit audit_ops" where
  "memory_ops = \<lparr>op_append = memory_append, op_read_range = memory_read_range,
     op_read_unbatched = memory_read_unbatched, op_mark_batched = memory_mark_batched\<rparr>"

section \<open>The abstract trail\<close>

text \<open>Any interleaving of the mutating calls, from whichever client.\<close>

datatype audit_cmd =
    Append string string string pydict "string option"
  | MarkBatched "string list" string

text \<open>What a trail promises, without its representation: a log of accepted events and the event each key belongs to.\<close>

record trail_spec =
  sp_log :: "(string \<times> string \<times> string \<times> pydict) list"
  sp_keys :: "string \<rightharpoonup> string"

definition empty_trail :: trail_spec where
  "empty_trail = \<lparr>sp_log = [], sp_keys = Map.empty\<rparr>"

fun spec_exec :: "trail_spec \<Rightarrow> audit_cmd \<Rightarrow> trail_spec" where
  "spec_exec sp (Append i d ty p k) =
     (if Option.bind k (sp_keys sp) \<noteq> None then sp
      else \<lparr>sp_log = sp_log sp @ [(i, d, ty, p)],
            sp_keys = (case k of None \<Rightarrow> sp_keys sp | Some x \<Rightarrow> (sp_keys sp)(x \<mapsto> i))\<rparr>)"
| "spec_exec sp (MarkBatched ids b) = sp"

text \<open>The events of one decision, as the adapter's record constructor shows them.\<close>

definition spec_stream ::
    "(string \<Rightarrow> string \<Rightarrow> string \<Rightarrow> pydict \<Rightarrow> pydict) \<Rightarrow> trail_spec \<Rightarrow> string \<Rightarrow> pydict list" where
  "spec_stream mk sp d = map (\<lambda>(i, d, ty, p). mk i ty d p) (filter (\<lambda>(i, d', ty, p). d' = d) (sp_log sp))"

text \<open>The same call on an adapter.\<close>

fun trail_exec :: "'a audit_ops \<Rightarrow> 'a \<Rightarrow> audit_cmd \<Rightarrow> 'a" where
  "trail_exec ops a (Append i d ty p k) = fst (op_append ops i a d ty p k)"
| "trail_exec ops a (MarkBatched ids b) = fst (op_mark_batched ops a ids b)"

section \<open>The contract\<close>

text \<open>
  \<open>stream a d\<close> is what \<^verbatim>\<open>read_range(d)\<close> returns, \<open>keys a\<close> the idempotency keys seen so far with the
  event they belong to, \<open>mkrec\<close> the record an append stores. \<open>inv\<close> is the adapter's invariant and
  \<open>usable a i d ty p k\<close> says that the adapter can store this event under the drawn identifier \<open>i\<close>.
\<close>

locale audit_trail =
  fixes ops :: "'a audit_ops" and inv :: "'a \<Rightarrow> bool" and usable :: "'a \<Rightarrow> string \<Rightarrow> string \<Rightarrow> string \<Rightarrow> pydict \<Rightarrow> string option \<Rightarrow> bool"
    and stream :: "'a \<Rightarrow> string \<Rightarrow> pydict list" and keys :: "'a \<Rightarrow> string \<rightharpoonup> string"
    and mkrec :: "string \<Rightarrow> string \<Rightarrow> string \<Rightarrow> pydict \<Rightarrow> pydict" and readable :: "string \<Rightarrow> bool"
  assumes append_fresh: "inv a \<Longrightarrow> usable a i d ty p k \<Longrightarrow> Option.bind k (keys a) = None \<Longrightarrow>
      \<exists>a'. op_append ops i a d ty p k =
             (a', Inr \<lparr>ar_event_id = i, ar_deduplicated = False, ar_existing_event_id = None\<rparr>) \<and>
           inv a' \<and> stream a' = (stream a)(d := stream a d @ [mkrec i ty d p]) \<and>
           keys a' = (case k of None \<Rightarrow> keys a | Some x \<Rightarrow> (keys a)(x \<mapsto> i))"
    and append_seen: "inv a \<Longrightarrow> usable a i d ty p k \<Longrightarrow> Option.bind k (keys a) = Some e \<Longrightarrow>
      \<exists>a'. op_append ops i a d ty p k =
             (a', Inr \<lparr>ar_event_id = e, ar_deduplicated = True, ar_existing_event_id = Some e\<rparr>) \<and>
           inv a' \<and> stream a' = stream a \<and> keys a' = keys a"
    and read_stream: "inv a \<Longrightarrow> readable d \<Longrightarrow> op_read_range ops a d 0 = Inr (stream a d)"
    and mark_frame: "inv a \<Longrightarrow> op_mark_batched ops a ids b = (a', r) \<Longrightarrow>
      inv a' \<and> stream a' = stream a \<and> keys a' = keys a"
begin

text \<open>One append, whatever its key: the history of every decision only grows, and no key is forgotten or moved.\<close>

lemma append_grows:
  assumes "inv a" "usable a i d ty p k"
  shows "\<exists>a' r. op_append ops i a d ty p k = (a', Inr r) \<and> inv a' \<and>
    (\<forall>x. prefix (stream a x) (stream a' x)) \<and> keys a \<subseteq>\<^sub>m keys a' \<and>
    (\<forall>x. k = Some x \<longrightarrow> keys a' x = Some (ar_event_id r))"
proof (cases "Option.bind k (keys a)")
  case None
  then have "\<And>x. k = Some x \<Longrightarrow> keys a x = None" by simp
  with append_fresh [OF assms None] show ?thesis
    by (force simp: map_le_def split: option.splits)
next
  case (Some e)
  then have "\<And>x. k = Some x \<Longrightarrow> keys a x = Some e" by simp
  with append_seen [OF assms Some] show ?thesis by (force simp: map_le_def)
qed

text \<open>An append with a key that the trail knows leaves no trace and names the first event.\<close>

lemma append_idempotent:
  assumes "inv a" "usable a i d ty p (Some x)" "keys a x = Some e"
  shows "\<exists>a'. op_append ops i a d ty p (Some x) =
      (a', Inr \<lparr>ar_event_id = e, ar_deduplicated = True, ar_existing_event_id = Some e\<rparr>) \<and>
    inv a' \<and> stream a' = stream a \<and> keys a' = keys a"
  using append_seen [OF assms(1,2)] assms(3) by simp

text \<open>Refinement: the adapter's state shows the abstract trail, and every call keeps it that way.\<close>

definition refines :: "'a \<Rightarrow> trail_spec \<Rightarrow> bool" where
  "refines a sp = (inv a \<and> keys a = sp_keys sp \<and> stream a = spec_stream mkrec sp)"

fun usable_cmd :: "'a \<Rightarrow> audit_cmd \<Rightarrow> bool" where
  "usable_cmd a (Append i d ty p k) = usable a i d ty p k"
| "usable_cmd a (MarkBatched ids b) = True"

fun usable_run :: "'a \<Rightarrow> audit_cmd list \<Rightarrow> bool" where
  "usable_run a [] = True"
| "usable_run a (c # cs) = (usable_cmd a c \<and> usable_run (trail_exec ops a c) cs)"

lemma refines_step:
  assumes "refines a sp" "usable_cmd a c"
  shows "refines (trail_exec ops a c) (spec_exec sp c)"
proof (cases c)
  case (Append i d ty p k)
  have a: "inv a" "usable a i d ty p k" using assms by (auto simp: refines_def Append)
  show ?thesis
  proof (cases "Option.bind k (keys a)")
    case None
    then have "Option.bind k (sp_keys sp) = None" using assms(1) by (simp add: refines_def)
    then have "(stream a)(d := stream a d @ [mkrec i ty d p]) = spec_stream mkrec (spec_exec sp c)"
      using assms(1) by (intro ext) (simp add: refines_def Append spec_stream_def)
    with append_fresh [OF a None] None assms(1) show ?thesis by (auto simp: refines_def Append split: option.splits)
  next
    case (Some e)
    with append_seen [OF a Some] assms(1) show ?thesis by (auto simp: refines_def Append)
  qed
next
  case (MarkBatched ids b)
  obtain a' r where "op_mark_batched ops a ids b = (a', r)" by (cases "op_mark_batched ops a ids b")
  with mark_frame [OF _ this] assms(1) show ?thesis by (auto simp: refines_def MarkBatched spec_stream_def fun_eq_iff)
qed

lemma refines_run:
  "refines a sp \<Longrightarrow> usable_run a cs \<Longrightarrow> refines (foldl (trail_exec ops) a cs) (foldl spec_exec sp cs)"
  by (induction cs arbitrary: a sp) (auto intro: refines_step)

lemma refines_read:
  "refines a sp \<Longrightarrow> readable d \<Longrightarrow> op_read_range ops a d 0 = Inr (spec_stream mkrec sp d)"
  using read_stream by (simp add: refines_def)

end

section \<open>The in-memory adapter meets the contract\<close>

definition memory_stream :: "memory_audit \<Rightarrow> string \<Rightarrow> pydict list" where
  "memory_stream a d = dict_get (ma_by_decision a) d []"

definition memory_keys :: "memory_audit \<Rightarrow> string \<rightharpoonup> string" where
  "memory_keys a = map_of (ma_idempotency_index a)"

lemma memory_append_fresh:
  assumes "Option.bind k (memory_keys a) = None"
  shows "\<exists>a'. memory_append i a d ty p k =
      (a', Inr \<lparr>ar_event_id = i, ar_deduplicated = False, ar_existing_event_id = None\<rparr>) \<and>
    memory_stream a' = (memory_stream a)(d := memory_stream a d @ [memory_record i ty d p]) \<and>
    memory_keys a' = (case k of None \<Rightarrow> memory_keys a | Some x \<Rightarrow> (memory_keys a)(x \<mapsto> i)) \<and>
    ma_events a' = ma_events a @ [memory_record i ty d p] \<and> ma_batched a' = ma_batched a"
  using assms
  by (auto simp: memory_append_def memory_keys_def memory_stream_def Let_def dict_get_def fun_eq_iff
      map_of_AList_update split: option.splits)

lemma memory_append_seen:
  assumes "Option.bind k (memory_keys a) = Some e"
  shows "memory_append i a d ty p k =
      (a, Inr \<lparr>ar_event_id = e, ar_deduplicated = True, ar_existing_event_id = Some e\<rparr>)"
  using assms by (simp add: memory_append_def memory_keys_def)

interpretation memory: audit_trail memory_ops "\<lambda>_. True" "\<lambda>_ _ _ _ _ _. True" memory_stream memory_keys memory_record
  "\<lambda>_. True"
proof unfold_locales
  fix a i d ty p k
  assume "Option.bind k (memory_keys a) = None"
  from memory_append_fresh [OF this, of i d ty p]
  show "\<exists>a'. op_append memory_ops i a d ty p k =
      (a', Inr \<lparr>ar_event_id = i, ar_deduplicated = False, ar_existing_event_id = None\<rparr>) \<and> True \<and>
    memory_stream a' = (memory_stream a)(d := memory_stream a d @ [memory_record i ty d p]) \<and>
    memory_keys a' = (case k of None \<Rightarrow> memory_keys a | Some x \<Rightarrow> (memory_keys a)(x \<mapsto> i))"
    by (auto simp: memory_ops_def)
next
  fix a i d ty p k e
  assume "Option.bind k (memory_keys a) = Some e"
  from memory_append_seen [OF this, of i d ty p]
  show "\<exists>a'. op_append memory_ops i a d ty p k =
      (a', Inr \<lparr>ar_event_id = e, ar_deduplicated = True, ar_existing_event_id = Some e\<rparr>) \<and> True \<and>
    memory_stream a' = memory_stream a \<and> memory_keys a' = memory_keys a"
    by (auto simp: memory_ops_def)
qed (auto simp: memory_ops_def memory_read_range_def memory_stream_def memory_mark_batched_def
      memory_keys_def fun_eq_iff)

section \<open>Runs of the adapter\<close>

fun audit_exec :: "memory_audit \<Rightarrow> audit_cmd \<Rightarrow> memory_audit" where
  "audit_exec a (Append event_id decision_id event_type payload idempotency_key) =
     fst (memory_append event_id a decision_id event_type payload idempotency_key)"
| "audit_exec a (MarkBatched event_ids batch_id) = fst (memory_mark_batched a event_ids batch_id)"

lemma audit_exec_grows:
  "prefix (ma_events a) (ma_events (audit_exec a c)) \<and>
   (\<forall>d. prefix (memory_stream a d) (memory_stream (audit_exec a c) d)) \<and>
   memory_keys a \<subseteq>\<^sub>m memory_keys (audit_exec a c) \<and> ma_batched a \<subseteq> ma_batched (audit_exec a c)"
proof (cases c)
  case (Append i d ty p k)
  show ?thesis
  proof (cases "Option.bind k (memory_keys a)")
    case None
    then have "\<And>x. k = Some x \<Longrightarrow> memory_keys a x = None" by simp
    with memory_append_fresh [OF None, of i d ty p] show ?thesis
      by (force simp: Append map_le_def split: option.splits)
  next
    case (Some e)
    with memory_append_seen [OF Some, of i d ty p] show ?thesis by (simp add: Append)
  qed
next
  case (MarkBatched ids b)
  then show ?thesis by (auto simp: memory_mark_batched_def memory_stream_def memory_keys_def)
qed

lemma audit_run_grows:
  "prefix (ma_events a) (ma_events (foldl audit_exec a cs)) \<and>
   (\<forall>d. prefix (memory_stream a d) (memory_stream (foldl audit_exec a cs) d)) \<and>
   memory_keys a \<subseteq>\<^sub>m memory_keys (foldl audit_exec a cs) \<and>
   ma_batched a \<subseteq> ma_batched (foldl audit_exec a cs)"
proof (induction cs arbitrary: a)
  case (Cons c cs)
  from audit_exec_grows [of a c] Cons [of "audit_exec a c"] show ?case
    by (auto intro: prefix_order.trans map_le_trans)
qed simp

lemma prefix_slice_0: "prefix xs ys \<Longrightarrow> \<exists>zs. ys = xs @ zs"
  by (auto elim: prefixE)

subsection \<open>Unbatched events\<close>

definition record_id :: "pydict \<Rightarrow> string option" where
  "record_id e = (case map_of e ''event_id'' of Some (PStr s) \<Rightarrow> Some s | _ \<Rightarrow> None)"

lemma memory_is_unbatched_plain:
  assumes "record_id e = Some i" "map_of e ''event_type'' = Some t"
  shows "memory_is_unbatched a e = Inr (i \<notin> ma_batched a \<and> t = PStr ''MetricCommitted'')"
  using assms by (auto simp: memory_is_unbatched_def record_id_def getitem_Some in_str_set_def
      split: option.splits pyval.splits)

lemma memory_read_unbatched_plain:
  assumes "\<forall>e \<in> set (ma_events a). \<exists>i t. record_id e = Some i \<and> map_of e ''event_type'' = Some t"
  shows "memory_read_unbatched a n = Inr (slice_to n (filter
      (\<lambda>e. the (record_id e) \<notin> ma_batched a \<and> map_of e ''event_type'' = Some (PStr ''MetricCommitted'')) (ma_events a)))"
proof -
  let ?P = "\<lambda>e. the (record_id e) \<notin> ma_batched a \<and> map_of e ''event_type'' = Some (PStr ''MetricCommitted'')"
  have "rmap (memory_is_unbatched a) (ma_events a) = Inr (map ?P (ma_events a))"
    by (rule rmap_Inr_all) (use assms memory_is_unbatched_plain in fastforce)
  moreover have "map fst (filter snd (zip xs (map ?P xs))) = filter ?P xs" for xs :: "pydict list"
    by (induction xs) auto
  ultimately show ?thesis by (simp add: memory_read_unbatched_def)
qed

section \<open>Properties\<close>

text \<open>C24: the trail is append-only (invariant I7). Whatever sequence of appends and batch marks runs,
  the global log and the stream of every decision only grow at the end, no idempotency key is dropped or
  re-assigned to another event, and no batched event becomes unbatched.\<close>

theorem memory_audit_append_only:
  "prefix (ma_events a) (ma_events (foldl audit_exec a cs)) \<and>
   (\<forall>d. \<exists>zs. memory_read_range (foldl audit_exec a cs) d 0 = rbind (memory_read_range a d 0) (\<lambda>es. Inr (es @ zs))) \<and>
   map_of (ma_idempotency_index a) \<subseteq>\<^sub>m map_of (ma_idempotency_index (foldl audit_exec a cs)) \<and>
   ma_batched a \<subseteq> ma_batched (foldl audit_exec a cs)"
  using audit_run_grows [of a cs] prefix_slice_0
  by (fastforce simp: memory_read_range_def memory_stream_def memory_keys_def)

text \<open>C25: idempotency for ever (invariant I6). Once an append with an idempotency key has returned,
  then after any further history every append with that key, for any decision, type or payload,
  changes nothing at all and returns the identifier the first one returned, marked as deduplicated.\<close>

theorem memory_audit_idempotent:
  assumes "memory_append i a d ty p (Some k) = (a1, Inr r)"
  shows "memory_append j (foldl audit_exec a1 cs) d' ty' p' (Some k) =
    (foldl audit_exec a1 cs,
     Inr \<lparr>ar_event_id = ar_event_id r, ar_deduplicated = True, ar_existing_event_id = Some (ar_event_id r)\<rparr>)"
proof -
  have "memory_keys a1 k = Some (ar_event_id r)"
    using assms memory_append_fresh [of "Some k" a i d ty p] memory_append_seen [of "Some k" a _ i d ty p]
    by (cases "memory_keys a k") auto
  with audit_run_grows [of a1 cs] have "memory_keys (foldl audit_exec a1 cs) k = Some (ar_event_id r)"
    by (metis domI map_le_def)
  then show ?thesis by (intro memory_append_seen) simp
qed

theorem memory_audit_idempotent_witness:
  "memory_append ''e9'' (foldl audit_exec (fst (memory_append ''e1'' new_memory_audit ''d'' ''T'' [] (Some ''k'')))
       [Append ''e2'' ''d'' ''U'' [] None]) ''x'' ''V'' [] (Some ''k'') =
   (foldl audit_exec (fst (memory_append ''e1'' new_memory_audit ''d'' ''T'' [] (Some ''k'')))
       [Append ''e2'' ''d'' ''U'' [] None],
    Inr \<lparr>ar_event_id = ''e1'', ar_deduplicated = True, ar_existing_event_id = Some ''e1''\<rparr>)"
proof -
  have "memory_append ''e1'' new_memory_audit ''d'' ''T'' [] (Some ''k'') =
      (fst (memory_append ''e1'' new_memory_audit ''d'' ''T'' [] (Some ''k'')),
       Inr \<lparr>ar_event_id = ''e1'', ar_deduplicated = False, ar_existing_event_id = None\<rparr>)"
    by (simp add: memory_append_def new_memory_audit_def Let_def)
  from memory_audit_idempotent [OF this, of "''e9''" "[Append ''e2'' ''d'' ''U'' [] None]" "''x''" "''V''" "[]"]
  show ?thesis by simp
qed

end
