(* ===== verification/Adapters.thy ===== *)
theory Adapters
  imports Domain "HOL-Library.Sublist"
begin

text \<open>
  The remaining ports (\<^verbatim>\<open>interfaces/projection_store.py\<close>, \<^verbatim>\<open>signer.py\<close>, \<^verbatim>\<open>tsa.py\<close>,
  \<^verbatim>\<open>event_bus.py\<close>) and their in-memory adapters (\<^verbatim>\<open>infrastructure/memory_adapters.py\<close>). Projection
  stores share the contract \<open>kv_store\<close>, timestamp authorities the contract \<open>tsa_roundtrip\<close>; the Ed25519 signer has its own
  theory.
\<close>

section \<open>Projection store\<close>

record 's store_ops =
  st_get :: "'s \<Rightarrow> string \<Rightarrow> pydict option res"
  st_set :: "'s \<Rightarrow> string \<Rightarrow> pydict \<Rightarrow> ('s, unit) sres"
  st_get_many :: "'s \<Rightarrow> string \<Rightarrow> (string \<times> pydict) list res"

type_synonym memory_store = "(string \<times> pydict) list"

definition memory_get :: "memory_store \<Rightarrow> string \<Rightarrow> pydict option res" where
  "memory_get data key = Inr (map_of data key)"

definition memory_set :: "memory_store \<Rightarrow> string \<Rightarrow> pydict \<Rightarrow> (memory_store, unit) sres" where
  "memory_set data key val = (AList.update key val data, Inr ())"

definition memory_get_many :: "memory_store \<Rightarrow> string \<Rightarrow> (string \<times> pydict) list res" where
  "memory_get_many data pre = Inr (filter (\<lambda>(k, v). prefix pre k) data)"

definition memory_store_ops :: "memory_store store_ops" where
  "memory_store_ops = \<lparr>st_get = memory_get, st_set = memory_set, st_get_many = memory_get_many\<rparr>"

text \<open>The contract: a map from keys to rows; \<open>inv\<close> is the adapter's invariant, \<open>storable\<close> the rows it can hold.\<close>

locale kv_store =
  fixes st :: "'s store_ops" and lookup :: "'s \<Rightarrow> string \<rightharpoonup> pydict" and storable :: "pydict \<Rightarrow> bool" and inv :: "'s \<Rightarrow> bool"
  assumes get_lookup: "inv s \<Longrightarrow> st_get st s k = Inr (lookup s k)"
    and set_lookup: "inv s \<Longrightarrow> storable v \<Longrightarrow>
      \<exists>s'. st_set st s k v = (s', Inr ()) \<and> inv s' \<and> lookup s' = (lookup s)(k \<mapsto> v)"
begin

text \<open>A loop of writes: the rows in writing order, later rows for the same key win.\<close>

primrec set_all :: "(string \<times> pydict) list \<Rightarrow> 's \<Rightarrow> 's" where
  "set_all [] s = s"
| "set_all (r # rs) s = set_all rs (fst (st_set st s (fst r) (snd r)))"

lemma lookup_set_all:
  "inv s \<Longrightarrow> (\<forall>r \<in> set rs. storable (snd r)) \<Longrightarrow> lookup (set_all rs s) = lookup s ++ map_of (rev rs)"
proof (induction rs arbitrary: s)
  case (Cons r rs)
  obtain s' where s': "st_set st s (fst r) (snd r) = (s', Inr ())" "inv s'" "lookup s' = (lookup s)(fst r \<mapsto> snd r)"
    using set_lookup [of s "snd r" "fst r"] Cons.prems by auto
  with Cons show ?case by (simp add: fun_eq_iff map_add_def split: option.splits)
qed simp

lemma get_set:
  assumes "inv s" "storable v"
  shows "\<exists>s'. st_set st s k v = (s', Inr ()) \<and> inv s' \<and> st_get st s' k = Inr (Some v) \<and>
    (\<forall>x. x \<noteq> k \<longrightarrow> st_get st s' x = st_get st s x)"
  using set_lookup [OF assms, of k] get_lookup assms(1) by auto

end

interpretation memory_kv: kv_store memory_store_ops map_of "\<lambda>_. True" "\<lambda>_. True"
  by unfold_locales (auto simp: memory_store_ops_def memory_get_def memory_set_def map_of_AList_update)

section \<open>Signer\<close>

record signer =
  sg_sign :: "bytes \<Rightarrow> bytes"
  sg_verify :: "bytes \<Rightarrow> bytes \<Rightarrow> bytes \<Rightarrow> bool"
  sg_public_key :: bytes
  sg_key_id :: string

section \<open>Timestamp authority\<close>

record tsa_token =
  token_bytes :: bytes
  timestamp_iso :: string
  authority_id :: string

definition memory_tsa_timestamp :: "string \<Rightarrow> datetime \<Rightarrow> bytes \<Rightarrow> tsa_token" where
  "memory_tsa_timestamp auth now digest =
     (let ts = isoformat_ms now in
      \<lparr>token_bytes = digest @ utf8_encode ts @ utf8_encode auth, timestamp_iso = ts, authority_id = auth\<rparr>)"

definition memory_tsa_verify :: "bytes \<Rightarrow> tsa_token \<Rightarrow> bool" where
  "memory_tsa_verify digest token =
     (digest @ utf8_encode (timestamp_iso token) @ utf8_encode (authority_id token) = token_bytes token)"

text \<open>The contract of a timestamp authority: it accepts its own token for the stamped digest and for no other.\<close>

locale tsa_roundtrip =
  fixes stamp :: "bytes \<Rightarrow> 't" and check :: "bytes \<Rightarrow> 't \<Rightarrow> bool" and stampable :: "bytes \<Rightarrow> bool"
  assumes accepts: "stampable g \<Longrightarrow> check g (stamp g)"
    and rejects: "stampable h \<Longrightarrow> check g (stamp h) \<Longrightarrow> g = h"
begin

lemma check_iff: "stampable h \<Longrightarrow> check g (stamp h) \<longleftrightarrow> g = h"
  using accepts rejects by blast

lemma stamp_inj: "stampable g \<Longrightarrow> stampable h \<Longrightarrow> stamp g = stamp h \<Longrightarrow> g = h"
  using accepts rejects by metis

end

interpretation memory_tsa: tsa_roundtrip "memory_tsa_timestamp auth now" memory_tsa_verify "\<lambda>_. True" for auth now
  by unfold_locales (auto simp: memory_tsa_timestamp_def memory_tsa_verify_def Let_def)

section \<open>Event bus\<close>

text \<open>
  \<^verbatim>\<open>MemoryEventBus\<close>: handlers are state transformers of the subscribed component \<open>'c\<close>; an exception of one
  handler ends the publication, and what earlier handlers did stays done.
\<close>

type_synonym 'c handler = "'c \<Rightarrow> pydict \<Rightarrow> ('c, unit) sres"

record 'c memory_bus =
  mb_subscribers :: "(string \<times> 'c handler list) list"
  mb_published :: "(string \<times> string \<times> pydict) list"

definition new_memory_bus :: "'c memory_bus" where
  "new_memory_bus = \<lparr>mb_subscribers = [], mb_published = []\<rparr>"

primrec run_handlers :: "'c handler list \<Rightarrow> pydict \<Rightarrow> 'c \<Rightarrow> ('c, unit) sres" where
  "run_handlers [] payload c = (c, Inr ())"
| "run_handlers (h # hs) payload c = sbind (h c payload) (\<lambda>c' _. run_handlers hs payload c') (\<lambda>c'. c')"

definition memory_publish :: "'c memory_bus \<Rightarrow> 'c \<Rightarrow> string \<Rightarrow> string \<Rightarrow> pydict \<Rightarrow> ('c memory_bus \<times> 'c, unit) sres" where
  "memory_publish b c topic key payload =
     (let b' = b\<lparr>mb_published := mb_published b @ [(topic, key, payload)]\<rparr> in
      case run_handlers (dict_get (mb_subscribers b') topic []) payload c of (c', r) \<Rightarrow> ((b', c'), r))"

definition memory_subscribe :: "'c memory_bus \<Rightarrow> string \<Rightarrow> 'c handler \<Rightarrow> 'c memory_bus" where
  "memory_subscribe b topic h =
     b\<lparr>mb_subscribers := AList.update topic (dict_get (mb_subscribers b) topic [] @ [h]) (mb_subscribers b)\<rparr>"

lemma memory_subscribe_lookup:
  "dict_get (mb_subscribers (memory_subscribe b topic h)) t [] =
     (if t = topic then dict_get (mb_subscribers b) topic [] @ [h] else dict_get (mb_subscribers b) t [])"
  by (simp add: memory_subscribe_def dict_get_def map_of_AList_update)

lemma run_handlers_single: "run_handlers [h] p c = h c p"
  by (cases "h c p") (simp split: sum.splits add: sbind_def)

end
