(* ===== verification/Sha256.thy ===== *)
theory Sha256
  imports Codec
begin

unbundle bit_operations_syntax

text \<open>
  \<^verbatim>\<open>hashlib.sha256(data).digest()\<close> as an executable function on byte strings (FIPS 180-4):
  padding, message schedule, compression. The Merkle code uses it only through
  \<^verbatim>\<open>application/merkle.py\<close>; the components need that it is a function, that a digest has 32
  bytes, and, for the tamper-evidence theorems, nothing else: those theorems exhibit a collision
  instead of assuming that there is none. The interface \<open>digest\<close> states this.
\<close>

section \<open>Definitions\<close>

type_synonym u32 = "32 word"

text \<open>Round constants: the first 32 bits of the fractional parts of the cube roots of the first 64 primes.\<close>

definition sha_k :: "u32 list" where
  "sha_k = [
      1116352408, 1899447441, 3049323471, 3921009573, 961987163, 1508970993, 2453635748, 2870763221,
      3624381080, 310598401, 607225278, 1426881987, 1925078388, 2162078206, 2614888103, 3248222580,
      3835390401, 4022224774, 264347078, 604807628, 770255983, 1249150122, 1555081692, 1996064986,
      2554220882, 2821834349, 2952996808, 3210313671, 3336571891, 3584528711, 113926993, 338241895,
      666307205, 773529912, 1294757372, 1396182291, 1695183700, 1986661051, 2177026350, 2456956037,
      2730485921, 2820302411, 3259730800, 3345764771, 3516065817, 3600352804, 4094571909, 275423344,
      430227734, 506948616, 659060556, 883997877, 958139571, 1322822218, 1537002063, 1747873779,
      1955562222, 2024104815, 2227730452, 2361852424, 2428436474, 2756734187, 3204031479, 3329325298]"

text \<open>The chaining value: eight 32-bit words.\<close>

datatype hash_state = HS u32 u32 u32 u32 u32 u32 u32 u32

definition sha_init :: hash_state where
  "sha_init = HS 1779033703 3144134277 1013904242 2773480762 1359893119 2600822924 528734635 1541459225"

definition rotr32 :: "nat \<Rightarrow> u32 \<Rightarrow> u32" where
  "rotr32 n w = drop_bit n w OR push_bit (32 - n) w"

definition sched0 :: "u32 \<Rightarrow> u32" where
  "sched0 x = rotr32 7 x XOR rotr32 18 x XOR drop_bit 3 x"

definition sched1 :: "u32 \<Rightarrow> u32" where
  "sched1 x = rotr32 17 x XOR rotr32 19 x XOR drop_bit 10 x"

text \<open>\<open>extend n ws\<close> appends \<open>n\<close> schedule words; each is computed from words 16, 15, 7 and 2 back.\<close>

fun extend :: "nat \<Rightarrow> u32 list \<Rightarrow> u32 list" where
  "extend 0 ws = ws"
| "extend (Suc n) ws = (let t = length ws in
     extend n (ws @ [sched1 (ws ! (t - 2)) + ws ! (t - 7) + sched0 (ws ! (t - 15)) + ws ! (t - 16)]))"

fun sha_round :: "u32 \<times> u32 \<Rightarrow> hash_state \<Rightarrow> hash_state" where
  "sha_round (k, w) (HS a b c d e f g h) =
     (let t1 = h + (rotr32 6 e XOR rotr32 11 e XOR rotr32 25 e)
                 + ((e AND f) XOR (NOT e AND g)) + k + w;
          t2 = (rotr32 2 a XOR rotr32 13 a XOR rotr32 22 a)
                 + ((a AND b) XOR (a AND c) XOR (b AND c))
      in HS (t1 + t2) a b c (d + t1) e f g)"

fun hs_add :: "hash_state \<Rightarrow> hash_state \<Rightarrow> hash_state" where
  "hs_add (HS a b c d e f g h) (HS a' b' c' d' e' f' g' h') =
     HS (a + a') (b + b') (c + c') (d + d') (e + e') (f + f') (g + g') (h + h')"

definition compress :: "u32 list \<Rightarrow> hash_state \<Rightarrow> hash_state" where
  "compress ws st = hs_add st (fold sha_round (zip sha_k (extend 48 ws)) st)"

fun words_of_bytes :: "bytes \<Rightarrow> u32 list" where
  "words_of_bytes (a # b # c # d # bs) =
     (push_bit 24 (ucast a) OR push_bit 16 (ucast b) OR push_bit 8 (ucast c) OR ucast d)
       # words_of_bytes bs"
| "words_of_bytes _ = []"

definition bytes_of_word :: "u32 \<Rightarrow> bytes" where
  "bytes_of_word w = [ucast (drop_bit 24 w), ucast (drop_bit 16 w), ucast (drop_bit 8 w), ucast w]"

fun bytes_of_state :: "hash_state \<Rightarrow> bytes" where
  "bytes_of_state (HS a b c d e f g h) = concat (map bytes_of_word [a, b, c, d, e, f, g, h])"

text \<open>The bit length as eight bytes, modulo \<open>2 ^ 64\<close>.\<close>

definition be64 :: "64 word \<Rightarrow> bytes" where
  "be64 w = map (\<lambda>i. ucast (drop_bit i w)) [56, 48, 40, 32, 24, 16, 8, 0]"

definition sha_pad :: "bytes \<Rightarrow> bytes" where
  "sha_pad m = m @ 128 # replicate ((119 - length m mod 64) mod 64) 0 @ be64 (8 * word_of_nat (length m))"

function sha_blocks :: "u32 list \<Rightarrow> hash_state \<Rightarrow> hash_state" where
  "sha_blocks ws st = (if ws = [] then st else sha_blocks (drop 16 ws) (compress (take 16 ws) st))"
  by pat_completeness auto
termination
  by (relation "measure (\<lambda>(ws, st). length ws)") auto

declare sha_blocks.simps [simp del]

definition sha256 :: "bytes \<Rightarrow> bytes" where
  "sha256 m = bytes_of_state (sha_blocks (words_of_bytes (sha_pad m)) sha_init)"

section \<open>The interface the Merkle code relies on\<close>

text \<open>
  \<open>collision H x y\<close>: two different inputs with the same digest. A theorem that yields a
  collision between two byte strings the code really hashed is the strongest tamper-evidence
  statement that holds of a concrete function.
\<close>

definition collision :: "('a \<Rightarrow> 'b) \<Rightarrow> 'a \<Rightarrow> 'a \<Rightarrow> bool" where
  "collision H x y \<longleftrightarrow> x \<noteq> y \<and> H x = H y"

locale digest =
  fixes H :: "bytes \<Rightarrow> bytes" and len :: nat
  assumes digest_length: "length (H m) = len"
begin

text \<open>Hashing a concatenation of two digests: equal results mean equal halves, or a collision.\<close>

lemma pair_cases:
  assumes "H (a @ b) = H (c @ d)" "length a = length c"
  shows "(a = c \<and> b = d) \<or> collision H (a @ b) (c @ d)"
  using assms by (auto simp: collision_def)

end

lemma length_bytes_of_word [simp]: "length (bytes_of_word w) = 4"
  by (simp add: bytes_of_word_def)

lemma length_sha256 [simp, codec_simps]: "length (sha256 m) = 32"
  by (cases "sha_blocks (words_of_bytes (sha_pad m)) sha_init") (simp add: sha256_def)

interpretation sha256_digest: digest sha256 32
  by unfold_locales simp

end
