(* ===== verification/Merkle.thy ===== *)
theory Merkle
  imports Json Sha256
begin

text \<open>
  \<^verbatim>\<open>application/merkle.py\<close>: the leaf hash, the Merkle batch (\<open>close\<close>, \<open>proof_for\<close>), offline
  proof verification and the batch builder. The lemmas show that every proof of a closed batch
  verifies, that two proofs for one position and one root agree or exhibit a SHA-256 collision,
  how long proofs are, which leaf payloads can be confused, and the builder's invariant.
\<close>

section \<open>Leaf hash\<close>

definition leaf_payload :: "string \<Rightarrow> string \<Rightarrow> pyval \<Rightarrow> string \<Rightarrow> string list \<Rightarrow> string \<Rightarrow> string" where
  "leaf_payload decision_id metric_name val timestamp_iso evidence_refs idempotency_key =
     join ''|'' [decision_id, metric_name, canonical_json val, timestamp_iso,
                 join '','' (sorted_set evidence_refs), idempotency_key]"

definition compute_leaf_hash :: "string \<Rightarrow> string \<Rightarrow> pyval \<Rightarrow> string \<Rightarrow> string list \<Rightarrow> string \<Rightarrow> bytes" where
  "compute_leaf_hash decision_id metric_name val timestamp_iso evidence_refs idempotency_key =
     sha256 (utf8_encode (leaf_payload decision_id metric_name val timestamp_iso evidence_refs idempotency_key))"

section \<open>Merkle batch\<close>

definition hash_pair :: "bytes \<Rightarrow> bytes \<Rightarrow> bytes" where
  "hash_pair l r = sha256 (l @ r)"

record proof_step =
  sibling_hash :: bytes
  position :: string

record merkle_batch =
  leaves :: "bytes list"
  levels :: "bytes list list"

text \<open>One level up: \<^verbatim>\<open>[_hash_pair(level[i], level[i + 1]) for i in range(0, len(level), 2)]\<close>, on levels of even width.\<close>

fun pair_up :: "bytes list \<Rightarrow> bytes list" where
  "pair_up (a # b # xs) = hash_pair a b # pair_up xs"
| "pair_up _ = []"

definition pad_odd :: "bytes list \<Rightarrow> bytes list" where
  "pad_odd level = (if odd (length level) then level @ [last level] else level)"

lemma length_pair_up: "length (pair_up xs) = length xs div 2"
  by (induction xs rule: pair_up.induct) auto

lemma length_pad_odd: "length (pad_odd xs) = 2 * ((length xs + 1) div 2)"
  by (simp add: pad_odd_def)

function close_loop :: "bytes list \<Rightarrow> bytes list list \<Rightarrow> bytes list list \<times> bytes list" where
  "close_loop level lvls =
     (if 1 < length level
      then (let level = pad_odd level in close_loop (pair_up level) (lvls @ [level]))
      else (lvls @ [level], level))"
  by pat_completeness auto
termination
  by (relation "measure (\<lambda>(level, _). length level)") (auto simp: length_pair_up length_pad_odd)

declare close_loop.simps [simp del]

definition close :: "merkle_batch \<Rightarrow> (merkle_batch \<times> bytes) res" where
  "close b = (if leaves b = [] then Inl (ValueError ''cannot close an empty batch'')
     else case close_loop (leaves b) [] of (lvls, level) \<Rightarrow> Inr (b\<lparr>levels := lvls\<rparr>, level ! 0))"

fun proof_loop :: "bytes list list \<Rightarrow> nat \<Rightarrow> proof_step list res" where
  "proof_loop [] idx = Inr []"
| "proof_loop (level # lvls) idx =
     (let is_right = odd idx; sibling_idx = (if is_right then idx - 1 else idx + 1) in
      if sibling_idx < length level
      then rbind (proof_loop lvls (idx div 2))
             (\<lambda>steps. Inr (\<lparr>sibling_hash = level ! sibling_idx,
                            position = (if is_right then ''LEFT'' else ''RIGHT'')\<rparr> # steps))
      else Inl (IndexError (int sibling_idx)))"

definition proof_for :: "merkle_batch \<Rightarrow> int \<Rightarrow> proof_step list res" where
  "proof_for b leaf_index =
     (if levels b = [] then Inl (ValueError ''call close() before requesting a proof'')
      else if \<not> (0 \<le> leaf_index \<and> leaf_index < int (length (leaves b))) then Inl (IndexError leaf_index)
      else proof_loop (butlast (levels b)) (nat leaf_index))"

definition climb :: "bytes \<Rightarrow> proof_step \<Rightarrow> bytes" where
  "climb current step = (if position step = ''RIGHT'' then hash_pair current (sibling_hash step)
                         else hash_pair (sibling_hash step) current)"

definition verify_inclusion_proof :: "bytes \<Rightarrow> proof_step list \<Rightarrow> bytes \<Rightarrow> bool" where
  "verify_inclusion_proof leaf_hash steps expected_root = (foldl climb leaf_hash steps = expected_root)"

section \<open>Batch builder\<close>

record pending_leaf =
  pl_leaf_hash :: bytes
  pl_event_id :: string
  pl_decision_id :: string

record builder =
  max_leaves :: int
  max_seconds :: pyfloat
  pending :: "pending_leaf list"
  first_leaf_ts :: "pyfloat option"

definition new_builder :: "int \<Rightarrow> pyfloat \<Rightarrow> builder" where
  "new_builder n t = \<lparr>max_leaves = n, max_seconds = t, pending = [], first_leaf_ts = None\<rparr>"

definition add_leaf :: "builder \<Rightarrow> bytes \<Rightarrow> string \<Rightarrow> string \<Rightarrow> pyfloat \<Rightarrow> builder" where
  "add_leaf b leaf_hash event_id decision_id now_ts =
     b\<lparr>first_leaf_ts := (case first_leaf_ts b of None \<Rightarrow> Some now_ts | Some t \<Rightarrow> Some t),
       pending := pending b @ [\<lparr>pl_leaf_hash = leaf_hash, pl_event_id = event_id, pl_decision_id = decision_id\<rparr>]\<rparr>"

definition should_close :: "builder \<Rightarrow> pyfloat \<Rightarrow> bool" where
  "should_close b now_ts =
     (if pending b = [] then False
      else if max_leaves b \<le> int (length (pending b)) then True
      else case first_leaf_ts b of
        None \<Rightarrow> False
      | Some t0 \<Rightarrow> fle (max_seconds b) (fsub now_ts t0))"

definition has_pending :: "builder \<Rightarrow> bool" where
  "has_pending b = (pending b \<noteq> [])"

definition close_and_reset :: "builder \<Rightarrow> (builder \<times> merkle_batch \<times> bytes \<times> pending_leaf list) res" where
  "close_and_reset b =
     rbind (close \<lparr>leaves = map pl_leaf_hash (pending b), levels = []\<rparr>)
       (\<lambda>(batch, root). Inr (b\<lparr>pending := [], first_leaf_ts := None\<rparr>, batch, root, pending b))"

section \<open>The tree behind a closed batch\<close>

text \<open>The levels without the accumulator; the root is the single node of the last one.\<close>

function tree_levels :: "bytes list \<Rightarrow> bytes list list" where
  "tree_levels level =
     (if 1 < length level then pad_odd level # tree_levels (pair_up (pad_odd level)) else [level])"
  by pat_completeness auto
termination
  by (relation "measure length") (auto simp: length_pair_up length_pad_odd)

declare tree_levels.simps [simp del]

definition merkle_root :: "bytes list \<Rightarrow> bytes" where
  "merkle_root ls = hd (last (tree_levels ls))"

lemma tree_levels_nonempty [simp]: "tree_levels ls \<noteq> []"
  by (simp add: tree_levels.simps [of ls])

lemma tree_levels_step:
  "1 < length ls \<Longrightarrow> tree_levels ls = pad_odd ls # tree_levels (pair_up (pad_odd ls))"
  by (subst tree_levels.simps) simp

lemma tree_levels_single: "length ls \<le> 1 \<Longrightarrow> tree_levels ls = [ls]"
  by (subst tree_levels.simps) simp

lemma close_loop_tree: "close_loop level acc = (acc @ tree_levels level, last (tree_levels level))"
proof (induction level acc rule: close_loop.induct)
  case (1 level lvls)
  then show ?case
    by (cases "1 < length level")
       (simp_all add: close_loop.simps [of level] tree_levels_step tree_levels_single Let_def)
qed

lemma last_tree_levels: "ls \<noteq> [] \<Longrightarrow> last (tree_levels ls) = [merkle_root ls]"
proof (induction ls rule: tree_levels.induct)
  case (1 level)
  show ?case
  proof (cases "1 < length level")
    case True
    then have "pair_up (pad_odd level) \<noteq> []"
      using length_pair_up [of "pad_odd level"] by (auto simp: length_pad_odd)
    with 1 True show ?thesis by (simp add: merkle_root_def tree_levels_step)
  next
    case False
    with 1(2) show ?thesis by (cases level) (auto simp: merkle_root_def tree_levels_single)
  qed
qed

lemma close_eq:
  "leaves b \<noteq> [] \<Longrightarrow> close b = Inr (b\<lparr>levels := tree_levels (leaves b)\<rparr>, merkle_root (leaves b))"
  by (simp add: close_def close_loop_tree last_tree_levels)

lemma close_empty: "close b = Inl e \<longleftrightarrow> leaves b = [] \<and> e = ValueError ''cannot close an empty batch''"
  by (auto simp: close_def split: prod.splits)

section \<open>Every proof of a closed batch verifies\<close>

lemma nth_pair_up: "i < length xs div 2 \<Longrightarrow> pair_up xs ! i = hash_pair (xs ! (2 * i)) (xs ! (2 * i + 1))"
proof (induction xs arbitrary: i rule: pair_up.induct)
  case (1 a b xs)
  then show ?case by (cases i) auto
qed auto

lemma nth_pad_odd: "i < length xs \<Longrightarrow> pad_odd xs ! i = xs ! i"
  by (simp add: pad_odd_def nth_append)

lemma climb_step:
  assumes "i < length level" "1 < length level"
  defines "lv \<equiv> pad_odd level"
  defines "sib \<equiv> if odd i then i - 1 else i + 1"
  shows "sib < length lv"
    and "climb (level ! i) \<lparr>sibling_hash = lv ! sib, position = (if odd i then ''LEFT'' else ''RIGHT'')\<rparr>
         = pair_up lv ! (i div 2)"
    and "i div 2 < length (pair_up lv)"
proof -
  have len: "length lv = 2 * ((length level + 1) div 2)" by (simp add: lv_def length_pad_odd)
  show "sib < length lv"
  proof (cases "odd i")
    case True
    have "length level \<le> length lv" using len by linarith
    with True assms(1) show ?thesis by (simp add: sib_def)
  next
    case False
    then obtain k where k: "i = 2 * k" by (auto elim: evenE)
    with assms(1) have "k < (length level + 1) div 2" by linarith
    with k show ?thesis by (simp add: sib_def len)
  qed
  have i2: "i div 2 < length lv div 2" using assms(1) len by auto
  then show "i div 2 < length (pair_up lv)" by (simp add: length_pair_up)
  have here: "lv ! i = level ! i" using assms(1) by (simp add: lv_def nth_pad_odd)
  show "climb (level ! i) \<lparr>sibling_hash = lv ! sib, position = (if odd i then ''LEFT'' else ''RIGHT'')\<rparr>
         = pair_up lv ! (i div 2)"
  proof (cases "odd i")
    case True
    then have "2 * (i div 2) = i - 1" "2 * (i div 2) + 1 = i" by (auto elim: oddE)
    with True here i2 show ?thesis by (simp add: climb_def sib_def nth_pair_up)
  next
    case False
    then have "2 * (i div 2) = i" by (auto elim: evenE)
    with False here i2 show ?thesis by (simp add: climb_def sib_def nth_pair_up)
  qed
qed

lemma proof_loop_complete:
  assumes "i < length level"
  shows "\<exists>p. proof_loop (butlast (tree_levels level)) i = Inr p \<and>
             foldl climb (level ! i) p = merkle_root level"
  using assms
proof (induction level arbitrary: i rule: tree_levels.induct)
  case (1 level)
  show ?case
  proof (cases "1 < length level")
    case True
    let ?up = "pair_up (pad_odd level)"
    from 1(1) [OF True climb_step(3) [OF 1(2) True]] obtain p where
      p: "proof_loop (butlast (tree_levels ?up)) (i div 2) = Inr p"
         "foldl climb (?up ! (i div 2)) p = merkle_root ?up" by blast
    have "merkle_root level = merkle_root ?up"
      using True by (simp add: merkle_root_def tree_levels_step)
    with p climb_step(1,2) [OF 1(2) True] show ?thesis
      using True by (simp add: tree_levels_step Let_def)
  next
    case False
    with 1(2) show ?thesis
      using last_tree_levels [of level] by (cases level) (auto simp: tree_levels_single merkle_root_def)
  qed
qed

section \<open>Proofs determine their leaf, or exhibit a collision\<close>

text \<open>The byte strings \<open>climb\<close> hashes on the way from a leaf to the root.\<close>

definition step_input :: "bytes \<Rightarrow> proof_step \<Rightarrow> bytes" where
  "step_input current step = (if position step = ''RIGHT'' then current @ sibling_hash step
                              else sibling_hash step @ current)"

fun hash_inputs :: "bytes \<Rightarrow> proof_step list \<Rightarrow> bytes list" where
  "hash_inputs current [] = []"
| "hash_inputs current (step # steps) =
     step_input current step # hash_inputs (sha256 (step_input current step)) steps"

lemma length_hash_inputs [simp]: "length (hash_inputs c p) = length p"
  by (induction p arbitrary: c) auto

lemma climb_sha: "climb c s = sha256 (step_input c s)"
  by (simp add: climb_def hash_pair_def step_input_def)

lemma step_input_inj:
  assumes "step_input c s = step_input c' s'" "position s = position s'" "length c = length c'"
    "length (sibling_hash s) = length (sibling_hash s')"
  shows "c = c' \<and> sibling_hash s = sibling_hash s'"
  using assms by (cases "position s' = ''RIGHT''") (simp_all add: step_input_def)

lemma climb_binding:
  assumes "foldl climb l p = foldl climb l' p'" "map position p = map position p'"
    and "length l = 32" "length l' = 32"
    and "\<forall>s\<in>set p. length (sibling_hash s) = 32" "\<forall>s\<in>set p'. length (sibling_hash s) = 32"
  shows "(l = l' \<and> map sibling_hash p = map sibling_hash p') \<or>
         (\<exists>j < length p. collision sha256 (hash_inputs l p ! j) (hash_inputs l' p' ! j))"
  using assms
proof (induction p arbitrary: l l' p')
  case (Cons s p)
  obtain s' q where p': "p' = s' # q" using Cons.prems(2) by (cases p') auto
  let ?x = "step_input l s" and ?y = "step_input l' s'"
  have pos: "position s = position s'" using Cons.prems(2) by (simp add: p')
  have sib: "length (sibling_hash s) = 32" "length (sibling_hash s') = 32"
    using Cons.prems(5,6) by (simp_all add: p')
  have "(sha256 ?x = sha256 ?y \<and> map sibling_hash p = map sibling_hash q) \<or>
     (\<exists>j < length p. collision sha256 (hash_inputs (sha256 ?x) p ! j) (hash_inputs (sha256 ?y) q ! j))"
    by (rule Cons.IH) (use Cons.prems in \<open>simp_all add: p' climb_sha\<close>)
  then consider (eq) "sha256 ?x = sha256 ?y" "map sibling_hash p = map sibling_hash q"
    | (coll) j where "j < length p" "collision sha256 (hash_inputs (sha256 ?x) p ! j) (hash_inputs (sha256 ?y) q ! j)"
    by blast
  then show ?case
  proof cases
    case eq
    show ?thesis
    proof (cases "?x = ?y")
      case True
      with step_input_inj [OF True pos] Cons.prems(3,4) sib eq show ?thesis by (simp add: p')
    next
      case False
      with eq have "collision sha256 (hash_inputs l (s # p) ! 0) (hash_inputs l' p' ! 0)"
        by (simp add: collision_def p')
      then show ?thesis by (intro disjI2 exI [of _ 0]) simp
    qed
  next
    case coll
    then show ?thesis by (intro disjI2 exI [of _ "Suc j"]) (simp add: p')
  qed
qed simp

subsection \<open>Shape of proofs\<close>

text \<open>The side of each sibling depends only on the leaf index and the number of leaves.\<close>

lemma proof_loop_positions:
  "length level = length level' \<Longrightarrow>
   proof_loop (butlast (tree_levels level)) i = Inr p \<Longrightarrow>
   proof_loop (butlast (tree_levels level')) i = Inr p' \<Longrightarrow> map position p = map position p'"
proof (induction level arbitrary: level' i p p' rule: tree_levels.induct)
  case (1 level)
  show ?case
  proof (cases "1 < length level")
    case True
    let ?up = "pair_up (pad_odd level)" and ?up' = "pair_up (pad_odd level')"
    have len: "length ?up = length ?up'" using 1(2) by (simp add: length_pair_up length_pad_odd)
    obtain q q' where "proof_loop (butlast (tree_levels ?up)) (i div 2) = Inr q"
      "proof_loop (butlast (tree_levels ?up')) (i div 2) = Inr q'"
      "map position p = (if odd i then ''LEFT'' else ''RIGHT'') # map position q"
      "map position p' = (if odd i then ''LEFT'' else ''RIGHT'') # map position q'"
      using 1(2-) True by (auto simp: tree_levels_step Let_def rbind_eq_Inr split: if_splits)
    with 1(1) [OF True len] show ?thesis by simp
  next
    case False
    with 1(2-) show ?thesis by (simp add: tree_levels_single)
  qed
qed

lemma proof_loop_sides: "proof_loop lvls i = Inr p \<Longrightarrow> \<forall>s \<in> set p. position s = ''LEFT'' \<or> position s = ''RIGHT''"
  by (induction lvls arbitrary: i p) (fastforce simp: Let_def rbind_eq_Inr split: if_splits)+

lemma pair_up_length32: "\<forall>x\<in>set (pair_up xs). length x = 32"
  by (induction xs rule: pair_up.induct) (auto simp: hash_pair_def)

lemma proof_loop_siblings32:
  "\<forall>x\<in>set level. length x = 32 \<Longrightarrow> proof_loop (butlast (tree_levels level)) i = Inr p \<Longrightarrow>
   \<forall>s\<in>set p. length (sibling_hash s) = 32"
proof (induction level arbitrary: i p rule: tree_levels.induct)
  case (1 level)
  show ?case
  proof (cases "1 < length level")
    case True
    have all: "\<forall>x\<in>set (pad_odd level). length x = 32"
      using 1(2) True by (cases level rule: rev_cases) (auto simp: pad_odd_def)
    from 1(3) True obtain q k where q: "proof_loop (butlast (tree_levels (pair_up (pad_odd level)))) (i div 2) = Inr q"
      "k < length (pad_odd level)" "map sibling_hash p = pad_odd level ! k # map sibling_hash q"
      by (auto simp: tree_levels_step Let_def rbind_eq_Inr split: if_splits)
    have "\<forall>s\<in>set q. length (sibling_hash s) = 32" using 1(1) [OF True pair_up_length32 q(1)] .
    then have "\<forall>h\<in>set (map sibling_hash p). length h = 32" using all q by auto
    then show ?thesis by simp
  next
    case False
    with 1(3) show ?thesis by (simp add: tree_levels_single)
  qed
qed

lemma proof_loop_length:
  "proof_loop lvls i = Inr p \<Longrightarrow> length p = length lvls"
  by (induction lvls arbitrary: i p) (auto simp: Let_def rbind_eq_Inr split: if_splits)

lemma tree_height:
  "ls \<noteq> [] \<Longrightarrow> h = length (butlast (tree_levels ls)) \<Longrightarrow> length ls \<le> 2 ^ h \<and> (0 < h \<longrightarrow> 2 ^ (h - 1) < length ls)"
proof (induction ls arbitrary: h rule: tree_levels.induct)
  case (1 level)
  show ?case
  proof (cases "1 < length level")
    case True
    let ?up = "pair_up (pad_odd level)"
    define g where "g = length (butlast (tree_levels ?up))"
    have len: "length ?up = (length level + 1) div 2" by (simp add: length_pair_up length_pad_odd)
    have "?up \<noteq> []" using True len by auto
    from 1(1) [OF True this g_def] len
    have up: "(length level + 1) div 2 \<le> 2 ^ g" "0 < g \<longrightarrow> 2 ^ (g - 1) < (length level + 1) div 2" by auto
    have h: "h = Suc g" using 1(3) True by (simp add: tree_levels_step g_def)
    show ?thesis
    proof (cases g)
      case 0
      with up True h show ?thesis by auto
    next
      case (Suc k)
      with up h show ?thesis by auto
    qed
  next
    case False
    with 1(2,3) show ?thesis by (cases level) (auto simp: tree_levels_single)
  qed
qed

subsection \<open>A level of odd width and the same level with its last node repeated\<close>

lemma pad_odd_snoc_last: "odd (length ls) \<Longrightarrow> pad_odd (ls @ [last ls]) = pad_odd ls"
  by (simp add: pad_odd_def)

lemma merkle_root_duplicate_last:
  assumes "odd (length ls)" "1 < length ls"
  shows "merkle_root (ls @ [last ls]) = merkle_root ls"
proof -
  have "1 < length (ls @ [last ls])" using assms(2) by (cases ls) auto
  from tree_levels_step [OF this] tree_levels_step [OF assms(2)] pad_odd_snoc_last [OF assms(1)]
  show ?thesis by (simp add: merkle_root_def)
qed

section \<open>Which payloads a leaf hash separates\<close>

lemma append_sep_inj_right:
  assumes "xs @ c # ys = xs' @ c # ys'" "c \<notin> set ys" "c \<notin> set ys'"
  shows "xs = xs' \<and> ys = ys'"
proof -
  have "rev ys @ c # rev xs = rev ys' @ c # rev xs'"
    using arg_cong [OF assms(1), of rev] by simp
  from append_sep_inj [OF this] assms(2,3) show ?thesis by simp
qed

lemma leaf_payload_eq:
  "leaf_payload d m v t refs k =
     d @ CHR ''|'' # m @ CHR ''|'' #
     ((canonical_json v @ CHR ''|'' # t) @ CHR ''|'' # join '','' (sorted_set refs)) @ CHR ''|'' # k"
  by (simp add: leaf_payload_def)

lemma set_join: "set (join sep ps) \<subseteq> set sep \<union> \<Union> (set ` set ps)"
  by (induction sep ps rule: join.induct) auto

lemma leaf_payload_inj:
  assumes eq: "leaf_payload d m v t refs k = leaf_payload d' m' v' t' refs' k'"
    and bar: "\<forall>s \<in> {d, m, t, k, d', m', t', k'} \<union> set refs \<union> set refs'. CHR ''|'' \<notin> set s"
    and comma: "\<forall>s \<in> set refs \<union> set refs'. CHR '','' \<notin> set s"
    and ne: "refs \<noteq> []" "refs' \<noteq> []"
  shows "d = d' \<and> m = m' \<and> canonical_json v = canonical_json v' \<and> t = t' \<and> set refs = set refs' \<and> k = k'"
proof -
  let ?b = "CHR ''|''"
  let ?r = "join '','' (sorted_set refs)" and ?r' = "join '','' (sorted_set refs')"
  have br: "?b \<notin> set ?r" "?b \<notin> set ?r'"
    using set_join [of "'',''" "sorted_set refs"] set_join [of "'',''" "sorted_set refs'"] bar by auto
  from append_sep_inj [OF eq [unfolded leaf_payload_eq]] bar
  have 1: "d = d'" and e1: "m @ ?b # ((canonical_json v @ ?b # t) @ ?b # ?r) @ ?b # k =
      m' @ ?b # ((canonical_json v' @ ?b # t') @ ?b # ?r') @ ?b # k'" by auto
  from append_sep_inj [OF e1] bar
  have 2: "m = m'" and e2: "((canonical_json v @ ?b # t) @ ?b # ?r) @ ?b # k =
      ((canonical_json v' @ ?b # t') @ ?b # ?r') @ ?b # k'" by auto
  from append_sep_inj_right [OF e2] bar
  have 3: "k = k'" and e3: "(canonical_json v @ ?b # t) @ ?b # ?r = (canonical_json v' @ ?b # t') @ ?b # ?r'" by auto
  from append_sep_inj_right [OF e3] br
  have e4: "canonical_json v @ ?b # t = canonical_json v' @ ?b # t'" and e5: "?r = ?r'" by auto
  from append_sep_inj_right [OF e4] bar have 4: "canonical_json v = canonical_json v'" "t = t'" by auto
  have "sorted_set refs = sorted_set refs'"
    by (rule join_inj_no_sep [OF e5]) (use comma ne in auto)
  then have "set refs = set refs'" using set_sorted_set by metis
  with 1 2 3 4 show ?thesis by simp
qed

lemma leaf_payload_cong:
  "set refs = set refs' \<Longrightarrow> json_perm v v' \<Longrightarrow> leaf_payload d m v t refs k = leaf_payload d m v' t refs' k"
  using sorted_set_cong [of refs refs'] json_dumps_perm [of v v' canonical_opts]
  by (simp add: leaf_payload_def canonical_json_def canonical_opts_def)

section \<open>Builder\<close>

text \<open>The clock of the open batch runs exactly while there is something pending.\<close>

definition builder_ok :: "builder \<Rightarrow> bool" where
  "builder_ok b = ((first_leaf_ts b = None) = (pending b = []))"

lemma builder_ok_new: "builder_ok (new_builder n t)"
  by (simp add: builder_ok_def new_builder_def)

lemma builder_ok_add_leaf: "builder_ok (add_leaf b h e d ts)"
  by (simp add: builder_ok_def add_leaf_def split: option.splits)

lemma close_and_reset_eq:
  "pending b \<noteq> [] \<Longrightarrow> close_and_reset b = Inr (b\<lparr>pending := [], first_leaf_ts := None\<rparr>,
     \<lparr>leaves = map pl_leaf_hash (pending b), levels = tree_levels (map pl_leaf_hash (pending b))\<rparr>,
     merkle_root (map pl_leaf_hash (pending b)), pending b)"
  by (simp add: close_and_reset_def close_eq)

lemma close_and_reset_empty:
  "pending b = [] \<Longrightarrow> close_and_reset b = Inl (ValueError ''cannot close an empty batch'')"
  by (simp add: close_and_reset_def close_def)

lemma builder_ok_close: "close_and_reset b = Inr (b', r) \<Longrightarrow> builder_ok b'"
  by (cases "pending b = []") (auto simp: close_and_reset_eq close_and_reset_empty builder_ok_def)

lemmas builder_ok_intros = builder_ok_new builder_ok_add_leaf builder_ok_close

lemma close_proof_exists:
  assumes "i < length (leaves b)"
  shows "\<exists>b' rt p. close b = Inr (b', rt) \<and> leaves b' = leaves b \<and>
    proof_for b' (int i) = Inr p \<and> verify_inclusion_proof (leaves b ! i) p rt"
proof -
  have "leaves b \<noteq> []" using assms by auto
  moreover obtain p where "proof_loop (butlast (tree_levels (leaves b))) i = Inr p"
    "foldl climb (leaves b ! i) p = merkle_root (leaves b)"
    using proof_loop_complete [OF assms] by blast
  ultimately show ?thesis
    using assms by (simp add: close_eq proof_for_def verify_inclusion_proof_def)
qed

section \<open>Properties\<close>

text \<open>C9: closing a non-empty batch never fails, and afterwards every leaf index has an
  inclusion proof that verifies offline against the root that closing returned.\<close>

theorem inclusion_complete:
  assumes "i < length (leaves b)"
  shows "\<exists>b' rt p. close b = Inr (b', rt) \<and> leaves b' = leaves b \<and>
    proof_for b' (int i) = Inr p \<and> verify_inclusion_proof (leaves b ! i) p rt"
  using close_proof_exists [OF assms] .

theorem inclusion_complete_witness:
  "\<exists>b' rt p. close \<lparr>leaves = [[1], [2], [3]], levels = []\<rparr> = Inr (b', rt) \<and> leaves b' = [[1], [2], [3]] \<and>
     proof_for b' 2 = Inr p \<and> verify_inclusion_proof [3] p rt"
  using inclusion_complete [of 2 "\<lparr>leaves = [[1], [2], [3]], levels = []\<rparr>"] by simp

text \<open>C10: tamper evidence. If two leaves, each with its own sibling hashes but for the same
  path positions, verify against the same root, then leaves and siblings are the same, or two
  different byte strings that verification hashed at one of the steps are a SHA-256 collision.
  Nothing is assumed about SHA-256: the collision is located.\<close>

theorem position_binding:
  assumes "verify_inclusion_proof l p rt" "verify_inclusion_proof l' p' rt"
    and "map position p = map position p'" "length l = 32" "length l' = 32"
    and "\<forall>s \<in> set p \<union> set p'. length (sibling_hash s) = 32"
  shows "(l = l' \<and> map sibling_hash p = map sibling_hash p') \<or>
         (\<exists>j < length p. collision sha256 (hash_inputs l p ! j) (hash_inputs l' p' ! j))"
  using climb_binding [of l p l' p'] assms by (simp add: verify_inclusion_proof_def ball_Un)

theorem position_binding_witness:
  "(replicate 32 (1 :: byte) = replicate 32 1 \<and> [replicate 32 (2 :: byte)] = [replicate 32 2]) \<or>
   (\<exists>j < 1. collision sha256
      (hash_inputs (replicate 32 1) [\<lparr>sibling_hash = replicate 32 2, position = ''LEFT''\<rparr>] ! j)
      (hash_inputs (replicate 32 1) [\<lparr>sibling_hash = replicate 32 2, position = ''LEFT''\<rparr>] ! j))"
  using position_binding [of "replicate 32 1" "[\<lparr>sibling_hash = replicate 32 2, position = ''LEFT''\<rparr>]"
      "climb (replicate 32 1) \<lparr>sibling_hash = replicate 32 2, position = ''LEFT''\<rparr>"
      "replicate 32 1" "[\<lparr>sibling_hash = replicate 32 2, position = ''LEFT''\<rparr>]"]
  by (simp add: verify_inclusion_proof_def)

text \<open>C11: a root binds the whole batch of a given size. Two closed batches with equally many
  32-byte leaves and the same root have the same leaves, or the inclusion proofs of some
  index in the two batches contain a SHA-256 collision.\<close>

theorem root_binding:
  assumes "close b = Inr (c, rt)" "close b' = Inr (c', rt)"
    and len: "length (leaves b) = length (leaves b')"
    and "\<forall>l \<in> set (leaves b) \<union> set (leaves b'). length l = 32"
  shows "leaves b = leaves b' \<or>
    (\<exists>i p p' j. proof_for c (int i) = Inr p \<and> proof_for c' (int i) = Inr p' \<and> j < length p \<and>
       collision sha256 (hash_inputs (leaves b ! i) p ! j) (hash_inputs (leaves b' ! i) p' ! j))"
proof (cases "leaves b = leaves b'")
  case False
  then obtain i where i: "i < length (leaves b)" "leaves b ! i \<noteq> leaves b' ! i"
    using len by (auto simp: list_eq_iff_nth_eq)
  have ne: "leaves b \<noteq> []" "leaves b' \<noteq> []" using i(1) len by auto
  from assms(1,2) ne have c: "c = b\<lparr>levels := tree_levels (leaves b)\<rparr>" "rt = merkle_root (leaves b)"
    "c' = b'\<lparr>levels := tree_levels (leaves b')\<rparr>" "rt = merkle_root (leaves b')"
    by (simp_all add: close_eq)
  obtain p where p: "proof_loop (butlast (tree_levels (leaves b))) i = Inr p"
    "foldl climb (leaves b ! i) p = rt" using proof_loop_complete [OF i(1)] c by auto
  obtain p' where p': "proof_loop (butlast (tree_levels (leaves b'))) i = Inr p'"
    "foldl climb (leaves b' ! i) p' = rt" using proof_loop_complete [of i "leaves b'"] i(1) len c by auto
  have "map position p = map position p'" by (rule proof_loop_positions [OF len p(1) p'(1)])
  moreover have "\<forall>s\<in>set p. length (sibling_hash s) = 32" "\<forall>s\<in>set p'. length (sibling_hash s) = 32"
    using proof_loop_siblings32 [OF _ p(1)] proof_loop_siblings32 [OF _ p'(1)] assms(4) by auto
  ultimately obtain j where "j < length p"
    "collision sha256 (hash_inputs (leaves b ! i) p ! j) (hash_inputs (leaves b' ! i) p' ! j)"
    using climb_binding [of "leaves b ! i" p "leaves b' ! i" p'] p p' i len assms(4) by auto
  moreover have "proof_for c (int i) = Inr p" "proof_for c' (int i) = Inr p'"
    using p(1) p'(1) i(1) len by (simp_all add: c proof_for_def)
  ultimately show ?thesis by blast
qed simp

theorem root_binding_witness:
  "[replicate 32 (7 :: byte)] = [replicate 32 7] \<or>
    (\<exists>i p p' j. proof_for \<lparr>leaves = [replicate 32 7], levels = [[replicate 32 7]]\<rparr> (int i) = Inr p \<and>
       proof_for \<lparr>leaves = [replicate 32 7], levels = [[replicate 32 7]]\<rparr> (int i) = Inr p' \<and> j < length p \<and>
       collision sha256 (hash_inputs ([replicate 32 7] ! i) p ! j) (hash_inputs ([replicate 32 7] ! i) p' ! j))"
proof -
  have "close \<lparr>leaves = [replicate 32 7], levels = []\<rparr> =
      Inr (\<lparr>leaves = [replicate 32 7], levels = [[replicate 32 7]]\<rparr>, replicate 32 7)"
    by (simp add: close_def close_loop.simps)
  from root_binding [OF this this] show ?thesis by simp
qed

text \<open>Proof size. For a closed batch of \<open>n\<close> leaves every inclusion proof has exactly
  \<open>\<lceil>log 2 n\<rceil>\<close> steps: \<open>n \<le> 2 ^ h\<close>, and \<open>2 ^ (h - 1) < n\<close> when there is a step at all.\<close>

theorem proof_length_logarithmic:
  assumes "close b = Inr (c, rt)" "proof_for c i = Inr p"
  shows "length (leaves b) \<le> 2 ^ length p \<and> (0 < length p \<longrightarrow> 2 ^ (length p - 1) < length (leaves b))"
proof -
  have ne: "leaves b \<noteq> []" using assms(1) by (auto simp: close_def)
  with assms have "proof_loop (butlast (tree_levels (leaves b))) (nat i) = Inr p"
    by (auto simp: close_eq proof_for_def split: if_splits)
  from proof_loop_length [OF this] show ?thesis by (intro tree_height [OF ne]) simp
qed

theorem proof_length_logarithmic_witness:
  "\<exists>c rt p. close \<lparr>leaves = [[1], [2], [3]], levels = []\<rparr> = Inr (c, rt) \<and> proof_for c 0 = Inr p \<and>
     3 \<le> (2 :: nat) ^ length p \<and> (0 < length p \<longrightarrow> 2 ^ (length p - 1) < (3 :: nat))"
proof -
  obtain c rt p where "close \<lparr>leaves = [[1], [2], [3]], levels = []\<rparr> = Inr (c, rt)" "proof_for c (int 0) = Inr p"
    using close_proof_exists [of 0 "\<lparr>leaves = [[1], [2], [3]], levels = []\<rparr>"] by auto
  with proof_length_logarithmic [OF this] show ?thesis by auto
qed

text \<open>The standard padding makes batches of different size share a root. A batch with an odd
  number of leaves (at least three) and the batch with its last leaf repeated close to the same
  root, so the root alone does not determine the number of leaves, and an anchored root also
  authenticates a history in which the last leaf occurs twice.\<close>

theorem duplicated_last_leaf_same_root:
  assumes "odd (length ls)" "1 < length ls"
  shows "map_sum id snd (close \<lparr>leaves = ls @ [last ls], levels = []\<rparr>) =
         map_sum id snd (close \<lparr>leaves = ls, levels = []\<rparr>)"
proof -
  have "ls \<noteq> []" using assms by auto
  then show ?thesis using merkle_root_duplicate_last [OF assms] by (simp add: close_eq)
qed

theorem duplicated_last_leaf_same_root_witness:
  "map_sum id snd (close \<lparr>leaves = [[1], [2], [3], [3]], levels = []\<rparr>) =
   map_sum id snd (close \<lparr>leaves = [[1], [2], [3]], levels = []\<rparr>)"
  using duplicated_last_leaf_same_root [of "[[1], [2], [3]]"] by simp

text \<open>C38: the leaf hash is canonical. Reordering or repeating evidence references, and reordering
  the entries of dictionaries at any depth of the metric value, does not change it.\<close>

theorem leaf_hash_canonical:
  assumes "set refs = set refs'" "json_perm v v'"
  shows "compute_leaf_hash d m v t refs k = compute_leaf_hash d m v' t refs' k"
  using leaf_payload_cong [OF assms] by (simp add: compute_leaf_hash_def)

theorem leaf_hash_canonical_witness:
  "compute_leaf_hash ''d'' ''m'' (PDict [(''a'', PInt 1), (''b'', PNone)]) ''t'' [''e2'', ''e1'', ''e2''] ''k'' =
   compute_leaf_hash ''d'' ''m'' (PDict [(''b'', PNone), (''a'', PInt 1)]) ''t'' [''e1'', ''e2''] ''k''"
proof (rule leaf_hash_canonical)
  show "json_perm (PDict [(''a'', PInt 1), (''b'', PNone)]) (PDict [(''b'', PNone), (''a'', PInt 1)])"
    by (rule json_perm.dict [where lws = "[(''a'', PInt 1), (''b'', PNone)]"])
       (auto intro: json_perm.refl)
qed auto

text \<open>C39: the leaf hash separates metrics whose identifiers avoid the separators. When no
  identifier, timestamp, key or evidence reference contains a bar and no reference contains a
  comma, equal leaf hashes mean the same decision, metric, serialised value, timestamp, evidence
  set and idempotency key, or the two payloads are a SHA-256 collision.\<close>

theorem leaf_hash_separates:
  assumes "compute_leaf_hash d m v t refs k = compute_leaf_hash d' m' v' t' refs' k'"
    and "\<forall>s \<in> {d, m, t, k, d', m', t', k'} \<union> set refs \<union> set refs'. CHR ''|'' \<notin> set s"
    and "\<forall>s \<in> set refs \<union> set refs'. CHR '','' \<notin> set s" and "refs \<noteq> []" "refs' \<noteq> []"
  shows "(d = d' \<and> m = m' \<and> canonical_json v = canonical_json v' \<and> t = t' \<and> set refs = set refs' \<and> k = k') \<or>
     collision sha256 (utf8_encode (leaf_payload d m v t refs k)) (utf8_encode (leaf_payload d' m' v' t' refs' k'))"
proof (cases "leaf_payload d m v t refs k = leaf_payload d' m' v' t' refs' k'")
  case True
  from leaf_payload_inj [OF this assms(2-)] show ?thesis by blast
next
  case False
  then show ?thesis using assms(1) by (simp add: compute_leaf_hash_def collision_def utf8_encode_inj)
qed

theorem leaf_hash_separates_witness:
  "(''d'' = ''d'' \<and> ''m'' = ''m'' \<and> canonical_json PNone = canonical_json PNone \<and> ''t'' = ''t'' \<and>
      set [''e2'', ''e1''] = set [''e1'', ''e2''] \<and> ''k'' = ''k'') \<or>
   collision sha256 (utf8_encode (leaf_payload ''d'' ''m'' PNone ''t'' [''e2'', ''e1''] ''k''))
     (utf8_encode (leaf_payload ''d'' ''m'' PNone ''t'' [''e1'', ''e2''] ''k''))"
proof (rule leaf_hash_separates)
  show "compute_leaf_hash ''d'' ''m'' PNone ''t'' [''e2'', ''e1''] ''k'' =
        compute_leaf_hash ''d'' ''m'' PNone ''t'' [''e1'', ''e2''] ''k''"
    unfolding compute_leaf_hash_def by (subst leaf_payload_cong [OF _ json_perm.refl]) auto
qed auto

text \<open>Without that restriction the payload is ambiguous. A bar inside a decision id and the
  same bar inside the metric name give one and the same leaf hash for two different metrics, and
  so do one evidence reference with a comma and the two references around it.\<close>

theorem leaf_hash_ambiguous:
  "compute_leaf_hash (a @ ''|'' @ b) c v t refs k = compute_leaf_hash a (b @ ''|'' @ c) v t refs k \<and>
   (x < y \<longrightarrow> compute_leaf_hash a b v t [x @ '','' @ y] k = compute_leaf_hash a b v t [x, y] k)"
proof -
  have "sorted_set [x, y] = [x, y]" if "x < y"
    using that by (simp add: sorted_set_def sorted_sort_id less_imp_le)
  then show ?thesis by (simp add: compute_leaf_hash_def leaf_payload_def sorted_set_def)
qed

theorem leaf_hash_ambiguous_witness:
  "compute_leaf_hash ''loan|7'' ''score'' PNone ''t'' [''e''] ''k'' =
     compute_leaf_hash ''loan'' ''7|score'' PNone ''t'' [''e''] ''k'' \<and>
   compute_leaf_hash ''loan'' ''score'' PNone ''t'' [''a,b''] ''k'' =
     compute_leaf_hash ''loan'' ''score'' PNone ''t'' [''a'', ''b''] ''k''"
  using leaf_hash_ambiguous [of "''loan''" "''7''" "''score''" PNone "''t''" "[''e'']" "''k''" "''a''" "''b''"]
    leaf_hash_ambiguous [of "''loan''" "''score''" "''c''" PNone "''t''" "[''e'']" "''k''" "''a''" "''b''"]
  by (simp add: less_char_def)

end
