(* ===== verification/CommandHandler.thy ===== *)
theory CommandHandler
  imports AuditTrail Adapters Registries Merkle
begin

text \<open>
  \<^verbatim>\<open>application/command_handler.py\<close> and \<^verbatim>\<open>application/event_dispatcher.py\<close>: the write side.
  The state is the audit trail behind its port, the shared batch builder and the staging area.
  Every handler returns the state it leaves behind together with its result, so that an exception in
  the middle keeps what was done before it. The clock reading of a call and the identifiers that its
  appends draw are arguments. The lemmas about commits are proved once from the contract
  \<open>audit_trail\<close> and used through its interpretation.
\<close>

section \<open>State and commands\<close>

type_synonym staging = "((string \<times> string) \<times> pydict) list"

record 'a core =
  co_audit :: 'a
  co_merkle :: builder
  co_staging :: staging

record update_metric_command =
  um_decision_id :: string
  um_metric_name :: string
  um_value :: pyval
  um_idempotency_key :: string
  um_evidence_refs :: "string list"
  um_proposed_by :: string
  um_runtime_context :: pyval

record update_metric_result =
  ur_status :: update_metric_status
  ur_leaf_hash :: "string option"

definition new_core :: "'a \<Rightarrow> builder \<Rightarrow> 'a core" where
  "new_core a b = \<lparr>co_audit = a, co_merkle = b, co_staging = []\<rparr>"

definition audit_append ::
    "'a audit_ops \<Rightarrow> string \<Rightarrow> 'a core \<Rightarrow> string \<Rightarrow> string \<Rightarrow> pydict \<Rightarrow> string option \<Rightarrow> ('a core, append_result) sres" where
  "audit_append ops i c decision_id event_type payload idempotency_key =
     (case op_append ops i (co_audit c) decision_id event_type payload idempotency_key of
        (a, r) \<Rightarrow> (c\<lparr>co_audit := a\<rparr>, r))"

section \<open>The commit path\<close>

definition committed_payload ::
    "string \<Rightarrow> string \<Rightarrow> pyval \<Rightarrow> string list \<Rightarrow> string \<Rightarrow> string \<Rightarrow> string \<Rightarrow> pyval \<Rightarrow> pydict" where
  "committed_payload decision_id metric_name val evidence_refs idempotency_key leaf_hash ts_iso proposed_by =
     [(''decision_id'', PStr decision_id), (''metric_name'', PStr metric_name), (''value'', val),
      (''evidence_refs'', PList (map PStr (sort evidence_refs))), (''idempotency_key'', PStr idempotency_key),
      (''leaf_hash'', PStr leaf_hash), (''committed_at'', PStr ts_iso), (''proposed_by'', proposed_by)]"

definition commit_leaf :: "datetime \<Rightarrow> string \<Rightarrow> string \<Rightarrow> pyval \<Rightarrow> string list \<Rightarrow> string \<Rightarrow> bytes" where
  "commit_leaf now decision_id metric_name val evidence_refs idempotency_key =
     compute_leaf_hash decision_id metric_name val (isoformat_ms now) evidence_refs idempotency_key"

definition commit ::
    "'a audit_ops \<Rightarrow> datetime \<Rightarrow> string \<Rightarrow> 'a core \<Rightarrow> string \<Rightarrow> string \<Rightarrow> pyval \<Rightarrow> string list \<Rightarrow> string \<Rightarrow> pyval
     \<Rightarrow> ('a core, update_metric_result) sres" where
  "commit ops now i c decision_id metric_name val evidence_refs idempotency_key proposed_by =
     (let ts_iso = isoformat_ms now;
          leaf_hash = to_hex (commit_leaf now decision_id metric_name val evidence_refs idempotency_key) in
      sbind (audit_append ops i c decision_id ''MetricCommitted''
               (committed_payload decision_id metric_name val evidence_refs idempotency_key leaf_hash ts_iso proposed_by)
               (Some idempotency_key))
        (\<lambda>c result.
           if ar_deduplicated result then (c, Inr \<lparr>ur_status = DUPLICATE_IGNORED, ur_leaf_hash = None\<rparr>)
           else case fromhex leaf_hash of
             Inl e \<Rightarrow> (c, Inl e)
           | Inr leaf \<Rightarrow>
               (let key = (decision_id, metric_name) in
                (c\<lparr>co_merkle := add_leaf (co_merkle c) leaf (ar_event_id result) decision_id (timestamp now),
                   co_staging := AList.update key
                     (dict_update (dict_get (co_staging c) key [])
                        [(''status'', PStr (metric_status_value MS_COMMITTED)), (''leaf_hash'', PStr leaf_hash)])
                     (co_staging c)\<rparr>,
                 Inr \<lparr>ur_status = ACCEPTED, ur_leaf_hash = Some leaf_hash\<rparr>)))
        (\<lambda>c. c))"

definition rejected_payload :: "datetime \<Rightarrow> string \<Rightarrow> string \<Rightarrow> pyval \<Rightarrow> pydict" where
  "rejected_payload now decision_id metric_name idempotency_key =
     [(''decision_id'', PStr decision_id), (''metric_name'', PStr metric_name), (''idempotency_key'', idempotency_key),
      (''reason'', PStr ''MISSING_EVIDENCE''), (''occurred_at'', PStr (isoformat_ms now))]"

definition handle_update_metric ::
    "'a audit_ops \<Rightarrow> datetime \<Rightarrow> string \<Rightarrow> 'a core \<Rightarrow> update_metric_command \<Rightarrow> ('a core, update_metric_result) sres" where
  "handle_update_metric ops now i c cmd =
     (if um_evidence_refs cmd = [] then
        sbind (audit_append ops i c (um_decision_id cmd) ''MetricRejected''
                 (rejected_payload now (um_decision_id cmd) (um_metric_name cmd) (PStr (um_idempotency_key cmd))) None)
          (\<lambda>c _. (c, Inr \<lparr>ur_status = REJECTED_MISSING_EVIDENCE, ur_leaf_hash = None\<rparr>)) (\<lambda>c. c)
      else commit ops now i c (um_decision_id cmd) (um_metric_name cmd) (um_value cmd) (um_evidence_refs cmd)
             (um_idempotency_key cmd) (PStr (um_proposed_by cmd)))"

section \<open>Lifecycle events\<close>

text \<open>Reading a bus payload: the staging key \<^verbatim>\<open>(payload["decision_id"], payload["metric_name"])\<close>, and an argument
  that the callee declares as \<^verbatim>\<open>str\<close> or \<^verbatim>\<open>list[str]\<close>.\<close>

definition staging_key :: "pydict \<Rightarrow> (string \<times> string) res" where
  "staging_key payload =
     rbind (getitem payload ''decision_id'') (\<lambda>d. rbind (getitem payload ''metric_name'') (\<lambda>m.
     rbind (as_key d) (\<lambda>d. rbind (as_key m) (\<lambda>m. Inr (d, m)))))"

definition str_arg :: "pyval \<Rightarrow> string res" where
  "str_arg v = (case v of PStr s \<Rightarrow> Inr s | _ \<Rightarrow> Inl (IllTyped ''str argument''))"

definition str_list_arg :: "pyval \<Rightarrow> string list res" where
  "str_list_arg v = (case v of PList vs \<Rightarrow> rmap str_arg vs | _ \<Rightarrow> Inl (IllTyped ''list[str] argument''))"

fun truthy :: "pyval \<Rightarrow> bool" where
  "truthy PNone = False"
| "truthy (PBool b) = b"
| "truthy (PInt i) = (i \<noteq> 0)"
| "truthy (PFloat x) = (\<not> is_zero x)"
| "truthy (PStr s) = (s \<noteq> [])"
| "truthy (PList vs) = (vs \<noteq> [])"
| "truthy (PDict kvs) = (kvs \<noteq> [])"

text \<open>The lifecycle handlers share this shape: compute the key, rewrite its staging entry, append the payload.\<close>

definition stage_and_append ::
    "'a audit_ops \<Rightarrow> string \<Rightarrow> 'a core \<Rightarrow> string \<Rightarrow> (pydict \<Rightarrow> pydict) \<Rightarrow> pydict \<Rightarrow> ('a core, string \<times> string) sres" where
  "stage_and_append ops i c event_type stage payload =
     (case staging_key payload of
        Inl e \<Rightarrow> (c, Inl e)
      | Inr key \<Rightarrow>
          (let c = c\<lparr>co_staging := AList.update key (stage (dict_get (co_staging c) key [])) (co_staging c)\<rparr> in
           sbind (audit_append ops i c (fst key) event_type payload None) (\<lambda>c _. (c, Inr key)) (\<lambda>c. c)))"

definition done_unit :: "('s, 'a) sres \<Rightarrow> ('s, unit) sres" where
  "done_unit m = sbind m (\<lambda>s _. (s, Inr ())) (\<lambda>s. s)"

definition on_metric_proposed :: "'a audit_ops \<Rightarrow> string \<Rightarrow> 'a core \<Rightarrow> pydict \<Rightarrow> ('a core, unit) sres" where
  "on_metric_proposed ops i c payload =
     done_unit (stage_and_append ops i c ''MetricProposed''
       (\<lambda>_. AList.update ''status'' (PStr (metric_status_value MS_PROPOSED)) payload) payload)"

definition on_debate_outcome :: "'a audit_ops \<Rightarrow> string \<Rightarrow> 'a core \<Rightarrow> pydict \<Rightarrow> ('a core, unit) sres" where
  "on_debate_outcome ops i c payload =
     done_unit (stage_and_append ops i c ''DebateOutcome''
       (\<lambda>st. AList.update ''status'' (PStr (metric_status_value MS_DEBATED)) (dict_update st payload)) payload)"

definition on_risk_signal :: "'a audit_ops \<Rightarrow> string \<Rightarrow> 'a core \<Rightarrow> pydict \<Rightarrow> ('a core, unit) sres" where
  "on_risk_signal ops i c payload =
     done_unit (stage_and_append ops i c ''RiskSignal''
       (\<lambda>st. AList.update ''risk_level'' (dict_get payload ''risk_level'' PNone)
               (AList.update ''status'' (PStr (metric_status_value MS_CRITIQUED)) st)) payload)"

text \<open>Two appends, hence two identifiers: the event itself, then the rejection or the commit.\<close>

definition on_reconciled_decision ::
    "'a audit_ops \<Rightarrow> datetime \<Rightarrow> string \<Rightarrow> string \<Rightarrow> 'a core \<Rightarrow> pydict \<Rightarrow> ('a core, unit) sres" where
  "on_reconciled_decision ops now i j c payload =
     sbind (stage_and_append ops i c ''ReconciledDecision''
              (\<lambda>st. AList.update ''status'' (PStr (metric_status_value MS_RECONCILED)) (dict_update st payload)) payload)
       (\<lambda>c (decision_id, metric_name).
          let evidence_refs = dict_get payload ''evidence_refs'' (PList []) in
          if \<not> truthy evidence_refs then
            (case getitem payload ''idempotency_key'' of
               Inl e \<Rightarrow> (c, Inl e)
             | Inr k \<Rightarrow> done_unit (audit_append ops j c decision_id ''MetricRejected''
                          (rejected_payload now decision_id metric_name k) None))
          else
            (case rbind (getitem payload ''final_value'') (\<lambda>v.
                  rbind (getitem payload ''idempotency_key'') (\<lambda>k.
                  rbind (str_list_arg evidence_refs) (\<lambda>refs.
                  rbind (str_arg k) (\<lambda>k. Inr (v, refs, k))))) of
               Inl e \<Rightarrow> (c, Inl e)
             | Inr (v, refs, k) \<Rightarrow>
                 done_unit (commit ops now j c decision_id metric_name v refs k
                              (dict_get payload ''proposed_by'' (PStr ''reconciliation'')))))
       (\<lambda>c. c)"

text \<open>The handlers that only append; the decision they file the event under is a required field, or \<^verbatim>\<open>"runtime"\<close>
  when a runtime event names none.\<close>

definition append_under :: "'a audit_ops \<Rightarrow> string \<Rightarrow> 'a core \<Rightarrow> pyval res \<Rightarrow> string \<Rightarrow> pydict \<Rightarrow> ('a core, unit) sres" where
  "append_under ops i c decision_id event_type payload =
     (case rbind decision_id str_arg of
        Inl e \<Rightarrow> (c, Inl e)
      | Inr d \<Rightarrow> done_unit (audit_append ops i c d event_type payload None))"

definition on_evidence_attached :: "'a audit_ops \<Rightarrow> string \<Rightarrow> 'a core \<Rightarrow> pydict \<Rightarrow> ('a core, unit) sres" where
  "on_evidence_attached ops i c payload = append_under ops i c (getitem payload ''decision_id'') ''EvidenceAttached'' payload"

definition on_runtime_artifact_deployed :: "'a audit_ops \<Rightarrow> string \<Rightarrow> 'a core \<Rightarrow> pydict \<Rightarrow> ('a core, unit) sres" where
  "on_runtime_artifact_deployed ops i c payload =
     append_under ops i c (Inr (dict_get payload ''decision_id'' (PStr ''runtime''))) ''RuntimeArtifactDeployed'' payload"

definition on_runtime_config_updated :: "'a audit_ops \<Rightarrow> string \<Rightarrow> 'a core \<Rightarrow> pydict \<Rightarrow> ('a core, unit) sres" where
  "on_runtime_config_updated ops i c payload =
     append_under ops i c (Inr (dict_get payload ''decision_id'' (PStr ''runtime''))) ''RuntimeConfigUpdated'' payload"

definition on_goal_created :: "'a audit_ops \<Rightarrow> string \<Rightarrow> 'a core \<Rightarrow> pydict \<Rightarrow> ('a core, unit) sres" where
  "on_goal_created ops i c payload = append_under ops i c (getitem payload ''decision_id'') ''GoalCreated'' payload"

definition on_goal_cancelled :: "'a audit_ops \<Rightarrow> string \<Rightarrow> 'a core \<Rightarrow> pydict \<Rightarrow> ('a core, unit) sres" where
  "on_goal_cancelled ops i c payload = append_under ops i c (getitem payload ''decision_id'') ''GoalCancelled'' payload"

section \<open>Supersession\<close>

definition superseded_payload :: "datetime \<Rightarrow> string \<Rightarrow> string \<Rightarrow> string \<Rightarrow> string \<Rightarrow> string \<Rightarrow> pydict" where
  "superseded_payload now decision_id metric_name original_leaf_hash new_risk_context superseding_idempotency_key =
     [(''decision_id'', PStr decision_id), (''metric_name'', PStr metric_name),
      (''original_leaf_hash'', PStr original_leaf_hash), (''new_risk_context'', PStr new_risk_context),
      (''superseded_by_idempotency_key'', PStr superseding_idempotency_key), (''occurred_at'', PStr (isoformat_ms now))]"

definition supersede_metric ::
    "'a audit_ops \<Rightarrow> datetime \<Rightarrow> string \<Rightarrow> 'a core \<Rightarrow> string \<Rightarrow> string \<Rightarrow> string \<Rightarrow> string \<Rightarrow> string \<Rightarrow> ('a core, unit) sres" where
  "supersede_metric ops now i c decision_id metric_name original_leaf_hash new_risk_context superseding_idempotency_key =
     done_unit (audit_append ops i c decision_id ''MetricSuperseded''
       (superseded_payload now decision_id metric_name original_leaf_hash new_risk_context superseding_idempotency_key)
       (Some superseding_idempotency_key))"

section \<open>Routing\<close>

text \<open>The topics of \<^verbatim>\<open>_register_event_routes\<close> (\<^verbatim>\<open>api/main.py\<close>).\<close>

definition event_routes :: "'a audit_ops \<Rightarrow> datetime \<Rightarrow> string \<Rightarrow> string \<Rightarrow> (string \<times> 'a core handler) list" where
  "event_routes ops now i j =
     [(''metrics.proposed'', on_metric_proposed ops i),
      (''metrics.debate-outcome'', on_debate_outcome ops i),
      (''metrics.risk-signal'', on_risk_signal ops i),
      (''metrics.reconciled'', on_reconciled_decision ops now i j),
      (''evidence.attached'', on_evidence_attached ops i),
      (''goal.created'', on_goal_created ops i),
      (''goal.cancelled'', on_goal_cancelled ops i),
      (''runtime.artifact-deployed'', on_runtime_artifact_deployed ops i),
      (''runtime.config-updated'', on_runtime_config_updated ops i)]"

text \<open>\<^verbatim>\<open>EventDispatcher\<close>: an unknown event type is logged and dropped.\<close>

type_synonym 'c dispatcher = "(string \<times> 'c handler) list"

definition register_route :: "'c dispatcher \<Rightarrow> string \<Rightarrow> 'c handler \<Rightarrow> 'c dispatcher" where
  "register_route routes event_type h = AList.update event_type h routes"

definition dispatch :: "'c dispatcher \<Rightarrow> 'c \<Rightarrow> pydict \<Rightarrow> ('c, unit) sres" where
  "dispatch routes c payload =
     (let event_type = dict_get payload ''event_type'' PNone;
          key = (if truthy event_type then event_type else PStr []) in
      case key_in key routes of
        Inl e \<Rightarrow> (c, Inl e)
      | Inr False \<Rightarrow> (c, Inr ())
      | Inr True \<Rightarrow> (case key of PStr ty \<Rightarrow> the (map_of routes ty) c payload | _ \<Rightarrow> (c, Inr ())))"

section \<open>The commit path over the contract of the trail\<close>

lemma committed_leaf_length [simp]: "length (commit_leaf now d m v refs k) = 32"
  by (simp add: commit_leaf_def compute_leaf_hash_def)

lemma done_unit_simps [simp]:
  "done_unit (c, Inr x) = (c, Inr ())" "done_unit (c, Inl e) = (c, Inl e)"
  by (simp_all add: done_unit_def)

lemma fst_done_unit [simp]: "fst (done_unit m) = fst m"
  by (cases m) (auto simp: done_unit_def sbind_def split: sum.splits)

context audit_trail
begin

text \<open>A commit under an unseen key: one event at the end of the decision's stream, one leaf at the end of the batch,
  the staged metric marked as committed.\<close>

lemma commit_fresh:
  assumes "inv (co_audit c)" "keys (co_audit c) k = None"
    and "usable (co_audit c) i d ''MetricCommitted'' (committed_payload d m v refs k (to_hex (commit_leaf now d m v refs k))
      (isoformat_ms now) by) (Some k)"
  shows "\<exists>a'. commit ops now i c d m v refs k by =
      (c\<lparr>co_audit := a',
         co_merkle := add_leaf (co_merkle c) (commit_leaf now d m v refs k) i d (timestamp now),
         co_staging := AList.update (d, m) (dict_update (dict_get (co_staging c) (d, m) [])
           [(''status'', PStr ''COMMITTED''), (''leaf_hash'', PStr (to_hex (commit_leaf now d m v refs k)))]) (co_staging c)\<rparr>,
       Inr \<lparr>ur_status = ACCEPTED, ur_leaf_hash = Some (to_hex (commit_leaf now d m v refs k))\<rparr>) \<and>
    inv a' \<and>
    stream a' = (stream (co_audit c))(d := stream (co_audit c) d @
      [mkrec i ''MetricCommitted'' d (committed_payload d m v refs k (to_hex (commit_leaf now d m v refs k)) (isoformat_ms now) by)]) \<and>
    keys a' = (keys (co_audit c))(k \<mapsto> i)"
  using append_fresh [OF assms(1,3)] assms(2)
  by (auto simp: commit_def audit_append_def Let_def codec_simps)

text \<open>A commit under a key the trail knows changes no stream, no leaf and no staging entry.\<close>

lemma commit_seen:
  assumes "inv (co_audit c)" "keys (co_audit c) k = Some e"
    and "usable (co_audit c) i d ''MetricCommitted'' (committed_payload d m v refs k (to_hex (commit_leaf now d m v refs k))
      (isoformat_ms now) by) (Some k)"
  shows "\<exists>a'. commit ops now i c d m v refs k by =
      (c\<lparr>co_audit := a'\<rparr>, Inr \<lparr>ur_status = DUPLICATE_IGNORED, ur_leaf_hash = None\<rparr>) \<and>
    inv a' \<and> stream a' = stream (co_audit c) \<and> keys a' = keys (co_audit c)"
  using append_seen [OF assms(1,3), of e] assms(2)
  by (auto simp: commit_def audit_append_def Let_def)

text \<open>An append without a key, seen from the handlers.\<close>

lemma plain_append:
  assumes "inv (co_audit c)" "usable (co_audit c) i d ty p None"
  shows "\<exists>a' r. audit_append ops i c d ty p None = (c\<lparr>co_audit := a'\<rparr>, Inr r) \<and> inv a' \<and>
    stream a' = (stream (co_audit c))(d := stream (co_audit c) d @ [mkrec i ty d p]) \<and> keys a' = keys (co_audit c)"
  using append_fresh [OF assms] by (auto simp: audit_append_def)

text \<open>A command without evidence is recorded as a rejection and touches nothing else.\<close>

lemma update_without_evidence:
  assumes "inv (co_audit c)" "um_evidence_refs cmd = []"
    and "usable (co_audit c) i (um_decision_id cmd) ''MetricRejected''
      (rejected_payload now (um_decision_id cmd) (um_metric_name cmd) (PStr (um_idempotency_key cmd))) None"
  shows "\<exists>a'. handle_update_metric ops now i c cmd =
      (c\<lparr>co_audit := a'\<rparr>, Inr \<lparr>ur_status = REJECTED_MISSING_EVIDENCE, ur_leaf_hash = None\<rparr>) \<and> inv a' \<and>
    stream a' = (stream (co_audit c))(um_decision_id cmd := stream (co_audit c) (um_decision_id cmd) @
      [mkrec i ''MetricRejected'' (um_decision_id cmd)
         (rejected_payload now (um_decision_id cmd) (um_metric_name cmd) (PStr (um_idempotency_key cmd)))]) \<and>
    keys a' = keys (co_audit c)"
  using plain_append [OF assms(1,3)] assms(2)
  by (auto simp: handle_update_metric_def)

end

section \<open>The handlers touch the trail only by appending\<close>

definition audit_reach :: "memory_audit \<Rightarrow> memory_audit \<Rightarrow> bool" where
  "audit_reach a a' = (\<exists>cs. a' = foldl audit_exec a cs)"

lemma audit_reach_refl [simp]: "audit_reach a a"
  unfolding audit_reach_def by (rule exI [of _ "[]"]) simp

lemma audit_reach_trans: "audit_reach a b \<Longrightarrow> audit_reach b c \<Longrightarrow> audit_reach a c"
  unfolding audit_reach_def by (metis foldl_append)

lemma audit_reach_append: "audit_reach (co_audit c) (co_audit (fst (audit_append memory_ops i c d ty p k)))"
  unfolding audit_reach_def
  by (rule exI [of _ "[Append i d ty p k]"]) (simp add: audit_append_def memory_ops_def split: prod.splits)

lemma audit_reach_sbind:
  assumes "audit_reach a (co_audit (fst m))" "\<And>c x. audit_reach a (co_audit c) \<Longrightarrow> audit_reach a (co_audit (fst (f c x)))"
  shows "audit_reach a (co_audit (fst (sbind m f (\<lambda>c. c))))"
  using assms by (cases m) (auto simp: sbind_def split: sum.splits)

lemma audit_reach_append': "audit_reach a (co_audit c) \<Longrightarrow> audit_reach a (co_audit (fst (audit_append memory_ops i c d ty p k)))"
  using audit_reach_append audit_reach_trans by blast

lemma audit_reach_commit:
  "audit_reach a (co_audit c) \<Longrightarrow> audit_reach a (co_audit (fst (commit memory_ops now i c d m v refs k by)))"
  unfolding commit_def Let_def
  by (rule audit_reach_sbind) (auto simp: audit_reach_append' split: sum.splits)

lemma audit_reach_update:
  "audit_reach (co_audit c) (co_audit (fst (handle_update_metric memory_ops now i c cmd)))"
  unfolding handle_update_metric_def
  by (auto intro!: audit_reach_sbind audit_reach_append' audit_reach_commit)

lemma audit_reach_stage:
  "audit_reach (co_audit c) (co_audit (fst (stage_and_append memory_ops i c ty f p)))"
  unfolding stage_and_append_def Let_def
  by (auto intro!: audit_reach_sbind audit_reach_append' split: sum.splits)

lemma audit_reach_under:
  "audit_reach (co_audit c) (co_audit (fst (append_under memory_ops i c d ty p)))"
  unfolding append_under_def by (auto intro!: audit_reach_append' split: sum.splits)

lemma audit_reach_reconciled:
  "audit_reach (co_audit c) (co_audit (fst (on_reconciled_decision memory_ops now i j c p)))"
  unfolding on_reconciled_decision_def Let_def
  by (rule audit_reach_sbind [OF audit_reach_stage])
     (auto intro!: audit_reach_append' audit_reach_commit split: sum.splits)

lemma audit_reach_route:
  assumes "map_of (event_routes memory_ops now i j) topic = Some h"
  shows "audit_reach (co_audit c) (co_audit (fst (h c p)))"
proof -
  have "h \<in> snd ` set (event_routes memory_ops now i j)"
    using map_of_SomeD [OF assms] by force
  then show ?thesis
    by (auto simp: event_routes_def on_metric_proposed_def on_debate_outcome_def on_risk_signal_def
        on_evidence_attached_def on_goal_created_def on_goal_cancelled_def on_runtime_artifact_deployed_def
        on_runtime_config_updated_def audit_reach_stage audit_reach_under audit_reach_reconciled)
qed

section \<open>Runs of the write side\<close>

text \<open>Commands and bus events in any order, on the in-memory trail. An exception ends one call and keeps its state.\<close>

datatype core_cmd =
    Update datetime string update_metric_command
  | BusEvent string datetime string string pydict
  | Supersede datetime string string string string string string

fun core_exec :: "memory_audit core \<Rightarrow> core_cmd \<Rightarrow> memory_audit core" where
  "core_exec c (Update now i cmd) = fst (handle_update_metric memory_ops now i c cmd)"
| "core_exec c (BusEvent topic now i j payload) =
     (case map_of (event_routes memory_ops now i j) topic of None \<Rightarrow> c | Some h \<Rightarrow> fst (h c payload))"
| "core_exec c (Supersede now i d m leaf ctx k) = fst (supersede_metric memory_ops now i c d m leaf ctx k)"

lemma audit_reach_exec: "audit_reach (co_audit c) (co_audit (core_exec c x))"
  by (cases x) (auto simp: audit_reach_update supersede_metric_def audit_reach_append'
      intro: audit_reach_route split: option.splits)

lemma audit_reach_run: "audit_reach (co_audit c) (co_audit (foldl core_exec c xs))"
proof (induction xs arbitrary: c)
  case (Cons x xs)
  then show ?case using audit_reach_exec audit_reach_trans by fastforce
qed simp

text \<open>What the trail knows is never forgotten in a run.\<close>

lemma reach_keys: "audit_reach a a' \<Longrightarrow> memory_keys a k = Some e \<Longrightarrow> memory_keys a' k = Some e"
  unfolding audit_reach_def using audit_run_grows by (metis domI map_le_def)

lemma run_keys: "memory_keys (co_audit c) k = Some e \<Longrightarrow> memory_keys (co_audit (foldl core_exec c xs)) k = Some e"
  using audit_reach_run reach_keys by blast

lemma core_audit_self [simp]: "c\<lparr>co_audit := co_audit c\<rparr> = c"
  by simp

lemma memory_commit_seen:
  assumes "memory_keys (co_audit c) k = Some e"
  shows "commit memory_ops now i c d m v refs k by = (c, Inr \<lparr>ur_status = DUPLICATE_IGNORED, ur_leaf_hash = None\<rparr>)"
  using memory_append_seen [of "Some k" "co_audit c" e] assms
  by (simp add: commit_def audit_append_def memory_ops_def Let_def)

lemma memory_update_seen:
  assumes "memory_keys (co_audit c) (um_idempotency_key cmd) = Some e" "um_evidence_refs cmd \<noteq> []"
  shows "handle_update_metric memory_ops now i c cmd = (c, Inr \<lparr>ur_status = DUPLICATE_IGNORED, ur_leaf_hash = None\<rparr>)"
  using memory_commit_seen [OF assms(1)] assms(2) by (simp add: handle_update_metric_def)

text \<open>The generic commit facts on the in-memory trail, whose invariant is trivial.\<close>

lemmas memory_commit_fresh = memory.commit_fresh [OF TrueI _ TrueI, simplified simp_thms]
lemmas memory_update_rejected = memory.update_without_evidence [OF TrueI _ TrueI, simplified simp_thms]

lemmas memory_plain_append = memory.plain_append [OF TrueI TrueI, simplified simp_thms]

lemma core_update_swap: "c\<lparr>co_staging := s, co_audit := a\<rparr> = c\<lparr>co_audit := a, co_staging := s\<rparr>"
  by simp

lemma memory_stage:
  assumes "staging_key p = Inr (d, m)"
  shows "\<exists>a'. stage_and_append memory_ops i c ty f p =
      (c\<lparr>co_audit := a', co_staging := AList.update (d, m) (f (dict_get (co_staging c) (d, m) [])) (co_staging c)\<rparr>, Inr (d, m)) \<and>
    memory_stream a' = (memory_stream (co_audit c))(d := memory_stream (co_audit c) d @ [memory_record i ty d p]) \<and>
    memory_keys a' = memory_keys (co_audit c)"
  using memory_plain_append [of i "c\<lparr>co_staging := AList.update (d, m) (f (dict_get (co_staging c) (d, m) [])) (co_staging c)\<rparr>" d ty p] assms
  by (auto simp: stage_and_append_def Let_def core_update_swap)

lemma staging_key_strs:
  "map_of p ''decision_id'' = Some (PStr d) \<Longrightarrow> map_of p ''metric_name'' = Some (PStr m) \<Longrightarrow> staging_key p = Inr (d, m)"
  by (simp add: staging_key_def getitem_Some as_key_def)

lemma str_list_arg_map [simp]: "str_list_arg (PList (map PStr ss)) = Inr ss"
  by (induction ss) (auto simp: str_list_arg_def str_arg_def)

section \<open>Properties\<close>

lemma memory_read_stream: "memory_read_range a d 0 = Inr (memory_stream a d)"
  by (simp add: memory_read_range_def memory_stream_def)





text \<open>C33: the two commit paths converge. A reconciled decision with evidence and a fresh key leaves the batch builder and
  the idempotency keys exactly as the synchronous command with the same data would, and its stream ends with the same
  committed event; the only difference is the reconciliation event in front of it.\<close>

theorem commit_paths_converge:
  fixes c :: "memory_audit core"
  assumes "map_of p ''decision_id'' = Some (PStr d)" "map_of p ''metric_name'' = Some (PStr m)"
    "map_of p ''final_value'' = Some v" "map_of p ''idempotency_key'' = Some (PStr k)"
    "map_of p ''evidence_refs'' = Some (PList (map PStr refs))" "map_of p ''proposed_by'' = Some (PStr b)"
    "refs \<noteq> []" "map_of (ma_idempotency_index (co_audit c)) k = None"
  shows "\<exists>c1 c2 rec. on_reconciled_decision memory_ops now i j c p = (c1, Inr ()) \<and>
    fst (handle_update_metric memory_ops now j c \<lparr>um_decision_id = d, um_metric_name = m, um_value = v,
      um_idempotency_key = k, um_evidence_refs = refs, um_proposed_by = b, um_runtime_context = PNone\<rparr>) = c2 \<and>
    co_merkle c1 = co_merkle c2 \<and>
    map_of (ma_idempotency_index (co_audit c1)) = map_of (ma_idempotency_index (co_audit c2)) \<and>
    memory_stream (co_audit c2) d = memory_stream (co_audit c) d @ [rec] \<and>
    memory_stream (co_audit c1) d = memory_stream (co_audit c) d @ [memory_record i ''ReconciledDecision'' d p, rec]"
proof -
  obtain a' st where a': "stage_and_append memory_ops i c ''ReconciledDecision''
      (\<lambda>st. AList.update ''status'' (PStr (metric_status_value MS_RECONCILED)) (dict_update st p)) p =
      (c\<lparr>co_audit := a', co_staging := st\<rparr>, Inr (d, m))"
    "memory_stream a' = (memory_stream (co_audit c))(d := memory_stream (co_audit c) d @ [memory_record i ''ReconciledDecision'' d p])"
    "memory_keys a' = memory_keys (co_audit c)"
    using memory_stage [OF staging_key_strs [OF assms(1,2)], of i c "''ReconciledDecision''"] by blast
  have k: "memory_keys (co_audit c) k = None" "memory_keys (co_audit (c\<lparr>co_audit := a', co_staging := st\<rparr>)) k = None"
    using a'(3) assms(8) by (simp_all add: memory_keys_def)
  have args: "dict_get p ''evidence_refs'' x = PList (map PStr refs)" "dict_get p ''proposed_by'' x = PStr b" for x
    using assms by (simp_all add: dict_get_def)
  have "on_reconciled_decision memory_ops now i j c p =
      done_unit (commit memory_ops now j (c\<lparr>co_audit := a', co_staging := st\<rparr>) d m v refs k (PStr b))"
    using a'(1) assms by (simp add: on_reconciled_decision_def args getitem_Some str_arg_def)
  then show ?thesis
    using memory_commit_fresh [OF k(1), of now j d m v refs "PStr b"]
      memory_commit_fresh [OF k(2), of now j d m v refs "PStr b"] a'(2,3) assms(7)
    by (auto simp: handle_update_metric_def memory_keys_def)
qed

theorem commit_paths_converge_witness:
  "\<exists>c1. on_reconciled_decision memory_ops epoch ''e1'' ''e2'' (new_core new_memory_audit (new_builder 10 (Fin 5)))
     [(''decision_id'', PStr ''d''), (''metric_name'', PStr ''m''), (''final_value'', PInt 7), (''idempotency_key'', PStr ''k''),
      (''evidence_refs'', PList [PStr ''r'']), (''proposed_by'', PStr ''u'')] = (c1, Inr ()) \<and>
     length (memory_stream (co_audit c1) ''d'') = 2"
  using commit_paths_converge [of "[(''decision_id'', PStr ''d''), (''metric_name'', PStr ''m''), (''final_value'', PInt 7),
      (''idempotency_key'', PStr ''k''), (''evidence_refs'', PList [PStr ''r'']), (''proposed_by'', PStr ''u'')]"
      "''d''" "''m''" "PInt 7" "''k''" "[''r'']" "''u''" "new_core new_memory_audit (new_builder 10 (Fin 5))" epoch "''e1''" "''e2''"]
  by (auto simp: new_core_def new_memory_audit_def memory_stream_def dict_get_def)

text \<open>A reconciliation that cannot be committed still leaves a trace. When the payload has evidence but no final
  value, the handler raises \<^verbatim>\<open>KeyError\<close>; by then the reconciliation event is in the trail and the staging entry says
  \<^verbatim>\<open>RECONCILED\<close>, while no leaf and no idempotency key was added, so a corrected redelivery can still commit.\<close>

theorem reconciled_without_value:
  fixes c :: "memory_audit core"
  assumes "map_of p ''decision_id'' = Some (PStr d)" "map_of p ''metric_name'' = Some (PStr m)"
    "map_of p ''final_value'' = None" "map_of p ''evidence_refs'' = Some (PList (map PStr refs))" "refs \<noteq> []"
  shows "\<exists>c1. on_reconciled_decision memory_ops now i j c p = (c1, Inl (KeyError ''final_value'')) \<and>
    memory_stream (co_audit c1) d = memory_stream (co_audit c) d @ [memory_record i ''ReconciledDecision'' d p] \<and>
    Option.bind (map_of (co_staging c1) (d, m)) (\<lambda>st. map_of st ''status'') = Some (PStr ''RECONCILED'') \<and>
    co_merkle c1 = co_merkle c \<and>
    map_of (ma_idempotency_index (co_audit c1)) = map_of (ma_idempotency_index (co_audit c))"
proof -
  have "dict_get p ''evidence_refs'' x = PList (map PStr refs)" for x
    using assms by (simp add: dict_get_def)
  then show ?thesis
    using memory_stage [OF staging_key_strs [OF assms(1,2)], of i c "''ReconciledDecision''"
        "\<lambda>st. AList.update ''status'' (PStr (metric_status_value MS_RECONCILED)) (dict_update st p)"] assms(3,5)
    by (auto simp: on_reconciled_decision_def getitem_def memory_keys_def map_of_AList_update)
qed

theorem reconciled_without_value_witness:
  "\<exists>c1. on_reconciled_decision memory_ops epoch ''e1'' ''e2'' (new_core new_memory_audit (new_builder 10 (Fin 5)))
     [(''decision_id'', PStr ''d''), (''metric_name'', PStr ''m''), (''evidence_refs'', PList [PStr ''r''])] =
     (c1, Inl (KeyError ''final_value'')) \<and> length (memory_stream (co_audit c1) ''d'') = 1"
  using reconciled_without_value [of "[(''decision_id'', PStr ''d''), (''metric_name'', PStr ''m''),
      (''evidence_refs'', PList [PStr ''r''])]" "''d''" "''m''" "[''r'']" epoch "''e1''" "''e2''"
      "new_core new_memory_audit (new_builder 10 (Fin 5))"]
  by (auto simp: new_core_def new_memory_audit_def memory_stream_def dict_get_def)

text \<open>C34: one key for two purposes. A supersession files its event under the idempotency key of the metric that is to
  supersede. So once it has been recorded, the superseding metric itself is ignored as a duplicate, whatever happens in
  between; and when the superseding metric came first, the supersession is not recorded at all.\<close>

theorem supersession_and_successor_exclude:
  fixes c :: "memory_audit core"
  shows "(um_idempotency_key cmd = k \<and> um_evidence_refs cmd \<noteq> [] \<longrightarrow>
      (let c2 = foldl core_exec (fst (supersede_metric memory_ops now i c d m leaf ctx k)) xs in
       handle_update_metric memory_ops now' i' c2 cmd = (c2, Inr \<lparr>ur_status = DUPLICATE_IGNORED, ur_leaf_hash = None\<rparr>))) \<and>
    (map_of (ma_idempotency_index (co_audit c)) k \<noteq> None \<longrightarrow>
       supersede_metric memory_ops now i c d m leaf ctx k = (c, Inr ()))"
proof (intro conjI impI)
  let ?p = "superseded_payload now d m leaf ctx k"
  assume h: "um_idempotency_key cmd = k \<and> um_evidence_refs cmd \<noteq> []"
  obtain e where "memory_keys (co_audit (fst (supersede_metric memory_ops now i c d m leaf ctx k))) k = Some e"
    using memory_append_fresh [of "Some k" "co_audit c" i d "''MetricSuperseded''" ?p]
      memory_append_seen [of "Some k" "co_audit c" _ i d "''MetricSuperseded''" ?p]
    by (cases "memory_keys (co_audit c) k") (auto simp: supersede_metric_def audit_append_def memory_ops_def split: prod.splits)
  from run_keys [OF this] h memory_update_seen show "let c2 = foldl core_exec (fst (supersede_metric memory_ops now i c d m leaf ctx k)) xs in
       handle_update_metric memory_ops now' i' c2 cmd = (c2, Inr \<lparr>ur_status = DUPLICATE_IGNORED, ur_leaf_hash = None\<rparr>)"
    by (simp add: Let_def)
next
  assume "map_of (ma_idempotency_index (co_audit c)) k \<noteq> None"
  then show "supersede_metric memory_ops now i c d m leaf ctx k = (c, Inr ())"
    using memory_append_seen [of "Some k" "co_audit c"]
    by (auto simp: supersede_metric_def audit_append_def memory_ops_def memory_keys_def)
qed

theorem supersession_and_successor_exclude_witness:
  "snd (handle_update_metric memory_ops epoch ''e2''
      (fst (supersede_metric memory_ops epoch ''e1'' (new_core new_memory_audit (new_builder 10 (Fin 5))) ''d'' ''m'' ''ab'' ''ctx'' ''k''))
      \<lparr>um_decision_id = ''d'', um_metric_name = ''m'', um_value = PInt 8, um_idempotency_key = ''k'',
       um_evidence_refs = [''s''], um_proposed_by = ''u'', um_runtime_context = PNone\<rparr>) =
   Inr \<lparr>ur_status = DUPLICATE_IGNORED, ur_leaf_hash = None\<rparr>"
  using supersession_and_successor_exclude [of "\<lparr>um_decision_id = ''d'', um_metric_name = ''m'', um_value = PInt 8,
      um_idempotency_key = ''k'', um_evidence_refs = [''s''], um_proposed_by = ''u'', um_runtime_context = PNone\<rparr>" "''k''"
      epoch "''e1''" "new_core new_memory_audit (new_builder 10 (Fin 5))" "''d''" "''m''" "''ab''" "''ctx''" "[]" epoch "''e2''"]
  by (simp add: Let_def)

text \<open>A bus event can pass for a commit. The trail copies the payload over its own envelope, so a proposal whose
  payload carries the event type \<^verbatim>\<open>MetricCommitted\<close> is read back as a committed metric, with no evidence and no leaf,
  against invariant I3.\<close>

theorem proposal_passes_for_commit:
  assumes "pydantic_ok P"
  shows "\<exists>c1 mr. on_metric_proposed memory_ops i (new_core new_memory_audit b)
      [(''decision_id'', PStr d), (''metric_name'', PStr m), (''event_type'', PStr ''MetricCommitted''), (''value'', v),
       (''idempotency_key'', PStr k), (''evidence_refs'', PList []), (''committed_at'', PStr (isoformat_ms epoch)),
       (''leaf_hash'', PNone)] = (c1, Inr ()) \<and>
    co_merkle c1 = b \<and>
    metrics_reconstruct P d (memory_stream (co_audit c1) d) = Inr [(m, mr)] \<and>
    mr_status mr = MS_COMMITTED \<and> mr_value mr = v \<and> mr_evidence_refs mr = []"
proof -
  let ?p = "[(''decision_id'', PStr d), (''metric_name'', PStr m), (''event_type'', PStr ''MetricCommitted''), (''value'', v),
       (''idempotency_key'', PStr k), (''evidence_refs'', PList []), (''committed_at'', PStr (isoformat_ms epoch)),
       (''leaf_hash'', PNone)]"
  let ?c = "new_core new_memory_audit b"
  obtain a' st where a': "on_metric_proposed memory_ops i ?c ?p = (?c\<lparr>co_audit := a', co_staging := st\<rparr>, Inr ())"
    "memory_stream a' = (memory_stream (co_audit ?c))(d := memory_stream (co_audit ?c) d @ [memory_record i ''MetricProposed'' d ?p])"
    using memory_stage [OF staging_key_strs [of ?p d m], of i ?c "''MetricProposed''"
        "\<lambda>_. AList.update ''status'' (PStr (metric_status_value MS_PROPOSED)) ?p"]
    by (auto simp: on_metric_proposed_def)
  have rec: "memory_record i ''MetricProposed'' d ?p = [(''event_id'', PStr i), (''event_type'', PStr ''MetricCommitted''),
      (''decision_id'', PStr d), (''metric_name'', PStr m), (''value'', v), (''idempotency_key'', PStr k),
      (''evidence_refs'', PList []), (''committed_at'', PStr (isoformat_ms epoch)), (''leaf_hash'', PNone)]"
    by (simp add: memory_record_def dict_update_def)
  have "memory_stream a' d = [memory_record i ''MetricProposed'' d ?p]"
    using a'(2) by (simp add: new_core_def new_memory_audit_def memory_stream_def dict_get_def)
  then show ?thesis
    using a'(1)
    by (simp add: pydantic_okD(2,5) [OF assms] rec metrics_reconstruct_def has_type_def committed_record_def getitem_def parse_dt_def dict_get_def
        mk_metric_record_def v_leaf_hash_def as_key_def new_core_def)
qed

theorem proposal_passes_for_commit_witness:
  "\<exists>mr. metrics_reconstruct strict_pydantic ''d'' (memory_stream (co_audit (fst (on_metric_proposed memory_ops ''i''
      (new_core new_memory_audit (new_builder 10 (Fin 5)))
      [(''decision_id'', PStr ''d''), (''metric_name'', PStr ''m''), (''event_type'', PStr ''MetricCommitted''), (''value'', PInt 1),
       (''idempotency_key'', PStr ''k''), (''evidence_refs'', PList []), (''committed_at'', PStr (isoformat_ms epoch)),
       (''leaf_hash'', PNone)]))) ''d'') = Inr [(''m'', mr)] \<and> mr_status mr = MS_COMMITTED"
  using proposal_passes_for_commit [OF strict_pydantic_ok, of "''i''" "new_builder 10 (Fin 5)" "''d''" "''m''" "PInt 1" "''k''"]
  by auto

end
