(* ===== verification/MerkleAnchor.thy ===== *)
theory MerkleAnchor
  imports CommandHandler
begin

text \<open>
  \<^verbatim>\<open>application/merkle_anchor_service.py\<close>: closing a batch, signing and stamping its root, projecting one proof
  row per leaf and publishing the root to every decision of the batch. Signer and timestamp authority are arguments
  (\<open>sign\<close>, \<open>stamp\<close>); \<open>uuid n\<close> is the n-th identifier drawn in the call. The lemmas about the projected rows rest
  on the store contract \<open>kv_store\<close>, those about the published events on the contract \<open>audit_trail\<close>.
\<close>

section \<open>State and definitions\<close>

record ('a, 's) anchor =
  an_builder :: builder
  an_audit :: 'a
  an_store :: 's

definition proof_key :: "bytes \<Rightarrow> string" where
  "proof_key leaf = ''merkle_proof:'' @ to_hex leaf"

definition proof_row :: "bytes \<Rightarrow> proof_step list \<Rightarrow> bytes \<Rightarrow> bytes \<Rightarrow> tsa_token \<Rightarrow> string \<Rightarrow> pydict" where
  "proof_row leaf steps rt signature token batch_id =
     [(''leaf_hash'', PStr (to_hex leaf)),
      (''proof_path'', PList (map (\<lambda>step. PDict [(''hash'', PStr (to_hex (sibling_hash step))),
                                                (''position'', PStr (position step))]) steps)),
      (''root'', PStr (to_hex rt)),
      (''anchor_signature'', PStr (to_hex signature)),
      (''anchor_timestamp'', PStr (timestamp_iso token)),
      (''batch_id'', PStr batch_id)]"

text \<open>The loop over \<^verbatim>\<open>enumerate(batch.leaves)\<close>.\<close>

fun project_proofs ::
    "'s store_ops \<Rightarrow> merkle_batch \<Rightarrow> bytes \<Rightarrow> bytes \<Rightarrow> tsa_token \<Rightarrow> string \<Rightarrow> nat \<Rightarrow> bytes list \<Rightarrow> 's \<Rightarrow> ('s, unit) sres" where
  "project_proofs st batch rt signature token batch_id idx [] s = (s, Inr ())"
| "project_proofs st batch rt signature token batch_id idx (leaf # rest) s =
     (case proof_for batch (int idx) of
        Inl e \<Rightarrow> (s, Inl e)
      | Inr steps \<Rightarrow>
          sbind (st_set st s (proof_key leaf) (proof_row leaf steps rt signature token batch_id))
            (\<lambda>s _. project_proofs st batch rt signature token batch_id (Suc idx) rest s) (\<lambda>s. s))"

definition root_payload :: "string \<Rightarrow> bytes \<Rightarrow> nat \<Rightarrow> bytes \<Rightarrow> tsa_token \<Rightarrow> pydict" where
  "root_payload batch_id rt leaf_count signature token =
     [(''batch_id'', PStr batch_id), (''root'', PStr (to_hex rt)), (''leaf_count'', PInt (int leaf_count)),
      (''anchor_signature'', PStr (to_hex signature)), (''anchor_timestamp'', PStr (timestamp_iso token))]"

fun publish_roots :: "'a audit_ops \<Rightarrow> (nat \<Rightarrow> string) \<Rightarrow> nat \<Rightarrow> pydict \<Rightarrow> string list \<Rightarrow> 'a \<Rightarrow> ('a, unit) sres" where
  "publish_roots ops uuid n payload [] a = (a, Inr ())"
| "publish_roots ops uuid n payload (decision_id # rest) a =
     sbind (op_append ops (uuid n) a decision_id ''MerkleRootPublished'' payload None)
       (\<lambda>a _. publish_roots ops uuid (Suc n) payload rest a) (\<lambda>a. a)"

definition close_and_anchor ::
    "'a audit_ops \<Rightarrow> 's store_ops \<Rightarrow> (bytes \<Rightarrow> bytes) \<Rightarrow> (bytes \<Rightarrow> tsa_token res) \<Rightarrow> (nat \<Rightarrow> string)
     \<Rightarrow> ('a, 's) anchor \<Rightarrow> (('a, 's) anchor, string) sres" where
  "close_and_anchor ops st sign stamp uuid s =
     (case close_and_reset (an_builder s) of
        Inl e \<Rightarrow> (s, Inl e)
      | Inr (b, batch, rt, pnd) \<Rightarrow>
          (let s = s\<lparr>an_builder := b\<rparr>; batch_id = uuid 0; signature = sign rt in
           case stamp rt of
             Inl e \<Rightarrow> (s, Inl e)
           | Inr token \<Rightarrow>
               sbind (project_proofs st batch rt signature token batch_id 0 (leaves batch) (an_store s))
                 (\<lambda>store _. let s = s\<lparr>an_store := store\<rparr>;
                    payload = root_payload batch_id rt (length (leaves batch)) signature token in
                  sbind (publish_roots ops uuid 1 payload
                           (''system'' # sorted_set (map pl_decision_id pnd)) (an_audit s))
                    (\<lambda>a _. sbind (op_mark_batched ops a (map pl_event_id pnd) batch_id)
                       (\<lambda>a _. (s\<lparr>an_audit := a\<rparr>, Inr batch_id)) (\<lambda>a. s\<lparr>an_audit := a\<rparr>))
                    (\<lambda>a. s\<lparr>an_audit := a\<rparr>))
                 (\<lambda>store. s\<lparr>an_store := store\<rparr>)))"

definition some_result :: "('s, 'r) sres \<Rightarrow> ('s, 'r option) sres" where
  "some_result m = sbind m (\<lambda>s x. (s, Inr (Some x))) (\<lambda>s. s)"

definition maybe_close_and_anchor ::
    "'a audit_ops \<Rightarrow> 's store_ops \<Rightarrow> (bytes \<Rightarrow> bytes) \<Rightarrow> (bytes \<Rightarrow> tsa_token res) \<Rightarrow> (nat \<Rightarrow> string) \<Rightarrow> datetime
     \<Rightarrow> ('a, 's) anchor \<Rightarrow> (('a, 's) anchor, string option) sres" where
  "maybe_close_and_anchor ops st sign stamp uuid now s =
     (if \<not> should_close (an_builder s) (timestamp now) then (s, Inr None)
      else some_result (close_and_anchor ops st sign stamp uuid s))"

definition force_close ::
    "'a audit_ops \<Rightarrow> 's store_ops \<Rightarrow> (bytes \<Rightarrow> bytes) \<Rightarrow> (bytes \<Rightarrow> tsa_token res) \<Rightarrow> (nat \<Rightarrow> string)
     \<Rightarrow> ('a, 's) anchor \<Rightarrow> (('a, 's) anchor, string option) sres" where
  "force_close ops st sign stamp uuid s =
     (if \<not> has_pending (an_builder s) then (s, Inr None)
      else some_result (close_and_anchor ops st sign stamp uuid s))"

section \<open>Reading a proof row back\<close>

text \<open>What a client of \<^verbatim>\<open>GetMerkleProof\<close> does with a row: decode the hexadecimal fields and climb.\<close>

definition str_field :: "pydict \<Rightarrow> string \<Rightarrow> string res" where
  "str_field row k = rbind (getitem row k) str_arg"

definition decode_step :: "pyval \<Rightarrow> proof_step res" where
  "decode_step v = (case v of
     PDict d \<Rightarrow> rbind (str_field d ''hash'') (\<lambda>h. rbind (fromhex h) (\<lambda>bs.
                rbind (str_field d ''position'') (\<lambda>pos. Inr \<lparr>sibling_hash = bs, position = pos\<rparr>)))
   | _ \<Rightarrow> Inl (IllTyped ''proof node''))"

definition decode_row :: "pydict \<Rightarrow> (bytes \<times> proof_step list \<times> bytes) res" where
  "decode_row row =
     rbind (rbind (str_field row ''leaf_hash'') fromhex) (\<lambda>leaf.
     rbind (rbind (getitem row ''proof_path'') (\<lambda>v. case v of PList vs \<Rightarrow> rmap decode_step vs | _ \<Rightarrow> Inl (IllTyped ''proof path''))) (\<lambda>steps.
     rbind (rbind (str_field row ''root'') fromhex) (\<lambda>rt. Inr (leaf, steps, rt))))"

definition row_verifies :: "bytes \<Rightarrow> pydict \<Rightarrow> bool" where
  "row_verifies leaf row = (case decode_row row of
     Inr (leaf', steps, rt) \<Rightarrow> leaf' = leaf \<and> verify_inclusion_proof leaf steps rt | Inl _ \<Rightarrow> False)"

section \<open>Lemmas\<close>

lemma proof_key_inj: "proof_key l = proof_key l' \<Longrightarrow> l = l'"
  unfolding proof_key_def by (metis Inr_inject fromhex_to_hex same_append_eq)

lemma decode_step_row:
  "decode_step (PDict [(''hash'', PStr (to_hex (sibling_hash s))), (''position'', PStr (position s))]) = Inr s"
  by (simp add: decode_step_def str_field_def getitem_def str_arg_def)

lemma decode_proof_row: "decode_row (proof_row leaf steps rt sg tok b) = Inr (leaf, steps, rt)"
proof -
  have "rmap decode_step (map (\<lambda>s. PDict [(''hash'', PStr (to_hex (sibling_hash s))), (''position'', PStr (position s))]) steps) = Inr steps"
    by (induction steps) (simp_all add: decode_step_row)
  then show ?thesis by (simp add: decode_row_def proof_row_def str_field_def getitem_def str_arg_def)
qed

text \<open>The rows the loop writes, and that the loop writes them all.\<close>

definition proof_rows :: "merkle_batch \<Rightarrow> bytes \<Rightarrow> bytes \<Rightarrow> tsa_token \<Rightarrow> string \<Rightarrow> nat \<Rightarrow> bytes list \<Rightarrow> (string \<times> pydict) list" where
  "proof_rows batch rt sg tok b idx ls =
     map (\<lambda>(i, leaf). (proof_key leaf, case proof_for batch (int i) of
            Inr steps \<Rightarrow> proof_row leaf steps rt sg tok b | Inl _ \<Rightarrow> [])) (enumerate idx ls)"

lemma proof_rows_Cons:
  "proof_for batch (int idx) = Inr steps \<Longrightarrow>
   proof_rows batch rt sg tok b idx (leaf # ls) =
     (proof_key leaf, proof_row leaf steps rt sg tok b) # proof_rows batch rt sg tok b (Suc idx) ls"
  by (simp add: proof_rows_def)

context kv_store
begin

lemma project_proofs_set_all:
  assumes "\<And>i. idx \<le> i \<Longrightarrow> i < idx + length ls \<Longrightarrow> \<exists>steps. proof_for batch (int i) = Inr steps"
    and "inv s" "\<forall>r \<in> set (proof_rows batch rt sg tok b idx ls). storable (snd r)"
  shows "project_proofs st batch rt sg tok b idx ls s = (set_all (proof_rows batch rt sg tok b idx ls) s, Inr ())"
  using assms
proof (induction ls arbitrary: idx s)
  case (Cons leaf ls)
  obtain steps where steps: "proof_for batch (int idx) = Inr steps" using Cons.prems(1) [of idx] by auto
  obtain s' where s': "st_set st s (proof_key leaf) (proof_row leaf steps rt sg tok b) = (s', Inr ())" "inv s'"
    using set_lookup [OF Cons.prems(2)] Cons.prems(3) by (force simp: proof_rows_Cons [OF steps])
  have "\<exists>steps. proof_for batch (int i) = Inr steps" if "Suc idx \<le> i" "i < Suc idx + length ls" for i
    using Cons.prems(1) [of i] that by simp
  from Cons.IH [OF this s'(2)] Cons.prems(3) show ?case by (simp add: steps s' proof_rows_Cons)
qed (simp add: proof_rows_def)

end

context audit_trail
begin

text \<open>Publishing: every decision gets one event per occurrence in the list, nobody else any, no key changes.\<close>

lemma publish_roots_streams:
  assumes "inv a" "\<And>a i d. usable a i d ''MerkleRootPublished'' p None"
  shows "\<exists>a'. publish_roots ops uuid n p ds a = (a', Inr ()) \<and> inv a' \<and> keys a' = keys a \<and>
    (\<forall>d. \<exists>is. length is = count_list ds d \<and>
       stream a' d = stream a d @ map (\<lambda>i. mkrec i ''MerkleRootPublished'' d p) is)"
  using assms(1)
proof (induction ds arbitrary: a n)
  case (Cons d ds)
  from append_fresh [OF Cons.prems assms(2), of "uuid n" d]
  obtain a1 where a1: "op_append ops (uuid n) a d ''MerkleRootPublished'' p None =
      (a1, Inr \<lparr>ar_event_id = uuid n, ar_deduplicated = False, ar_existing_event_id = None\<rparr>)"
    "inv a1" "stream a1 = (stream a)(d := stream a d @ [mkrec (uuid n) ''MerkleRootPublished'' d p])" "keys a1 = keys a"
    by auto
  from Cons.IH [OF a1(2), of "Suc n"] obtain a2 where
    a2: "publish_roots ops uuid (Suc n) p ds a1 = (a2, Inr ())" "inv a2" "keys a2 = keys a1"
      "\<And>x. \<exists>is. length is = count_list ds x \<and> stream a2 x = stream a1 x @ map (\<lambda>i. mkrec i ''MerkleRootPublished'' x p) is"
    by auto
  have "\<exists>is. length is = count_list (d # ds) x \<and>
      stream a2 x = stream a x @ map (\<lambda>i. mkrec i ''MerkleRootPublished'' x p) is" for x
  proof -
    obtain is' where is': "length is' = count_list ds x" "stream a2 x = stream a1 x @ map (\<lambda>i. mkrec i ''MerkleRootPublished'' x p) is'"
      using a2(4) by blast
    show ?thesis
      by (rule exI [of _ "if x = d then uuid n # is' else is'"]) (use is' a1(3) in auto)
  qed
  with a1 a2 show ?case by auto
qed simp

end

subsection \<open>One anchoring on the in-memory adapters\<close>

lemma count_list_distinct: "distinct xs \<Longrightarrow> count_list xs x = (if x \<in> set xs then 1 else 0)"
  by (induction xs) auto

lemma count_sorted_set: "count_list (sorted_set xs) x = (if x \<in> set xs then 1 else 0)"
  by (simp add: count_list_distinct)

lemma memory_mark_op: "op_mark_batched memory_ops a ids b = (a\<lparr>ma_batched := ma_batched a \<union> set ids\<rparr>, Inr ())"
  by (simp add: memory_ops_def memory_mark_batched_def)

lemma memory_publish_batched: "publish_roots memory_ops uuid n p ds a = (a', r) \<Longrightarrow> ma_batched a' = ma_batched a"
proof (induction ds arbitrary: a n)
  case (Cons d ds)
  from memory_append_fresh [of None a "uuid n" d "''MerkleRootPublished''" p] obtain a1 x where
    "op_append memory_ops (uuid n) a d ''MerkleRootPublished'' p None = (a1, Inr x)" "ma_batched a1 = ma_batched a"
    by (auto simp: memory_ops_def)
  with Cons show ?case by auto
qed simp

text \<open>A proof that verifies and whose sides are the two that the wire format knows.\<close>

definition valid_steps :: "bytes \<Rightarrow> proof_step list \<Rightarrow> bytes \<Rightarrow> bool" where
  "valid_steps leaf steps rt = (verify_inclusion_proof leaf steps rt \<and>
     (\<forall>s \<in> set steps. position s = ''LEFT'' \<or> position s = ''RIGHT''))"

definition batch_leaves :: "builder \<Rightarrow> bytes list" where
  "batch_leaves b = map pl_leaf_hash (pending b)"

lemma batch_proof_exists:
  assumes "i < length ls"
  shows "\<exists>steps. proof_for \<lparr>leaves = ls, levels = tree_levels ls\<rparr> (int i) = Inr steps \<and>
    valid_steps (ls ! i) steps (merkle_root ls)"
proof -
  have "ls \<noteq> []" using assms by auto
  with close_proof_exists [of i "\<lparr>leaves = ls, levels = []\<rparr>"] assms close_eq [of "\<lparr>leaves = ls, levels = []\<rparr>"]
  show ?thesis by (fastforce simp: valid_steps_def proof_for_def dest: proof_loop_sides split: if_splits)
qed

text \<open>Every leaf's row verifies, whichever of several equal leaves wrote it last; other rows stay.\<close>

lemma proof_rows_lookup:
  fixes ls :: "bytes list" and sg :: bytes and tok :: tsa_token and b :: string
  defines "rows \<equiv> proof_rows \<lparr>leaves = ls, levels = tree_levels ls\<rparr> (merkle_root ls) sg tok b 0 ls"
  shows "leaf \<in> set ls \<Longrightarrow> \<exists>steps. map_of (rev rows) (proof_key leaf) = Some (proof_row leaf steps (merkle_root ls) sg tok b) \<and>
      valid_steps leaf steps (merkle_root ls)"
    and "k \<notin> proof_key ` set ls \<Longrightarrow> map_of (rev rows) k = None"
proof -
  have row: "\<exists>steps. v = proof_row l steps (merkle_root ls) sg tok b \<and> valid_steps l steps (merkle_root ls) \<and> k = proof_key l \<and> l \<in> set ls"
    if kv: "(k, v) \<in> set rows" and "k = proof_key l" for k v l
  proof -
    from kv obtain i where i: "i < length ls" "k = proof_key (ls ! i)"
      "v = (case proof_for \<lparr>leaves = ls, levels = tree_levels ls\<rparr> (int i) of
              Inr steps \<Rightarrow> proof_row (ls ! i) steps (merkle_root ls) sg tok b | Inl _ \<Rightarrow> [])"
      by (auto simp: rows_def proof_rows_def in_set_enumerate_eq)
    moreover from i(2) \<open>k = proof_key l\<close> have "ls ! i = l" by (metis proof_key_inj)
    ultimately show ?thesis using batch_proof_exists [OF i(1)] by auto
  qed
  have "map fst rows = map proof_key (map snd (enumerate 0 ls))"
    unfolding rows_def proof_rows_def map_map by (rule map_cong) auto
  then have keys: "fst ` set rows = proof_key ` set ls"
    by (metis list.set_map map_snd_enumerate)
  show "leaf \<in> set ls \<Longrightarrow> \<exists>steps. map_of (rev rows) (proof_key leaf) = Some (proof_row leaf steps (merkle_root ls) sg tok b) \<and>
      valid_steps leaf steps (merkle_root ls)"
  proof -
    assume "leaf \<in> set ls"
    then have "proof_key leaf \<in> fst ` set (rev rows)" using keys by auto
    then obtain v where v: "map_of (rev rows) (proof_key leaf) = Some v" by (metis map_of_eq_None_iff not_None_eq set_rev)
    then have "(proof_key leaf, v) \<in> set rows" using map_of_SomeD by fastforce
    with row v show ?thesis by blast
  qed
  show "k \<notin> proof_key ` set ls \<Longrightarrow> map_of (rev rows) k = None"
    using keys by (simp add: map_of_eq_None_iff)
qed

lemma memory_close_and_anchor:
  fixes s :: "(memory_audit, memory_store) anchor"
  assumes "pending (an_builder s) \<noteq> []" "stamp (merkle_root (batch_leaves (an_builder s))) = Inr tok"
  obtains s' where
    "close_and_anchor memory_ops memory_store_ops sign stamp uuid s = (s', Inr (uuid 0))"
    "an_builder s' = (an_builder s)\<lparr>pending := [], first_leaf_ts := None\<rparr>"
    "an_store s' = memory_kv.set_all (proof_rows \<lparr>leaves = batch_leaves (an_builder s), levels = tree_levels (batch_leaves (an_builder s))\<rparr>
       (merkle_root (batch_leaves (an_builder s))) (sign (merkle_root (batch_leaves (an_builder s)))) tok (uuid 0) 0
       (batch_leaves (an_builder s))) (an_store s)"
    "\<And>d. \<exists>is. length is = count_list (''system'' # sorted_set (map pl_decision_id (pending (an_builder s)))) d \<and>
       memory_stream (an_audit s') d = memory_stream (an_audit s) d @ map (\<lambda>i. memory_record i ''MerkleRootPublished'' d
         (root_payload (uuid 0) (merkle_root (batch_leaves (an_builder s))) (length (pending (an_builder s)))
           (sign (merkle_root (batch_leaves (an_builder s)))) tok)) is"
    "memory_keys (an_audit s') = memory_keys (an_audit s)"
    "ma_batched (an_audit s') = ma_batched (an_audit s) \<union> pl_event_id ` set (pending (an_builder s))"
proof -
  define ls where "ls = batch_leaves (an_builder s)"
  define pl where "pl = root_payload (uuid 0) (merkle_root ls) (length ls) (sign (merkle_root ls)) tok"
  define ds where "ds = ''system'' # sorted_set (map pl_decision_id (pending (an_builder s)))"
  have cl: "close_and_reset (an_builder s) = Inr ((an_builder s)\<lparr>pending := [], first_leaf_ts := None\<rparr>,
      \<lparr>leaves = ls, levels = tree_levels ls\<rparr>, merkle_root ls, pending (an_builder s))"
    using close_and_reset_eq [OF assms(1)] by (simp add: ls_def batch_leaves_def)
  have pr: "project_proofs memory_store_ops \<lparr>leaves = ls, levels = tree_levels ls\<rparr> (merkle_root ls) sg tok b 0 ls st =
      (memory_kv.set_all (proof_rows \<lparr>leaves = ls, levels = tree_levels ls\<rparr> (merkle_root ls) sg tok b 0 ls) st, Inr ())" for sg b st
    using batch_proof_exists [of _ ls] by (intro memory_kv.project_proofs_set_all) auto
  obtain a1 where a1: "publish_roots memory_ops uuid 1 pl ds (an_audit s) = (a1, Inr ())"
      "memory_keys a1 = memory_keys (an_audit s)"
      "\<And>d. \<exists>is. length is = count_list ds d \<and>
        memory_stream a1 d = memory_stream (an_audit s) d @ map (\<lambda>i. memory_record i ''MerkleRootPublished'' d pl) is"
    using memory.publish_roots_streams [OF TrueI TrueI, of uuid 1 pl ds "an_audit s"] by blast
  have len: "length (pending (an_builder s)) = length ls" by (simp add: ls_def batch_leaves_def)
  define s' where "s' = s\<lparr>an_builder := (an_builder s)\<lparr>pending := [], first_leaf_ts := None\<rparr>,
    an_store := memory_kv.set_all (proof_rows \<lparr>leaves = ls, levels = tree_levels ls\<rparr> (merkle_root ls) (sign (merkle_root ls)) tok (uuid 0) 0 ls) (an_store s),
    an_audit := a1\<lparr>ma_batched := ma_batched a1 \<union> set (map pl_event_id (pending (an_builder s)))\<rparr>\<rparr>"
  show ?thesis
  proof (rule that [of s'], goal_cases)
    case 1
    show ?case using assms(2) cl pr a1(1)
      by (simp add: s'_def close_and_anchor_def Let_def ls_def [symmetric] pl_def [symmetric] ds_def [symmetric]
          memory_mark_op del: publish_roots.simps)
  next
    case (4 d)
    show ?case using a1(3) [of d] by (simp add: s'_def memory_stream_def ds_def pl_def ls_def [symmetric] len)
  next
    case 5
    then show ?case using a1(2) by (simp add: s'_def memory_keys_def)
  next
    case 6
    then show ?case using memory_publish_batched [OF a1(1)] by (simp add: s'_def)
  qed (simp_all add: s'_def ls_def)
qed

text \<open>The store after an anchoring.\<close>

lemma memory_anchor_store:
  fixes ls :: "bytes list" and st :: memory_store and sg :: bytes and tok :: tsa_token and b :: string
  defines "st' \<equiv> memory_kv.set_all (proof_rows \<lparr>leaves = ls, levels = tree_levels ls\<rparr> (merkle_root ls) sg tok b 0 ls) st"
  shows "leaf \<in> set ls \<Longrightarrow> \<exists>steps. map_of st' (proof_key leaf) = Some (proof_row leaf steps (merkle_root ls) sg tok b) \<and>
      valid_steps leaf steps (merkle_root ls)"
    and "k \<notin> proof_key ` set ls \<Longrightarrow> map_of st' k = map_of st k"
proof -
  have st': "map_of st' = map_of st ++ map_of (rev (proof_rows \<lparr>leaves = ls, levels = tree_levels ls\<rparr> (merkle_root ls) sg tok b 0 ls))"
    unfolding st'_def by (rule memory_kv.lookup_set_all) simp_all
  show "leaf \<in> set ls \<Longrightarrow> \<exists>steps. map_of st' (proof_key leaf) = Some (proof_row leaf steps (merkle_root ls) sg tok b) \<and>
      valid_steps leaf steps (merkle_root ls)"
    using proof_rows_lookup(1) [of leaf ls sg tok b] by (auto simp: st' map_add_def)
  show "k \<notin> proof_key ` set ls \<Longrightarrow> map_of st' k = map_of st k"
    using proof_rows_lookup(2) [of k ls sg tok b] by (simp add: st' map_add_def)
qed

lemma row_verifies_proof_row:
  "valid_steps leaf steps rt \<Longrightarrow> row_verifies leaf (proof_row leaf steps rt sg tok b)"
  by (simp add: row_verifies_def decode_proof_row valid_steps_def)

text \<open>A row as this service writes it: a proof that verifies, and a time that some clock reading has in the wire format.\<close>

definition utc :: "datetime \<Rightarrow> bool" where
  "utc t = (valid_datetime t \<and> dt_offset t = Some 0)"

definition good_row :: "bytes \<Rightarrow> pydict \<Rightarrow> bool" where
  "good_row leaf row = (\<exists>steps rt sg tok b t. row = proof_row leaf steps rt sg tok b \<and> valid_steps leaf steps rt \<and>
     utc t \<and> timestamp_iso tok = isoformat_ms t)"

lemma good_row_verifies: "good_row leaf row \<Longrightarrow> row_verifies leaf row"
  by (auto simp: good_row_def row_verifies_proof_row)

text \<open>The two entry points when the authority always answers: they do nothing, or they anchor the whole batch.\<close>

lemma memory_anchor_rows:
  fixes s :: "(memory_audit, memory_store) anchor"
  assumes "pending (an_builder s) \<noteq> []" "utc t" "\<forall>g. timestamp_iso (f g) = isoformat_ms t"
  shows "\<exists>s'. close_and_anchor memory_ops memory_store_ops sign (\<lambda>g. Inr (f g)) uuid s = (s', Inr (uuid 0)) \<and>
    pending (an_builder s') = [] \<and> builder_ok (an_builder s') \<and>
    (\<forall>leaf \<in> set (batch_leaves (an_builder s)).
       \<exists>row. map_of (an_store s') (proof_key leaf) = Some row \<and> good_row leaf row) \<and>
    (\<forall>k. k \<notin> proof_key ` set (batch_leaves (an_builder s)) \<longrightarrow> map_of (an_store s') k = map_of (an_store s) k)"
proof (rule memory_close_and_anchor [where stamp = "\<lambda>g. Inr (f g)" and sign = sign and uuid = uuid, OF assms(1) HOL.refl], goal_cases)
  case (1 s')
  have "\<exists>row. map_of (an_store s') (proof_key leaf) = Some row \<and> good_row leaf row"
    if leaf: "leaf \<in> set (batch_leaves (an_builder s))" for leaf
  proof -
    let ?r = "merkle_root (batch_leaves (an_builder s))"
    from memory_anchor_store(1) [OF leaf, of "sign ?r" "f ?r" "uuid 0" "an_store s"] obtain steps where
      "map_of (an_store s') (proof_key leaf) = Some (proof_row leaf steps ?r (sign ?r) (f ?r) (uuid 0))"
      "valid_steps leaf steps ?r"
      unfolding 1(3) by blast
    then show ?thesis using assms(2,3) unfolding good_row_def by blast
  qed
  moreover have "map_of (an_store s') k = map_of (an_store s) k" if "k \<notin> proof_key ` set (batch_leaves (an_builder s))" for k
    unfolding 1(3) by (rule memory_anchor_store(2) [OF that])
  ultimately show ?case using 1(1,2) by (auto simp: builder_ok_def)
qed

lemma memory_anchor_streams:
  fixes s :: "(memory_audit, memory_store) anchor"
  assumes "pending (an_builder s) \<noteq> []"
  shows "\<exists>is rt sg. memory_stream (an_audit (fst (close_and_anchor memory_ops memory_store_ops sign (\<lambda>g. Inr (f g)) uuid s))) d =
    memory_stream (an_audit s) d @ map (\<lambda>i. memory_record i ''MerkleRootPublished'' d
      (root_payload (uuid 0) rt (length (pending (an_builder s))) sg (f rt))) is"
proof (rule memory_close_and_anchor [where stamp = "\<lambda>g. Inr (f g)" and sign = sign and uuid = uuid, OF assms HOL.refl], goal_cases)
  case (1 s')
  from 1(4) [of d] show ?case unfolding 1(1) by auto
qed

section \<open>Properties\<close>

text \<open>Anchoring serves every leaf. Whenever the authority answers, closing a non-empty batch succeeds, empties the
  builder, and leaves for each pending leaf a row which, decoded by a client from its hexadecimal text, is a valid
  inclusion proof of that leaf against the anchored root, with the signature and the time of that root; rows of other
  leaves and all scoreboards are untouched.\<close>

theorem anchor_rows_verify:
  fixes s :: "(memory_audit, memory_store) anchor"
  assumes "pending (an_builder s) \<noteq> []" "stamp (merkle_root (map pl_leaf_hash (pending (an_builder s)))) = Inr tok"
  shows "\<exists>s'. close_and_anchor memory_ops memory_store_ops sign stamp uuid s = (s', Inr (uuid 0)) \<and>
    pending (an_builder s') = [] \<and>
    (\<forall>p \<in> set (pending (an_builder s)). \<exists>row. map_of (an_store s') (proof_key (pl_leaf_hash p)) = Some row \<and>
       row_verifies (pl_leaf_hash p) row \<and>
       map_of row ''root'' = Some (PStr (to_hex (merkle_root (map pl_leaf_hash (pending (an_builder s)))))) \<and>
       map_of row ''anchor_signature'' = Some (PStr (to_hex (sign (merkle_root (map pl_leaf_hash (pending (an_builder s))))))) \<and>
       map_of row ''anchor_timestamp'' = Some (PStr (timestamp_iso tok))) \<and>
    (\<forall>k. k \<notin> proof_key ` pl_leaf_hash ` set (pending (an_builder s)) \<longrightarrow> map_of (an_store s') k = map_of (an_store s) k)"
proof -
  let ?ls = "batch_leaves (an_builder s)"
  have ls: "map pl_leaf_hash (pending (an_builder s)) = ?ls" "pl_leaf_hash ` set (pending (an_builder s)) = set ?ls"
    by (simp_all add: batch_leaves_def)
  show ?thesis unfolding ls image_image [symmetric]
  proof (rule memory_close_and_anchor [where stamp = stamp and sign = sign and uuid = uuid, OF assms(1) assms(2) [unfolded ls]], goal_cases)
    case (1 s')
    have row: "\<exists>row. map_of (an_store s') (proof_key (pl_leaf_hash p)) = Some row \<and> row_verifies (pl_leaf_hash p) row \<and>
       map_of row ''root'' = Some (PStr (to_hex (merkle_root ?ls))) \<and>
       map_of row ''anchor_signature'' = Some (PStr (to_hex (sign (merkle_root ?ls)))) \<and>
       map_of row ''anchor_timestamp'' = Some (PStr (timestamp_iso tok))" if p: "p \<in> set (pending (an_builder s))" for p
    proof -
      have "pl_leaf_hash p \<in> set ?ls" using p by (simp add: batch_leaves_def)
      from memory_anchor_store(1) [OF this] obtain steps where
        "map_of (an_store s') (proof_key (pl_leaf_hash p)) =
           Some (proof_row (pl_leaf_hash p) steps (merkle_root ?ls) (sign (merkle_root ?ls)) tok (uuid 0))"
        "valid_steps (pl_leaf_hash p) steps (merkle_root ?ls)"
        unfolding 1(3) by blast
      then show ?thesis by (auto simp: row_verifies_proof_row) (simp_all add: proof_row_def)
    qed
    moreover have "map_of (an_store s') k = map_of (an_store s) k" if "k \<notin> proof_key ` set ?ls" for k
      unfolding 1(3) using memory_anchor_store(2) [OF that] .
    ultimately show ?case using 1(1,2) by (intro exI [of _ s']) (simp add: ls)
  qed
qed

theorem anchor_rows_verify_witness:
  "\<exists>s' row. close_and_anchor memory_ops memory_store_ops rev (\<lambda>g. Inr (memory_tsa_timestamp ''t'' epoch g)) (\<lambda>n. ''u'')
      \<lparr>an_builder = add_leaf (new_builder 10 (Fin 5)) [1] ''e'' ''d'' (Fin 0), an_audit = new_memory_audit, an_store = []\<rparr> =
      (s', Inr ''u'') \<and> map_of (an_store s') (proof_key [1]) = Some row \<and> row_verifies [1] row"
  using anchor_rows_verify [of "\<lparr>an_builder = add_leaf (new_builder 10 (Fin 5)) [1] ''e'' ''d'' (Fin 0),
      an_audit = new_memory_audit, an_store = []\<rparr>" "\<lambda>g. Inr (memory_tsa_timestamp ''t'' epoch g)" _ rev "\<lambda>n. ''u''"]
  by (auto simp: add_leaf_def new_builder_def)

text \<open>Every decision of a batch learns its root. After an anchoring, the stream of each decision with a leaf in the
  batch ends with exactly one new \<^verbatim>\<open>MerkleRootPublished\<close> event carrying the root and the batch identifier, the stream
  \<^verbatim>\<open>system\<close> gets one more, all other streams and all idempotency keys are unchanged, and the pending events, and only
  they, have been marked as batched.\<close>

theorem anchor_publishes_to_decisions:
  fixes s :: "(memory_audit, memory_store) anchor"
  assumes "pending (an_builder s) \<noteq> []" "stamp (merkle_root (map pl_leaf_hash (pending (an_builder s)))) = Inr tok"
  shows "\<exists>s' p. close_and_anchor memory_ops memory_store_ops sign stamp uuid s = (s', Inr (uuid 0)) \<and>
    map_of p ''root'' = Some (PStr (to_hex (merkle_root (map pl_leaf_hash (pending (an_builder s)))))) \<and>
    map_of p ''batch_id'' = Some (PStr (uuid 0)) \<and>
    (\<forall>d. \<exists>is. length is = (if d \<in> pl_decision_id ` set (pending (an_builder s)) then 1 else 0) + (if d = ''system'' then 1 else 0) \<and>
       memory_stream (an_audit s') d = memory_stream (an_audit s) d @ map (\<lambda>i. memory_record i ''MerkleRootPublished'' d p) is) \<and>
    map_of (ma_idempotency_index (an_audit s')) = map_of (ma_idempotency_index (an_audit s)) \<and>
    ma_batched (an_audit s') = ma_batched (an_audit s) \<union> pl_event_id ` set (pending (an_builder s))"
proof -
  let ?ls = "batch_leaves (an_builder s)"
  let ?p = "root_payload (uuid 0) (merkle_root ?ls) (length (pending (an_builder s))) (sign (merkle_root ?ls)) tok"
  have ls: "map pl_leaf_hash (pending (an_builder s)) = ?ls" by (simp add: batch_leaves_def)
  show ?thesis unfolding ls
  proof (rule memory_close_and_anchor [where stamp = stamp and sign = sign and uuid = uuid, OF assms(1) assms(2) [unfolded ls]], goal_cases)
    case (1 s')
    have "\<exists>is. length is = (if d \<in> pl_decision_id ` set (pending (an_builder s)) then 1 else 0) + (if d = ''system'' then 1 else 0) \<and>
       memory_stream (an_audit s') d = memory_stream (an_audit s) d @ map (\<lambda>i. memory_record i ''MerkleRootPublished'' d ?p) is" for d
      using 1(4) [of d] by (auto simp: count_sorted_set)
    with 1 show ?case
      by (intro exI [of _ s'] exI [of _ ?p]) (simp add: memory_keys_def root_payload_def)
  qed
qed

theorem anchor_publishes_to_decisions_witness:
  "\<exists>s'. close_and_anchor memory_ops memory_store_ops rev (\<lambda>g. Inr (memory_tsa_timestamp ''t'' epoch g)) (\<lambda>n. ''u'')
      \<lparr>an_builder = add_leaf (new_builder 10 (Fin 5)) [1] ''e'' ''d'' (Fin 0), an_audit = new_memory_audit, an_store = []\<rparr> =
      (s', Inr ''u'') \<and> ma_batched (an_audit s') = {''e''}"
  using anchor_publishes_to_decisions [of "\<lparr>an_builder = add_leaf (new_builder 10 (Fin 5)) [1] ''e'' ''d'' (Fin 0),
      an_audit = new_memory_audit, an_store = []\<rparr>" "\<lambda>g. Inr (memory_tsa_timestamp ''t'' epoch g)" _ rev "\<lambda>n. ''u''"]
  by (auto simp: add_leaf_def new_builder_def new_memory_audit_def)

text \<open>Both thresholds matter, and the timer never closes an empty batch. A tick does nothing unless something is
  pending and either the batch is full or its first leaf is old enough, in floating-point seconds; and when it closes,
  it never hits the error for closing an empty batch.\<close>

theorem closing_thresholds:
  fixes s :: "(memory_audit, memory_store) anchor"
  assumes "builder_ok (an_builder s)"
  shows "(\<not> (pending (an_builder s) \<noteq> [] \<and>
       (max_leaves (an_builder s) \<le> int (length (pending (an_builder s))) \<or>
        (\<exists>t. first_leaf_ts (an_builder s) = Some t \<and> fle (max_seconds (an_builder s)) (fsub (timestamp now) t)))) \<longrightarrow>
      maybe_close_and_anchor memory_ops memory_store_ops sign stamp uuid now s = (s, Inr None)) \<and>
    snd (maybe_close_and_anchor memory_ops memory_store_ops sign (\<lambda>g. Inr (f g)) uuid now s) \<in>
      {Inr None, Inr (Some (uuid 0))} \<and>
    snd (force_close memory_ops memory_store_ops sign (\<lambda>g. Inr (f g)) uuid s) =
      (if pending (an_builder s) = [] then Inr None else Inr (Some (uuid 0)))"
proof -
  have sc: "should_close (an_builder s) (timestamp now) \<longleftrightarrow> pending (an_builder s) \<noteq> [] \<and>
       (max_leaves (an_builder s) \<le> int (length (pending (an_builder s))) \<or>
        (\<exists>t. first_leaf_ts (an_builder s) = Some t \<and> fle (max_seconds (an_builder s)) (fsub (timestamp now) t)))"
    by (auto simp: should_close_def split: option.splits)
  have "snd (close_and_anchor memory_ops memory_store_ops sign (\<lambda>g. Inr (f g)) uuid s) = Inr (uuid 0)"
    if "pending (an_builder s) \<noteq> []"
    using memory_close_and_anchor [where stamp = "\<lambda>g. Inr (f g)" and sign = sign and uuid = uuid, OF that]
    by (metis snd_conv)
  then have "snd (some_result (close_and_anchor memory_ops memory_store_ops sign (\<lambda>g. Inr (f g)) uuid s)) = Inr (Some (uuid 0))"
    if "pending (an_builder s) \<noteq> []"
    using that by (cases "close_and_anchor memory_ops memory_store_ops sign (\<lambda>g. Inr (f g)) uuid s") (auto simp: some_result_def)
  then show ?thesis
    by (auto simp: maybe_close_and_anchor_def force_close_def has_pending_def sc)
qed

theorem closing_thresholds_witness:
  "maybe_close_and_anchor memory_ops memory_store_ops rev (\<lambda>g. Inr (memory_tsa_timestamp ''t'' epoch g)) (\<lambda>n. ''u'') epoch
     \<lparr>an_builder = new_builder 10 (Fin 5), an_audit = new_memory_audit, an_store = []\<rparr> =
   (\<lparr>an_builder = new_builder 10 (Fin 5), an_audit = new_memory_audit, an_store = []\<rparr>, Inr None)"
  using closing_thresholds [of "\<lparr>an_builder = new_builder 10 (Fin 5), an_audit = new_memory_audit, an_store = []\<rparr>" epoch
      rev "\<lambda>g. Inr (memory_tsa_timestamp ''t'' epoch g)" "\<lambda>n. ''u''"]
  by (simp add: builder_ok_def new_builder_def)

text \<open>C26: a failing authority loses the batch. The builder is reset before the root is stamped; when the authority
  raises, the call ends with the builder empty and trail and store unchanged: the pending leaves are neither pending
  nor anchored, and no later tick or flush can anchor them.\<close>

theorem failing_authority_loses_batch:
  fixes s :: "(memory_audit, memory_store) anchor"
  assumes "pending (an_builder s) \<noteq> []" "stamp (merkle_root (map pl_leaf_hash (pending (an_builder s)))) = Inl e"
  shows "\<exists>s'. close_and_anchor memory_ops memory_store_ops sign stamp uuid s = (s', Inl e) \<and>
    pending (an_builder s') = [] \<and> an_audit s' = an_audit s \<and> an_store s' = an_store s \<and>
    force_close memory_ops memory_store_ops sign stamp' uuid' s' = (s', Inr None)"
  using close_and_reset_eq [OF assms(1)] assms(2)
  by (simp add: close_and_anchor_def Let_def force_close_def has_pending_def)

theorem failing_authority_loses_batch_witness:
  "\<exists>s'. close_and_anchor memory_ops memory_store_ops rev (\<lambda>g. Inl (TsaError ''down'')) (\<lambda>n. ''u'')
      \<lparr>an_builder = add_leaf (new_builder 10 (Fin 5)) [1] ''e'' ''d'' (Fin 0), an_audit = new_memory_audit, an_store = []\<rparr> =
      (s', Inl (TsaError ''down'')) \<and> pending (an_builder s') = [] \<and> an_store s' = []"
  using failing_authority_loses_batch [of "\<lparr>an_builder = add_leaf (new_builder 10 (Fin 5)) [1] ''e'' ''d'' (Fin 0),
      an_audit = new_memory_audit, an_store = []\<rparr>" "\<lambda>g. Inl (TsaError ''down'')" "TsaError ''down''" rev "\<lambda>n. ''u''"]
  by (auto simp: add_leaf_def new_builder_def)

end
