(* ===== verification/ScoreboardProjector.thy ===== *)
theory ScoreboardProjector
  imports PolicyEvaluator MerkleAnchor
begin

text \<open>
  \<^verbatim>\<open>application/scoreboard_projector.py\<close>: rebuilding the read model of one decision from its event stream and
  storing it. The trail is only read; the two clock readings of a call (policy evaluation, rebuild time) are arguments.
\<close>

section \<open>Definitions\<close>

definition scoreboard_key :: "string \<Rightarrow> string" where
  "scoreboard_key decision_id = ''scoreboard:'' @ decision_id"

definition last_root_event :: "pydict list \<Rightarrow> pydict option" where
  "last_root_event events = find (has_type ''MerkleRootPublished'') (rev events)"

text \<open>A field declared \<^verbatim>\<open>str | None\<close>.\<close>

definition v_opt_str :: "pydantic \<Rightarrow> pyval \<Rightarrow> string option res" where
  "v_opt_str P v = (if v = PNone then Inr None
     else case v_str P v of None \<Rightarrow> Inl (ValidationError ''ScoreboardState'') | Some s \<Rightarrow> Inr (Some s))"

definition root_reference :: "pydict list \<Rightarrow> (pyval \<times> datetime option) res" where
  "root_reference events =
     (case last_root_event events of
        None \<Rightarrow> Inr (PNone, None)
      | Some e \<Rightarrow> rbind (getitem e ''root'') (\<lambda>rt.
                 rbind (rbind (getitem e ''anchor_timestamp'') parse_dt) (\<lambda>t. Inr (rt, Some t))))"

definition metric_view :: "metric_record \<Rightarrow> scoreboard_metric_view" where
  "metric_view m = \<lparr>sv_value = mr_value m, sv_evidence_refs = mr_evidence_refs m, sv_committed_at = mr_created_at m,
                    sv_status = mr_status m\<rparr>"

definition build_state ::
    "pydantic \<Rightarrow> datetime \<Rightarrow> datetime \<Rightarrow> string \<Rightarrow> string list \<Rightarrow> pydict list \<Rightarrow> scoreboard_state res" where
  "build_state P now1 now2 decision_id required_metrics events =
     rbind (metrics_reconstruct P decision_id events) (\<lambda>ms.
     rbind (risk_reconstruct P decision_id events) (\<lambda>risk_signals.
     rbind (root_reference events) (\<lambda>(rt, rt_time).
     rbind (evaluate_policy now1 required_metrics ms risk_signals None default_thresholds) (\<lambda>v.
     rbind (v_opt_str P rt) (\<lambda>rt_ref.
       Inr \<lparr>sb_decision_id = decision_id, sb_trust_score = pv_trust_score v, sb_policy_verdict = pv_status v,
            sb_metrics = map (\<lambda>(name, m). (name, metric_view m)) ms, sb_merkle_root_ref = rt_ref,
            sb_merkle_timestamp = rt_time, sb_rebuilt_at = now2, sb_rebuild_seq = length events\<rparr>)))))"

definition rebuild ::
    "pydantic \<Rightarrow> 'a audit_ops \<Rightarrow> 's store_ops \<Rightarrow> datetime \<Rightarrow> datetime \<Rightarrow> 'a \<Rightarrow> 's \<Rightarrow> string \<Rightarrow> string list
     \<Rightarrow> ('s, scoreboard_state) sres" where
  "rebuild P ops st now1 now2 a s decision_id required_metrics =
     (case rbind (op_read_range ops a decision_id 0) (build_state P now1 now2 decision_id required_metrics) of
        Inl e \<Rightarrow> (s, Inl e)
      | Inr state \<Rightarrow>
          sbind (st_set st s (scoreboard_key decision_id) (dump_scoreboard P state)) (\<lambda>s _. (s, Inr state)) (\<lambda>s. s))"

section \<open>Lemmas\<close>

lemma evaluate_policy_clock:
  "evaluate_policy now' req ms rs w th =
     rbind (evaluate_policy now req ms rs w th) (\<lambda>v. Inr (v\<lparr>pv_computed_at := now'\<rparr>))"
proof (cases "missing_metrics req (committed_required req ms) = []")
  case True
  then show ?thesis
    by (cases "score_loop (policy_weights w req) (committed_required req ms) (committed_required req ms) [] (Fin 0)")
       (simp_all add: evaluate_policy_def Let_def)
qed (simp add: evaluate_policy_def Let_def)

lemma build_state_clock:
  "build_state P t1 t2 d req es = rbind (build_state P now1 now2 d req es) (\<lambda>s. Inr (s\<lparr>sb_rebuilt_at := t2\<rparr>))"
  using evaluate_policy_clock [of t1 req _ _ None default_thresholds now1]
  by (cases "metrics_reconstruct P d es"; cases "risk_reconstruct P d es"; cases "root_reference es")
     (auto simp: build_state_def rbind_def split: sum.splits)

lemma memory_rebuild:
  "rebuild P memory_ops memory_store_ops now1 now2 a s d req =
     (case build_state P now1 now2 d req (memory_stream a d) of
        Inl e \<Rightarrow> (s, Inl e)
      | Inr state \<Rightarrow> (AList.update (scoreboard_key d) (dump_scoreboard P state) s, Inr state))"
  by (simp add: rebuild_def memory_ops_def memory_read_range_def memory_stream_def memory_store_ops_def memory_set_def
      split: sum.splits)

lemma last_root_event_snoc:
  "last_root_event (es @ [e]) = (if has_type ''MerkleRootPublished'' e then Some e else last_root_event es)"
  by (simp add: last_root_event_def)

lemma scoreboard_key_not_proof: "scoreboard_key d \<noteq> proof_key l"
  by (simp add: scoreboard_key_def proof_key_def)

lemma build_state_metrics:
  assumes "build_state P t1 t2 d req es = Inr s"
  obtains ms where "metrics_reconstruct P d es = Inr ms" "sb_metrics s = map (\<lambda>(n, m). (n, metric_view m)) ms"
  using assms by (auto simp: build_state_def rbind_eq_Inr)

lemma map_of_views: "map_of (map (\<lambda>(n, m). (n, metric_view m)) ms) n = map_option metric_view (map_of ms n)"
  by (induction ms) auto

subsection \<open>The stream of a metric that was committed and anchored\<close>

lemma committed_event:
  "memory_record i ''MetricCommitted'' d (committed_payload d m v refs k h ts b) =
     [(''event_id'', PStr i), (''event_type'', PStr ''MetricCommitted''), (''decision_id'', PStr d), (''metric_name'', PStr m),
      (''value'', v), (''evidence_refs'', PList (map PStr (sort refs))), (''idempotency_key'', PStr k), (''leaf_hash'', PStr h),
      (''committed_at'', PStr ts), (''proposed_by'', b)]"
  by (simp add: memory_record_def committed_payload_def dict_update_def)

lemma root_event:
  "memory_record i ''MerkleRootPublished'' d (root_payload bid rt n sg tok) =
     [(''event_id'', PStr i), (''event_type'', PStr ''MerkleRootPublished''), (''decision_id'', PStr d), (''batch_id'', PStr bid),
      (''root'', PStr (to_hex rt)), (''leaf_count'', PInt (int n)), (''anchor_signature'', PStr (to_hex sg)),
      (''anchor_timestamp'', PStr (timestamp_iso tok))]"
  by (simp add: memory_record_def root_payload_def dict_update_def)

lemma parse_utc: "utc t \<Longrightarrow> parse_dt (PStr (isoformat_ms t)) = Inr (t\<lparr>dt_micro := dt_micro t div 1000 * 1000\<rparr>)"
  by (simp add: parse_dt_def utc_def fromisoformat_isoformat_ms)

lemma committed_event_record:
  assumes "pydantic_ok P" "utc now" "length leaf = 32"
  shows "committed_record P d (memory_record i ''MetricCommitted'' d (committed_payload d m v refs k (to_hex leaf) (isoformat_ms now) (PStr b))) =
    Inr \<lparr>mr_decision_id = d, mr_metric_name = m, mr_value = v, mr_proposed_by = b, mr_idempotency_key = k,
         mr_evidence_refs = sorted_set refs, mr_status = MS_COMMITTED, mr_created_at = now\<lparr>dt_micro := dt_micro now div 1000 * 1000\<rparr>,
         mr_leaf_hash = Some (to_hex leaf), mr_runtime_context = PDict [], mr_superseded_by = PNone\<rparr>"
  using mk_metric_record_ok [OF assms(1,3), of d m v b k "sort refs"] parse_utc [OF assms(2)]
  by (simp add: committed_event committed_record_def getitem_def dict_get_def)

lemma metrics_loop_roots:
  "metrics_loop P d (map (\<lambda>i. memory_record i ''MerkleRootPublished'' d (root_payload bid rt n sg tok)) is) ms = Inr ms"
  by (induction "is") (simp_all add: has_type_def root_event)

lemma build_state_anchored:
  assumes "pydantic_ok P" "utc now" "length leaf = 32" "utc t" "timestamp_iso tok = isoformat_ms t"
    and "\<forall>x. v = PInt x \<longrightarrow> \<bar>x\<bar> \<le> 2 ^ 53"
  shows "\<exists>sb. build_state P t1 t2 d req
      (memory_record i ''MetricCommitted'' d (committed_payload d m v refs k (to_hex leaf) (isoformat_ms now) (PStr b)) #
       map (\<lambda>i. memory_record i ''MerkleRootPublished'' d (root_payload bid rt n sg tok)) is) = Inr sb \<and>
    sb_metrics sb = [(m, \<lparr>sv_value = v, sv_evidence_refs = sorted_set refs,
      sv_committed_at = now\<lparr>dt_micro := dt_micro now div 1000 * 1000\<rparr>, sv_status = MS_COMMITTED\<rparr>)] \<and>
    sb_merkle_root_ref sb = (if is = [] then None else Some (to_hex rt))"
proof -
  let ?c = "memory_record i ''MetricCommitted'' d (committed_payload d m v refs k (to_hex leaf) (isoformat_ms now) (PStr b))"
  let ?rs = "map (\<lambda>i. memory_record i ''MerkleRootPublished'' d (root_payload bid rt n sg tok)) is"
  define r where "r = \<lparr>mr_decision_id = d, mr_metric_name = m, mr_value = v, mr_proposed_by = b, mr_idempotency_key = k,
         mr_evidence_refs = sorted_set refs, mr_status = MS_COMMITTED, mr_created_at = now\<lparr>dt_micro := dt_micro now div 1000 * 1000\<rparr>,
         mr_leaf_hash = Some (to_hex leaf), mr_runtime_context = PDict [], mr_superseded_by = PNone\<rparr>"
  have c: "has_type ''MetricCommitted'' ?c" by (simp add: has_type_def committed_event)
  have ms: "metrics_reconstruct P d (?c # ?rs) = Inr [(m, r)]"
    unfolding metrics_reconstruct_def
    using metrics_loop_commit [OF c committed_event_record [OF assms(1-3)] assms(1)]
    by (simp add: metrics_loop_roots r_def)
  have "filter (has_type ''RiskSignal'') (?c # ?rs) = []"
    by (auto simp: has_type_def committed_event root_event filter_empty_conv)
  then have rs: "risk_reconstruct P d (?c # ?rs) = Inr []" by (simp add: risk_reconstruct_def)
  obtain pv where pv: "evaluate_policy t1 req [(m, r)] [] None default_thresholds = Inr pv"
    using evaluate_policy_total [of "[(m, r)]"] assms(6) by (fastforce simp: r_def)
  have "last_root_event (?c # ?rs) = (if is = [] then None else Some (last ?rs))"
    by (cases "is" rule: rev_cases) (simp_all add: last_root_event_def has_type_def committed_event root_event)
  moreover have "is \<noteq> [] \<Longrightarrow> last ?rs = memory_record (last is) ''MerkleRootPublished'' d (root_payload bid rt n sg tok)"
    by (simp add: last_map)
  ultimately have "root_reference (?c # ?rs) = Inr (if is = [] then PNone else PStr (to_hex rt),
      if is = [] then None else Some (t\<lparr>dt_micro := dt_micro t div 1000 * 1000\<rparr>))"
    using parse_utc [OF assms(4)] by (simp add: root_reference_def root_event getitem_def assms(5))
  then show ?thesis
    by (simp add: build_state_def ms rs pv v_opt_str_def pydantic_okD(2) [OF assms(1)] metric_view_def) (simp add: r_def)
qed

section \<open>Properties\<close>

text \<open>C36: deterministic reconstruction. Rebuilding a decision again, at other times and from a store that meanwhile
  holds the first result or anything else, succeeds or fails in the same way and gives the same state except for
  \<^verbatim>\<open>rebuilt_at\<close>; it depends on nothing but the decision's own events, and writes no row but its own scoreboard.\<close>

theorem rebuild_deterministic:
  assumes "rebuild P memory_ops memory_store_ops now1 now2 a s d req = (s', r)"
    and "memory_stream a2 d = memory_stream a d"
    and "rebuild P memory_ops memory_store_ops t1 t2 a2 s2 d req = (s2', r2)"
  shows "r2 = rbind r (\<lambda>sb. Inr (sb\<lparr>sb_rebuilt_at := t2\<rparr>)) \<and>
    (\<forall>k. k \<noteq> scoreboard_key d \<longrightarrow> map_of s' k = map_of s k) \<and>
    (\<forall>sb. r = Inr sb \<longrightarrow> map_of s' (scoreboard_key d) = Some (dump_scoreboard P sb))"
proof -
  have "r = build_state P now1 now2 d req (memory_stream a d)"
    using assms(1) by (auto simp: memory_rebuild split: sum.splits)
  moreover have "r2 = build_state P t1 t2 d req (memory_stream a d)"
    using assms(2,3) by (auto simp: memory_rebuild split: sum.splits)
  ultimately show ?thesis
    using assms(1) build_state_clock [of P t1 t2 d req "memory_stream a d" now1 now2]
    by (auto simp: memory_rebuild map_of_AList_update split: sum.splits)
qed

theorem rebuild_deterministic_witness:
  "\<exists>s' sb. rebuild strict_pydantic memory_ops memory_store_ops epoch epoch new_memory_audit [] ''d'' [] = (s', Inr sb) \<and>
     map_of s' (scoreboard_key ''d'') = Some [(''decision_id'', PStr ''d'')]"
proof -
  have b: "\<exists>sb. build_state strict_pydantic epoch epoch ''d'' [] [] = Inr sb \<and> sb_decision_id sb = ''d''"
    by (simp add: build_state_def metrics_reconstruct_def risk_reconstruct_def root_reference_def last_root_event_def
        evaluate_policy_def Let_def committed_required_def missing_metrics_def v_opt_str_def)
  then obtain s' sb where sb: "rebuild strict_pydantic memory_ops memory_store_ops epoch epoch new_memory_audit [] ''d'' [] = (s', Inr sb)"
      "sb_decision_id sb = ''d''"
    by (auto simp: memory_rebuild memory_stream_def new_memory_audit_def dict_get_def)
  from rebuild_deterministic [OF sb(1) HOL.refl sb(1)] sb show ?thesis
    by (auto simp: strict_pydantic_def)
qed

text \<open>The scoreboard points to the newest anchor. A rebuilt state refers to the root and the time of the last
  \<^verbatim>\<open>MerkleRootPublished\<close> event of the decision's stream, whatever other events follow it, and to none when there is none.\<close>

theorem rebuild_newest_root:
  assumes "build_state P now1 now2 d req (es @ e # fs) = Inr s" "pydantic_ok P"
    and "has_type ''MerkleRootPublished'' e" "\<forall>f \<in> set fs. \<not> has_type ''MerkleRootPublished'' f"
    and "map_of e ''root'' = Some (PStr rt)"
  shows "sb_merkle_root_ref s = Some rt \<and>
    (\<exists>v t. map_of e ''anchor_timestamp'' = Some v \<and> parse_dt v = Inr t \<and> sb_merkle_timestamp s = Some t)"
proof -
  have "last_root_event (es @ e # fs) = Some e"
    using assms(3,4)
  proof (induction fs rule: rev_induct)
    case (snoc f fs)
    then show ?case using last_root_event_snoc [of "es @ e # fs" f] by simp
  qed (simp add: last_root_event_def)
  with assms(1,5) pydantic_okD(2) [OF assms(2)] show ?thesis
    by (auto simp: build_state_def root_reference_def rbind_eq_Inr v_opt_str_def getitem_Some split: if_splits)
qed

theorem rebuild_newest_root_witness:
  "\<exists>s. build_state strict_pydantic epoch epoch ''d'' []
     ([] @ [(''event_type'', PStr ''MerkleRootPublished''), (''root'', PStr ''ab''), (''anchor_timestamp'', PStr (isoformat_ms epoch))] # []) =
     Inr s \<and> sb_merkle_root_ref s = Some ''ab''"
proof -
  let ?e = "[(''event_type'', PStr ''MerkleRootPublished''), (''root'', PStr ''ab''), (''anchor_timestamp'', PStr (isoformat_ms epoch))]"
  obtain s where "build_state strict_pydantic epoch epoch ''d'' [] ([] @ ?e # []) = Inr s"
    by (simp add: build_state_def metrics_reconstruct_def risk_reconstruct_def root_reference_def last_root_event_def has_type_def
        getitem_def parse_dt_def evaluate_policy_def Let_def committed_required_def missing_metrics_def v_opt_str_def
        strict_pydantic_def)
  from rebuild_newest_root [OF this] this show ?thesis by (auto simp: has_type_def)
qed

lemma rmap_Inl: "x \<in> set xs \<Longrightarrow> f x = Inl e \<Longrightarrow> \<exists>e'. rmap f xs = Inl e'"
  by (induction xs) (auto simp: rbind_def split: sum.splits)

lemma poisoned_build:
  assumes "e \<in> set es" "has_type ''RiskSignal'' e" "risk_entry P d e = Inl x"
  shows "\<exists>err. build_state P t1 t2 d req es = Inl err"
proof -
  have "\<exists>err. risk_reconstruct P d es = Inl err"
    unfolding risk_reconstruct_def using assms by (intro rmap_Inl [of e _ _ x]) auto
  then show ?thesis by (auto simp: build_state_def rbind_def split: sum.splits)
qed

lemma memory_record_lookup:
  assumes "distinct (map fst p)" "map_of p k = Some v"
  shows "map_of (memory_record i ty d p) k = Some v"
  using assms by (simp add: memory_record_def map_of_dict_update)

lemma run_stream_mono: "e \<in> set (memory_stream (co_audit c) d) \<Longrightarrow> e \<in> set (memory_stream (co_audit (foldl core_exec c xs)) d)"
  using audit_reach_run [of c xs] audit_run_grows unfolding audit_reach_def by (metis set_mono_prefix subsetD)

text \<open>C37: one bad signal blinds the scoreboard for good. The handler stores a risk signal without checking it. If its
  severity is a float outside the unit interval, the handler reports success, and from then on every rebuild of that
  decision fails, at any time and after any further commands and events: the trail is append-only, so nothing can
  remove the event again.\<close>

theorem bad_signal_blinds_scoreboard:
  fixes c :: "memory_audit core"
  assumes "pydantic_ok P" "distinct (map fst p)" "map_of p ''decision_id'' = Some (PStr d)"
    "map_of p ''metric_name'' = Some (PStr m)" "map_of p ''event_type'' = Some (PStr ''RiskSignal'')"
    "map_of p ''severity'' = Some (PFloat x)" "\<not> (fle (Fin 0) x \<and> fle x (Fin 1))"
  shows "\<exists>c1. on_risk_signal memory_ops i c p = (c1, Inr ()) \<and>
    (\<forall>xs. \<exists>err. build_state P t1 t2 d req (memory_stream (co_audit (foldl core_exec c1 xs)) d) = Inl err)"
proof -
  let ?e = "memory_record i ''RiskSignal'' d p"
  note rec = memory_record_lookup [OF assms(2)]
  have ty: "has_type ''RiskSignal'' ?e" by (simp add: has_type_def rec [OF assms(5)])
  have bad: "\<exists>err. risk_entry P d ?e = Inl err"
    using assms(7) by (auto simp: risk_entry_def getitem_Some [OF rec [OF assms(4)]] dict_get_def rec [OF assms(6)]
        mk_risk_signal_entry_def pydantic_okD [OF assms(1)] split: option.splits)
  obtain c1 where c1: "on_risk_signal memory_ops i c p = (c1, Inr ())" "?e \<in> set (memory_stream (co_audit c1) d)"
    using memory_stage [OF staging_key_strs [OF assms(3,4)], of i c "''RiskSignal''"
        "\<lambda>st. AList.update ''risk_level'' (dict_get p ''risk_level'' PNone) (AList.update ''status'' (PStr ''CRITIQUED'') st)"]
    by (auto simp: on_risk_signal_def)
  then have "\<exists>err. build_state P t1 t2 d req (memory_stream (co_audit (foldl core_exec c1 xs)) d) = Inl err" for xs
    using bad poisoned_build [OF run_stream_mono ty] by blast
  with c1(1) show ?thesis by blast
qed

theorem bad_signal_blinds_scoreboard_witness:
  "\<exists>c1 err. on_risk_signal memory_ops ''i'' (new_core new_memory_audit (new_builder 10 (Fin 5)))
     [(''event_type'', PStr ''RiskSignal''), (''decision_id'', PStr ''d''), (''metric_name'', PStr ''m''), (''severity'', PFloat (Fin 2))] =
     (c1, Inr ()) \<and> build_state strict_pydantic epoch epoch ''d'' [] (memory_stream (co_audit c1) ''d'') = Inl err"
proof -
  let ?p = "[(''event_type'', PStr ''RiskSignal''), (''decision_id'', PStr ''d''), (''metric_name'', PStr ''m''), (''severity'', PFloat (Fin 2))]"
  obtain c1 where c1: "on_risk_signal memory_ops ''i'' (new_core new_memory_audit (new_builder 10 (Fin 5))) ?p = (c1, Inr ())"
    "\<forall>xs. \<exists>err. build_state strict_pydantic epoch epoch ''d'' [] (memory_stream (co_audit (foldl core_exec c1 xs)) ''d'') = Inl err"
    using bad_signal_blinds_scoreboard [OF strict_pydantic_ok, of ?p "''d''" "''m''" "Fin 2" "''i''"
        "new_core new_memory_audit (new_builder 10 (Fin 5))" epoch epoch "[]"] by auto
  from c1(2) [rule_format, of "[]"] c1(1) show ?thesis by auto
qed

end
