(* ===== verification/Api.thy ===== *)
theory Api
  imports ScoreboardProjector
begin

text \<open>
  The REST surface: \<^verbatim>\<open>api/main.py\<close> (the three endpoints, the timer tick and the shutdown flush), the wire
  models of \<^verbatim>\<open>api/schemas.py\<close> and the application state of \<^verbatim>\<open>api/deps.py\<close>, wired as
  \<^verbatim>\<open>CORE_ENV=local\<close> wires them (in-memory adapters, \<^verbatim>\<open>MemoryTsa\<close>); the signing function is a parameter.
  FastAPI turns a failed request model into status 422. A long dash in an error text is written as a hyphen.
\<close>

section \<open>Application state\<close>

record app =
  ap_core :: "memory_audit core"
  ap_store :: memory_store
  ap_required :: "(string \<times> string list) list"

definition new_app :: "int \<Rightarrow> pyfloat \<Rightarrow> (string \<times> string list) list \<Rightarrow> app" where
  "new_app n t required =
     \<lparr>ap_core = new_core new_memory_audit (new_builder n t), ap_store = [], ap_required = required\<rparr>"

section \<open>Wire models\<close>

record update_metric_request =
  rq_decision_id :: string
  rq_metric_name :: string
  rq_value :: pyval
  rq_idempotency_key :: string
  rq_evidence_refs :: "string list"
  rq_proposed_by :: string
  rq_runtime_context :: pyval

definition validate_update :: "update_metric_request \<Rightarrow> bool" where
  "validate_update body = (16 \<le> length (rq_idempotency_key body) \<and> 1 \<le> length (rq_evidence_refs body))"

text \<open>\<^verbatim>\<open>UpdateMetricResponseBody\<close>: its status is one of two literals.\<close>

record update_metric_response_body =
  rb_status :: string

definition mk_update_metric_response_body :: "string \<Rightarrow> update_metric_response_body res" where
  "mk_update_metric_response_body st =
     (if st \<in> {''ACCEPTED'', ''DUPLICATE_IGNORED''} then Inr \<lparr>rb_status = st\<rparr>
      else Inl (ValidationError ''UpdateMetricResponseBody''))"

record scoreboard_metric_out =
  so_value :: pyval
  so_evidence_refs :: "string list"
  so_committed_at :: datetime

record get_scoreboard_response =
  gs_decision_id :: string
  gs_trust_score :: "pyfloat + string"
  gs_metrics :: "(string \<times> scoreboard_metric_out) list"
  gs_merkle_root_ref :: "string option"
  gs_merkle_timestamp :: "datetime option"
  gs_rebuilt_at :: datetime

record proof_node_out =
  pn_hash :: string
  pn_position :: string

record get_merkle_proof_response =
  gm_leaf_hash :: string
  gm_proof_path :: "proof_node_out list"
  gm_root :: string
  gm_anchor_signature :: string
  gm_anchor_timestamp :: datetime

section \<open>Endpoints\<close>

definition to_command :: "update_metric_request \<Rightarrow> update_metric_command" where
  "to_command body =
     \<lparr>um_decision_id = rq_decision_id body, um_metric_name = rq_metric_name body, um_value = rq_value body,
      um_idempotency_key = rq_idempotency_key body, um_evidence_refs = rq_evidence_refs body,
      um_proposed_by = rq_proposed_by body, um_runtime_context = rq_runtime_context body\<rparr>"

definition post_metrics :: "datetime \<Rightarrow> string \<Rightarrow> app \<Rightarrow> update_metric_request \<Rightarrow> (app, nat \<times> string) sres" where
  "post_metrics now i s body =
     (if \<not> validate_update body then (s, Inl (HTTPException 422 ''validation''))
      else case handle_update_metric memory_ops now i (ap_core s) (to_command body) of
        (c, Inl e) \<Rightarrow> (s\<lparr>ap_core := c\<rparr>, Inl e)
      | (c, Inr r) \<Rightarrow>
          (s\<lparr>ap_core := c\<rparr>,
           if ur_status r = REJECTED_MISSING_EVIDENCE
           then Inl (HTTPException 422 ''evidence_refs must be non-empty (invariant I3)'')
           else rbind (mk_update_metric_response_body (update_metric_status_value (ur_status r)))
             (\<lambda>content. Inr (202, rb_status content))))"

text \<open>The two remaining statuses are the literals of the response model, so building it never fails.\<close>

lemma post_metrics_eq:
  "post_metrics now i s body =
     (if \<not> validate_update body then (s, Inl (HTTPException 422 ''validation''))
      else case handle_update_metric memory_ops now i (ap_core s) (to_command body) of
        (c, Inl e) \<Rightarrow> (s\<lparr>ap_core := c\<rparr>, Inl e)
      | (c, Inr r) \<Rightarrow>
          (s\<lparr>ap_core := c\<rparr>,
           if ur_status r = REJECTED_MISSING_EVIDENCE
           then Inl (HTTPException 422 ''evidence_refs must be non-empty (invariant I3)'')
           else Inr (202, update_metric_status_value (ur_status r))))"
proof -
  have "st \<noteq> REJECTED_MISSING_EVIDENCE \<Longrightarrow>
      mk_update_metric_response_body (update_metric_status_value st) = Inr \<lparr>rb_status = update_metric_status_value st\<rparr>" for st
    by (cases st) (simp_all add: mk_update_metric_response_body_def)
  then show ?thesis by (auto simp: post_metrics_def split: prod.splits sum.splits)
qed

definition metric_out :: "scoreboard_metric_view \<Rightarrow> scoreboard_metric_out" where
  "metric_out v = \<lparr>so_value = sv_value v, so_evidence_refs = sv_evidence_refs v, so_committed_at = sv_committed_at v\<rparr>"

definition app_rebuild :: "pydantic \<Rightarrow> datetime \<Rightarrow> datetime \<Rightarrow> app \<Rightarrow> string \<Rightarrow> string list \<Rightarrow> (app, scoreboard_state) sres" where
  "app_rebuild P now1 now2 s decision_id required =
     (case rebuild P memory_ops memory_store_ops now1 now2 (co_audit (ap_core s)) (ap_store s) decision_id required of
        (store, r) \<Rightarrow> (s\<lparr>ap_store := store\<rparr>, r))"

definition get_scoreboard :: "pydantic \<Rightarrow> datetime \<Rightarrow> datetime \<Rightarrow> app \<Rightarrow> string \<Rightarrow> (app, get_scoreboard_response) sres" where
  "get_scoreboard P now1 now2 s decision_id =
     sbind (app_rebuild P now1 now2 s decision_id (dict_get (ap_required s) decision_id []))
       (\<lambda>s sb.
          if sb_metrics sb = [] then (s, Inl (HTTPException 404 ''decision_id not found''))
          else (s, Inr \<lparr>gs_decision_id = sb_decision_id sb,
                        gs_trust_score = (case sb_trust_score sb of Some x \<Rightarrow> Inl x | None \<Rightarrow> Inr ''INSUFFICIENT_DATA''),
                        gs_metrics = map (\<lambda>(name, m). (name, metric_out m)) (sb_metrics sb),
                        gs_merkle_root_ref = sb_merkle_root_ref sb, gs_merkle_timestamp = sb_merkle_timestamp sb,
                        gs_rebuilt_at = sb_rebuilt_at sb\<rparr>))
       (\<lambda>s. s)"

text \<open>\<^verbatim>\<open>next((e for e in events if ...), None)\<close>: the first commit of the metric.\<close>

definition first_commit :: "string \<Rightarrow> pydict list \<Rightarrow> pydict option" where
  "first_commit metric_name events =
     find (\<lambda>e. has_type ''MetricCommitted'' e \<and> dict_get e ''metric_name'' PNone = PStr metric_name) events"

text \<open>Building the response from a row: missing fields raise \<^verbatim>\<open>KeyError\<close>, fields of the wrong type fail validation.\<close>

definition node_out :: "pydantic \<Rightarrow> pyval \<Rightarrow> proof_node_out res" where
  "node_out P v = (case v of
     PDict n \<Rightarrow> rbind (getitem n ''hash'') (\<lambda>h. rbind (getitem n ''position'') (\<lambda>pos.
       case (v_str P h, pos) of
         (Some h, PStr q) \<Rightarrow> if q = ''LEFT'' \<or> q = ''RIGHT'' then Inr \<lparr>pn_hash = h, pn_position = q\<rparr>
                             else Inl (ValidationError ''ProofNodeOut'')
       | _ \<Rightarrow> Inl (ValidationError ''ProofNodeOut'')))
   | _ \<Rightarrow> Inl (IllTyped ''proof node''))"

definition proof_response :: "pydantic \<Rightarrow> pydict \<Rightarrow> get_merkle_proof_response res" where
  "proof_response P row =
     rbind (getitem row ''leaf_hash'') (\<lambda>h.
     rbind (getitem row ''proof_path'') (\<lambda>path.
     rbind (case path of PList vs \<Rightarrow> rmap (node_out P) vs | _ \<Rightarrow> Inl (IllTyped ''proof path'')) (\<lambda>nodes.
     rbind (getitem row ''root'') (\<lambda>rt.
     rbind (getitem row ''anchor_signature'') (\<lambda>sg.
     rbind (getitem row ''anchor_timestamp'') (\<lambda>t.
       case (v_str P h, v_str P rt, v_str P sg, v_datetime P t) of
         (Some h, Some rt, Some sg, Some t) \<Rightarrow>
           Inr \<lparr>gm_leaf_hash = h, gm_proof_path = nodes, gm_root = rt, gm_anchor_signature = sg, gm_anchor_timestamp = t\<rparr>
       | _ \<Rightarrow> Inl (ValidationError ''GetMerkleProofResponse'')))))))"

definition get_merkle_proof ::
    "pydantic \<Rightarrow> datetime \<Rightarrow> datetime \<Rightarrow> app \<Rightarrow> string \<Rightarrow> string \<Rightarrow> (app, get_merkle_proof_response) sres" where
  "get_merkle_proof P now1 now2 s decision_id metric_name =
     sbind (app_rebuild P now1 now2 s decision_id (dict_get (ap_required s) decision_id [metric_name]))
       (\<lambda>s scoreboard.
          (s, if map_of (sb_metrics scoreboard) metric_name = None
              then Inl (HTTPException 404 ''metric not found or not yet committed'')
              else rbind (memory_read_range (co_audit (ap_core s)) decision_id 0) (\<lambda>events.
                case first_commit metric_name events of
                  None \<Rightarrow> Inl (HTTPException 404 ''leaf not yet anchored - batch has not closed'')
                | Some committed \<Rightarrow>
                    (case map_of committed ''leaf_hash'' of
                       None \<Rightarrow> Inl (HTTPException 404 ''leaf not yet anchored - batch has not closed'')
                     | Some h \<Rightarrow> rbind (str_arg h) (\<lambda>h.
                         rbind (memory_get (ap_store s) (''merkle_proof:'' @ h)) (\<lambda>row.
                           case row of
                             None \<Rightarrow> Inl (HTTPException 404 ''leaf committed but not yet anchored - try again shortly'')
                           | Some row \<Rightarrow> proof_response P row))))))
       (\<lambda>s. s)"

section \<open>Background work\<close>

definition anchor_of :: "app \<Rightarrow> (memory_audit, memory_store) anchor" where
  "anchor_of s = \<lparr>an_builder = co_merkle (ap_core s), an_audit = co_audit (ap_core s), an_store = ap_store s\<rparr>"

definition put_anchor :: "app \<Rightarrow> (memory_audit, memory_store) anchor \<Rightarrow> app" where
  "put_anchor s n = s\<lparr>ap_core := (ap_core s)\<lparr>co_merkle := an_builder n, co_audit := an_audit n\<rparr>, ap_store := an_store n\<rparr>"

text \<open>One round of \<^verbatim>\<open>_merkle_closer_loop\<close>: exceptions are logged and dropped. The authority stamps at time \<open>tsa_now\<close>.\<close>

definition closer_tick :: "(bytes \<Rightarrow> bytes) \<Rightarrow> string \<Rightarrow> datetime \<Rightarrow> datetime \<Rightarrow> (nat \<Rightarrow> string) \<Rightarrow> app \<Rightarrow> app" where
  "closer_tick sign auth now tsa_now uuid s =
     put_anchor s (fst (maybe_close_and_anchor memory_ops memory_store_ops sign
       (\<lambda>g. Inr (memory_tsa_timestamp auth tsa_now g)) uuid now (anchor_of s)))"

text \<open>The flush at shutdown (\<^verbatim>\<open>lifespan\<close>).\<close>

definition shutdown_flush :: "(bytes \<Rightarrow> bytes) \<Rightarrow> string \<Rightarrow> datetime \<Rightarrow> (nat \<Rightarrow> string) \<Rightarrow> app \<Rightarrow> app" where
  "shutdown_flush sign auth tsa_now uuid s =
     put_anchor s (fst (force_close memory_ops memory_store_ops sign
       (\<lambda>g. Inr (memory_tsa_timestamp auth tsa_now g)) uuid (anchor_of s)))"

end
