(* ===== verification/JsonParse.thy ===== *)
theory JsonParse
  imports Json
begin

text \<open>
  \<^verbatim>\<open>json.loads\<close> of the standard library, for the adapters that store JSON text: the scanner of strings, numbers,
  arrays and objects, and that it reads back what \<^verbatim>\<open>json.dumps\<close> wrote. Escapes of code points above 255 are outside
  the modelled strings. The recursion carries a fuel argument; \<open>json_loads\<close> starts with more fuel than any text of
  that length can use up (\<open>parse_fuel\<close>).
\<close>

section \<open>The scanner\<close>

definition json_ws :: "string \<Rightarrow> string" where
  "json_ws s = dropWhile (\<lambda>c. c \<in> {CHR '' '', CHR 0x09, CHR 0x0A, CHR 0x0D}) s"

abbreviation json_error :: "'a res" where
  "json_error \<equiv> Inl (ValueError ''JSONDecodeError'')"

text \<open>The simple escapes, by the character behind the backslash.\<close>

definition json_escape :: "char \<Rightarrow> char option" where
  "json_escape c = map_of [(CHR 0x22, CHR 0x22), (CHR 0x5C, CHR 0x5C), (CHR ''/'', CHR ''/''), (CHR ''b'', CHR 0x08),
     (CHR ''f'', CHR 0x0C), (CHR ''n'', CHR 0x0A), (CHR ''r'', CHR 0x0D), (CHR ''t'', CHR 0x09)] c"

definition hex_number :: "string \<Rightarrow> nat option" where
  "hex_number s = fold (\<lambda>c acc. Option.bind acc (\<lambda>n. map_option (\<lambda>d. 16 * n + d) (hex_value c))) s (Some 0)"

text \<open>The rest of a string literal, behind its opening quote.\<close>

fun scan_string :: "string \<Rightarrow> (string \<times> string) res" where
  "scan_string [] = json_error"
| "scan_string (c # s) =
     (if c = CHR 0x22 then Inr ([], s)
      else if c = CHR 0x5C then
        (case s of
           [] \<Rightarrow> json_error
         | e # t \<Rightarrow>
             if e = CHR ''u'' then
               (case t of
                  h1 # h2 # h3 # h4 # t' \<Rightarrow>
                    (case hex_number [h1, h2, h3, h4] of
                       None \<Rightarrow> json_error
                     | Some n \<Rightarrow> if 256 \<le> n then Inl (IllTyped ''code point'')
                         else rbind (scan_string t') (\<lambda>(r, rest). Inr (char_of n # r, rest)))
                | _ \<Rightarrow> json_error)
             else (case json_escape e of
                     None \<Rightarrow> json_error
                   | Some d \<Rightarrow> rbind (scan_string t) (\<lambda>(r, rest). Inr (d # r, rest))))
      else if (of_char c :: nat) < 32 then json_error
      else rbind (scan_string s) (\<lambda>(r, rest). Inr (c # r, rest)))"

text \<open>A number: sign, integer part, optional fraction, optional exponent; each optional part only with a digit.\<close>

definition scan_exponent :: "string \<Rightarrow> int option \<times> string" where
  "scan_exponent s =
     (if take 1 s = ''e'' \<or> take 1 s = ''E'' then
        (let t = drop 1 s; sg = take 1 t; u = (if sg = ''+'' \<or> sg = ''-'' then drop 1 t else t); ds = takeWhile is_digit u in
         if ds = [] then (None, s)
         else (Some (if sg = ''-'' then - int (digits_val ds) else int (digits_val ds)), dropWhile is_digit u))
      else (None, s))"

definition scan_fraction :: "string \<Rightarrow> string \<times> string" where
  "scan_fraction s =
     (let ds = takeWhile is_digit (drop 1 s) in
      if take 1 s = ''.'' \<and> ds \<noteq> [] then (ds, dropWhile is_digit (drop 1 s)) else ([], s))"

text \<open>The float nearest to \<open>\<plusminus> digits * 10 ^ e\<close>.\<close>

definition read_float :: "bool \<Rightarrow> string \<Rightarrow> int \<Rightarrow> pyfloat" where
  "read_float neg ds e = (let x = fl (of_nat (digits_val ds) * 10 powi e) in if neg then fneg x else x)"

text \<open>The value of a number literal: an integer unless it has a fraction or an exponent.\<close>

definition number_val :: "bool \<Rightarrow> string \<Rightarrow> string \<Rightarrow> int option \<Rightarrow> pyval res" where
  "number_val neg ip fp ep =
     (if fp = [] \<and> ep = None then
        (if 4300 < length ip then Inl (ValueError ''Exceeds the limit (4300 digits)'')
         else Inr (PInt (if neg then - int (digits_val ip) else int (digits_val ip))))
      else Inr (PFloat (read_float neg (ip @ fp) ((case ep of None \<Rightarrow> 0 | Some e \<Rightarrow> e) - int (length fp)))))"

text \<open>The integer part: a single zero, or digits.\<close>

definition int_part :: "string \<Rightarrow> string" where
  "int_part r = (if take 1 r = ''0'' then ''0'' else takeWhile is_digit r)"

definition scan_number :: "string \<Rightarrow> (pyval \<times> string) res" where
  "scan_number s =
     (let neg = (take 1 s = ''-'');
          r = (if neg then drop 1 s else s);
          ip = int_part r;
          (fp, r2) = scan_fraction (drop (length ip) r);
          (ep, r3) = scan_exponent r2 in
      if ip = [] then json_error else rbind (number_val neg ip fp ep) (\<lambda>v. Inr (v, r3)))"

definition json_literals :: "(string \<times> pyval) list" where
  "json_literals =
     [(''null'', PNone), (''true'', PBool True), (''false'', PBool False), (''NaN'', PFloat NaN),
      (''Infinity'', PFloat PInf), (''-Infinity'', PFloat NInf)]"

fun parse_literal :: "(string \<times> pyval) list \<Rightarrow> string \<Rightarrow> (pyval \<times> string) option" where
  "parse_literal [] s = None"
| "parse_literal ((t, v) # ls) s = (if take (length t) s = t then Some (v, drop (length t) s) else parse_literal ls s)"

fun parse_value :: "nat \<Rightarrow> string \<Rightarrow> (pyval \<times> string) res"
and parse_elems :: "nat \<Rightarrow> string \<Rightarrow> (pyval list \<times> string) res"
and parse_members :: "nat \<Rightarrow> string \<Rightarrow> pydict \<Rightarrow> (pydict \<times> string) res" where
  "parse_value 0 s = Inl (IllTyped ''fuel'')"
| "parse_value (Suc n) [] = json_error"
| "parse_value (Suc n) (c # s) =
     (if c = CHR 0x22 then rbind (scan_string s) (\<lambda>(t, rest). Inr (PStr t, rest))
      else if c = CHR ''{'' then
        (let r = json_ws s in
         if take 1 r = ''}'' then Inr (PDict [], drop 1 r)
         else rbind (parse_members n r []) (\<lambda>(d, rest). Inr (PDict d, rest)))
      else if c = CHR ''['' then
        (let r = json_ws s in
         if take 1 r = '']'' then Inr (PList [], drop 1 r)
         else rbind (parse_elems n r) (\<lambda>(vs, rest). Inr (PList vs, rest)))
      else (case parse_literal json_literals (c # s) of Some p \<Rightarrow> Inr p | None \<Rightarrow> scan_number (c # s)))"
| "parse_elems 0 s = Inl (IllTyped ''fuel'')"
| "parse_elems (Suc n) s =
     rbind (parse_value n s) (\<lambda>(v, r).
       let r = json_ws r in
       if take 1 r = '','' then rbind (parse_elems n (json_ws (drop 1 r))) (\<lambda>(vs, rest). Inr (v # vs, rest))
       else if take 1 r = '']'' then Inr ([v], drop 1 r)
       else json_error)"
| "parse_members 0 s d = Inl (IllTyped ''fuel'')"
| "parse_members (Suc n) s d =
     (if take 1 s \<noteq> [CHR 0x22] then json_error
      else rbind (scan_string (drop 1 s)) (\<lambda>(k, r).
        let r = json_ws r in
        if take 1 r \<noteq> '':'' then json_error
        else rbind (parse_value n (json_ws (drop 1 r))) (\<lambda>(v, r).
          let r = json_ws r; d = AList.update k v d in
          if take 1 r = '','' then parse_members n (json_ws (drop 1 r)) d
          else if take 1 r = ''}'' then Inr (d, drop 1 r)
          else json_error)))"

definition parse_fuel :: "string \<Rightarrow> nat" where
  "parse_fuel s = 2 * length s + 2"

definition json_loads :: "string \<Rightarrow> pyval res" where
  "json_loads s =
     (let t = json_ws s in
      rbind (parse_value (parse_fuel t) t) (\<lambda>(v, rest). if json_ws rest = [] then Inr v else json_error))"

section \<open>Strings read back\<close>

lemma hex_number_hex4: "n < 256 \<Longrightarrow> hex_number (hex4 n) = Some n"
proof -
  assume n: "n < 256"
  have d: "n div 4096 = 0" "n div 256 = 0" "n div 16 mod 16 = n div 16" "n div 16 < 16" "n mod 16 < 16" using n by auto
  have "hex4 n = [hex_digit 0, hex_digit 0, hex_digit (n div 16), hex_digit (n mod 16)]" by (simp add: hex4_def d)
  then show ?thesis using d by (simp add: hex_number_def hex_value_digit)
qed

lemma json_char_cases:
  "(json_char True c = [c] \<and> c \<noteq> CHR 0x22 \<and> c \<noteq> CHR 0x5C \<and> 32 \<le> (of_char c :: nat)) \<or>
   (\<exists>e. json_char True c = [CHR 0x5C, e] \<and> e \<noteq> CHR ''u'' \<and> json_escape e = Some c) \<or>
   json_char True c = CHR 0x5C # CHR ''u'' # hex4 (of_char c)"
proof -
  define n :: nat where "n = of_char c"
  have c: "c = char_of n" by (simp add: n_def)
  have bs: "char_of (92 :: nat) = CHR 0x5C" by (simp add: char_of_def bit_0)
  consider "n \<in> {34, 92, 8, 12, 10, 13, 9}" | "n \<notin> {34, 92, 8, 12, 10, 13, 9}" "n < 32 \<or> 126 < n"
    | "n \<notin> {34, 92}" "32 \<le> n" "n \<le> 126" by fastforce
  then show ?thesis
  proof cases
    case 1
    then show ?thesis
      by (elim insertE) (auto simp: c json_char_def json_escape_def char_of_def bit_0 Let_def)
  next
    case 2
    then show ?thesis by (simp add: json_char_def Let_def bs flip: n_def)
  next
    case 3
    moreover have "c \<noteq> CHR 0x22" "c \<noteq> CHR 0x5C" using 3(1) n_def by auto
    ultimately show ?thesis by (simp add: json_char_def Let_def flip: n_def)
  qed
qed

lemma scan_json_char:
  "scan_string (json_char True c @ s) = rbind (scan_string s) (\<lambda>(r, rest). Inr (c # r, rest))"
proof -
  have h: "hex_number (hex4 (of_char c)) = Some (of_char c)" by (rule hex_number_hex4) (rule of_char_less_256)
  obtain a b d e where h4: "hex4 (of_char c) = [a, b, d, e]" by (simp add: hex4_def)
  have lt: "\<not> 256 \<le> (of_char c :: nat)" using of_char_less_256 [of c] by (simp only: not_le)
  from json_char_cases [of c] show ?thesis
    by (elim disjE exE conjE) (use h h4 lt in \<open>simp_all\<close>)
qed

lemma scan_json_chars: "scan_string (concat (map (json_char True) t) @ CHR 0x22 # rest) = Inr (t, rest)"
  by (induction t) (simp_all add: scan_json_char)

lemma json_str_shape: "json_str True t @ rest = CHR 0x22 # concat (map (json_char True) t) @ CHR 0x22 # rest"
  by (simp add: json_str_def Let_def char_of_def bit_0)

section \<open>Numbers read back\<close>

text \<open>A rest that cannot be taken for part of a number.\<close>

definition stops :: "string \<Rightarrow> bool" where
  "stops rest = (case rest of [] \<Rightarrow> True
     | c # _ \<Rightarrow> \<not> is_digit c \<and> c \<notin> {CHR ''.'', CHR ''e'', CHR ''E'', CHR ''+'', CHR ''-''})"

lemma stops_take:
  assumes "stops rest"
  shows "take 1 rest \<noteq> ''.''" "take 1 rest \<noteq> ''e''" "take 1 rest \<noteq> ''E''" "take 1 rest \<noteq> ''+''" "take 1 rest \<noteq> ''-''"
  using assms by (cases rest; simp add: stops_def)+

lemma digits_then_stop:
  assumes "stops rest"
  shows "takeWhile is_digit (t @ rest) = takeWhile is_digit t" "dropWhile is_digit (t @ rest) = dropWhile is_digit t @ rest"
  using assms by (induction t) (auto simp: stops_def split: list.splits)

lemma take1_append: "t \<noteq> [] \<Longrightarrow> take 1 (t @ rest) = take 1 t"
  by (cases t) simp_all

lemma scan_fraction_append:
  assumes "stops rest"
  shows "scan_fraction (t @ rest) = (fst (scan_fraction t), snd (scan_fraction t) @ rest)"
  using digits_then_stop [OF assms] stops_take [OF assms]
  by (cases t) (simp_all add: scan_fraction_def Let_def)

lemma scan_exponent_append:
  assumes "stops rest"
  shows "scan_exponent (t @ rest) = (fst (scan_exponent t), snd (scan_exponent t) @ rest)"
proof (cases t)
  case Nil
  then show ?thesis using stops_take [OF assms] by (simp add: scan_exponent_def)
next
  case (Cons c u)
  show ?thesis
  proof (cases u)
    case Nil
    have "takeWhile is_digit rest = []" using digits_then_stop(1) [OF assms, of "[]"] by simp
    then show ?thesis using stops_take [OF assms] by (simp add: scan_exponent_def Cons Nil Let_def)
  next
    case (Cons c' u')
    then show ?thesis using digits_then_stop [OF assms] digits_then_stop [OF assms, of u]
      by (simp add: scan_exponent_def \<open>t = c # u\<close> Let_def)
  qed
qed

lemma scan_number_append:
  assumes "scan_number t = Inr (v, [])" "stops rest"
  shows "scan_number (t @ rest) = Inr (v, rest)"
proof -
  define r where "r = (if take 1 t = ''-'' then drop 1 t else t)"
  have ip: "int_part r \<noteq> []" using assms(1) by (auto simp: scan_number_def Let_def r_def split: if_splits prod.splits)
  then have "r \<noteq> []" by (auto simp: int_part_def split: if_splits)
  moreover from this have "t \<noteq> []" by (auto simp: r_def)
  ultimately have r: "r \<noteq> []" "take 1 (r @ rest) = take 1 r" and t: "t \<noteq> []" "take 1 (t @ rest) = take 1 t"
    by (simp_all only: take1_append not_False_eq_True)
  have r': "(if take 1 t = ''-'' then drop 1 (t @ rest) else t @ rest) = r @ rest" using t by (auto simp: r_def)
  have ip': "int_part (r @ rest) = int_part r"
    by (simp only: r(2) digits_then_stop(1) [OF assms(2)] int_part_def)
  have "length (int_part r) \<le> length r"
    using r(1) length_takeWhile_le [of is_digit r] by (auto simp: int_part_def Suc_le_eq)
  then have d: "drop (length (int_part r)) (r @ rest) = drop (length (int_part r)) r @ rest" by simp
  obtain fp r2 where f: "scan_fraction (drop (length (int_part r)) r) = (fp, r2)"
    by (cases "scan_fraction (drop (length (int_part r)) r)")
  obtain ep r3 where e: "scan_exponent r2 = (ep, r3)" by (cases "scan_exponent r2")
  have f': "scan_fraction (drop (length (int_part r)) r @ rest) = (fp, r2 @ rest)" using scan_fraction_append [OF assms(2)] f by simp
  have e': "scan_exponent (r2 @ rest) = (ep, r3 @ rest)" using scan_exponent_append [OF assms(2)] e by simp
  from assms(1) show ?thesis
    unfolding scan_number_def Let_def t(2) r' ip' d f' r_def [symmetric] f
    by (auto simp: e e' ip rbind_eq_Inr)
qed

lemma nat_str_zero: "hd (nat_str n) = CHR ''0'' \<Longrightarrow> n = 0"
proof (induction n rule: nat_str.induct)
  case (1 n)
  show ?case
  proof (cases "n < 10")
    case True
    then have "n \<in> {0, 1, 2, 3, 4, 5, 6, 7, 8, 9}" by auto
    with 1(2) show ?thesis by (elim insertE) (simp_all add: nat_str.simps digit_char_def char_of_def bit_0)
  next
    case False
    have "hd (nat_str n) = hd (nat_str (n div 10))" using False by (simp add: nat_str.simps [of n])
    with 1 False show ?thesis by auto
  qed
qed

lemma nat_str_0 [simp]: "nat_str 0 = ''0''"
  by (simp add: nat_str.simps digit_char_def char_of_def bit_0)

lemma digits_val_nat_str [simp]: "digits_val (nat_str n) = n"
  by (simp add: digits_val_def)

lemma takeWhile_nat_str: "takeWhile is_digit (nat_str n) = nat_str n"
  using nat_str_digits [of n] by (simp add: takeWhile_eq_all_conv list_all_iff)

lemma int_part_nat_str [simp]: "int_part (nat_str n) = nat_str n"
proof (cases "take 1 (nat_str n) = ''0''")
  case True
  then have "hd (nat_str n) = CHR ''0''" by (cases "nat_str n") simp_all
  from nat_str_zero [OF this] show ?thesis by (simp add: int_part_def)
qed (simp add: int_part_def takeWhile_nat_str)

lemma scan_number_int:
  assumes "length (nat_str (nat \<bar>i\<bar>)) \<le> 4300"
  shows "scan_number (int_str i) = Inr (PInt i, [])"
proof -
  have sign: "take 1 (nat_str n) \<noteq> ''-''" for n
    using nat_str_digits [of n] by (cases "nat_str n") (auto simp: is_digit_def)
  have "scan_fraction [] = ([], [])" "scan_exponent [] = (None, [])" by (simp_all add: scan_fraction_def scan_exponent_def)
  then show ?thesis
    using assms sign [of "nat i"] by (cases "i < 0") (simp_all add: scan_number_def int_str_def number_val_def Let_def)
qed

section \<open>Values read back\<close>

text \<open>Floats whose text reads back, and the values all of whose parts do.\<close>

definition float_reads :: "pyfloat \<Rightarrow> bool" where
  "float_reads x = (x \<in> {PInf, NInf, NaN} \<or> scan_number (json_float x) = Inr (PFloat x, []))"

fun jsonable :: "pyval \<Rightarrow> bool" where
  "jsonable (PInt i) = (length (nat_str (nat \<bar>i\<bar>)) \<le> 4300)"
| "jsonable (PFloat x) = float_reads x"
| "jsonable (PList vs) = list_all jsonable vs"
| "jsonable (PDict kvs) = (distinct (map fst kvs) \<and> list_all (\<lambda>p. jsonable (snd p)) kvs)"
| "jsonable _ = True"

lemma json_ws_id: "s \<noteq> [] \<Longrightarrow> hd s \<notin> {CHR '' '', CHR 0x09, CHR 0x0A, CHR 0x0D} \<Longrightarrow> json_ws s = s"
  by (cases s) (simp_all add: json_ws_def)

text \<open>Text that starts like a number is no literal.\<close>

definition number_start :: "string \<Rightarrow> bool" where
  "number_start s = (case s of [] \<Rightarrow> False
     | c # t \<Rightarrow> is_digit c \<or> (c = CHR ''-'' \<and> (case t of [] \<Rightarrow> False | d # _ \<Rightarrow> is_digit d)))"

lemma parse_literal_None: "(\<And>p r. p \<in> set ls \<Longrightarrow> s \<noteq> fst p @ r) \<Longrightarrow> parse_literal ls s = None"
proof (induction ls)
  case (Cons p ls)
  obtain t v where p: "p = (t, v)" by (cases p)
  have "take (length t) s \<noteq> t" using Cons.prems [of p "drop (length t) s"] append_take_drop_id [of "length t" s] by (metis fst_conv list.set_intros(1) p)
  with Cons show ?case by (simp add: p)
qed simp

lemma number_start_literal:
  assumes "number_start s"
  shows "parse_literal json_literals s = None"
proof (rule parse_literal_None)
  fix p r
  assume "p \<in> set json_literals"
  then have "\<not> number_start (fst p @ r)"
    by (auto simp: json_literals_def number_start_def is_digit_def)
  with assms show "s \<noteq> fst p @ r" by auto
qed

lemma scan_number_start: "scan_number t = Inr (v, r) \<Longrightarrow> number_start (t @ rest)"
proof -
  assume "scan_number t = Inr (v, r)"
  then have ip: "int_part (if take 1 t = ''-'' then drop 1 t else t) \<noteq> []"
    by (auto simp: scan_number_def Let_def split: if_splits prod.splits)
  have d: "int_part u \<noteq> [] \<Longrightarrow> \<exists>c u'. u = c # u' \<and> is_digit c" for u
    by (cases u) (auto simp: int_part_def is_digit_def split: if_splits)
  have "\<not> is_digit (CHR ''-'')" by (simp add: is_digit_def)
  then show ?thesis
    using d [OF ip] by (cases t) (auto simp: number_start_def split: if_splits)
qed

lemma number_start_first:
  assumes "number_start s"
  shows "s \<noteq> []" "hd s \<notin> {CHR 0x22, CHR ''{'', CHR ''['', CHR '' '', CHR 0x09, CHR 0x0A, CHR 0x0D, CHR '']''}"
  using assms by (auto simp: number_start_def is_digit_def split: list.splits)

lemma parse_number:
  assumes "scan_number t = Inr (v, [])" "stops rest" "0 < n"
  shows "parse_value n (t @ rest) = Inr (v, rest)"
proof -
  note ns = scan_number_start [OF assms(1), of rest]
  obtain c s where cs: "t @ rest = c # s" using number_start_first(1) [OF ns] by (cases "t @ rest") auto
  obtain m where n: "n = Suc m" using assms(3) by (cases n) auto
  from number_start_first(2) [OF ns] number_start_literal [OF ns] scan_number_append [OF assms(1,2)] show ?thesis
    unfolding cs n by simp
qed

lemma dumps_first:
  assumes "jsonable v"
  shows "json_dumps default_opts v \<noteq> []"
    "hd (json_dumps default_opts v) \<notin> {CHR '' '', CHR 0x09, CHR 0x0A, CHR 0x0D, CHR '']''}"
proof -
  have "json_dumps default_opts v \<noteq> [] \<and> hd (json_dumps default_opts v) \<notin> {CHR '' '', CHR 0x09, CHR 0x0A, CHR 0x0D, CHR '']''}"
  proof (cases v)
    case (PInt i)
    then have "scan_number (int_str i) = Inr (PInt i, [])" using assms by (intro scan_number_int) simp
    from number_start_first [OF scan_number_start [OF this, of "[]"]] show ?thesis by (simp add: PInt)
  next
    case (PFloat x)
    show ?thesis
    proof (cases "x \<in> {PInf, NInf, NaN}")
      case False
      with assms have "scan_number (json_float x) = Inr (PFloat x, [])" by (simp add: PFloat float_reads_def)
      from number_start_first [OF scan_number_start [OF this, of "[]"]] show ?thesis by (simp add: PFloat)
    qed (auto simp: PFloat)
  next
    case (PStr s)
    then show ?thesis using json_str_shape [of s "[]"] by (simp add: default_opts_def)
  qed (simp_all add: Let_def)
  then show "json_dumps default_opts v \<noteq> []"
    "hd (json_dumps default_opts v) \<notin> {CHR '' '', CHR 0x09, CHR 0x0A, CHR 0x0D, CHR '']''}" by blast+
qed

lemma ws_dumps: "jsonable v \<Longrightarrow> json_ws (json_dumps default_opts v @ rest) = json_dumps default_opts v @ rest"
  using dumps_first [of v] by (intro json_ws_id) (auto simp: hd_append)

lemma update_new: "k \<notin> set (map fst d) \<Longrightarrow> AList.update k v d = d @ [(k, v)]"
  by (induction d) auto

lemma stops_sep: "stops ('','' @ r)" "stops ('']'' @ r)" "stops (''}'' @ r)" "stops []"
  by (simp_all add: stops_def is_digit_def)

abbreviation dumps :: "pyval \<Rightarrow> string" where
  "dumps v \<equiv> json_dumps default_opts v"

definition item_text :: "string \<times> pyval \<Rightarrow> string" where
  "item_text p = json_str True (fst p) @ '': '' @ dumps (snd p)"

lemma default_opts_simps [simp]:
  "sort_keys default_opts = False" "item_sep default_opts = '', ''" "key_sep default_opts = '': ''" "ensure_ascii default_opts"
  by (simp_all add: default_opts_def)

lemma dumps_list: "dumps (PList vs) = ''['' @ join '', '' (map dumps vs) @ '']''"
  by simp

lemma dumps_dict: "dumps (PDict kvs) = ''{'' @ join '', '' (map item_text kvs) @ ''}''"
  by (simp add: item_text_def [abs_def] comp_def case_prod_beta Let_def)

text \<open>What the induction carries for one value.\<close>

definition reads_back :: "pyval \<Rightarrow> bool" where
  "reads_back v = (\<forall>n rest. 2 * length (dumps v) < n \<longrightarrow> stops rest \<longrightarrow> parse_value n (dumps v @ rest) = Inr (v, rest))"

lemma ws_comma: "json_ws ('' '' @ s) = json_ws s"
  by (simp add: json_ws_def)

lemma join_text:
  assumes "vs \<noteq> []"
  shows "join '', '' (map f (v # vs)) @ e = f v @ '','' @ '' '' @ join '', '' (map f vs) @ e"
  using assms by (cases vs) simp_all

lemma parse_elems_back:
  assumes "vs \<noteq> []" "list_all jsonable vs" "list_all reads_back vs" "2 * length (join '', '' (map dumps vs)) + 1 < n"
  shows "parse_elems n (join '', '' (map dumps vs) @ '']'' @ rest) = Inr (vs, rest)"
  using assms
proof (induction vs arbitrary: n)
  case (Cons v vs)
  obtain m where n: "n = Suc m" using Cons.prems(4) by (cases n) auto
  have rb: "2 * length (dumps v) < m \<Longrightarrow> stops r \<Longrightarrow> parse_value m (dumps v @ r) = Inr (v, r)" for r
    using Cons.prems(3) by (simp add: reads_back_def)
  show ?case
  proof (cases "vs = []")
    case True
    then show ?thesis using rb [OF _ stops_sep(2), of rest] Cons.prems(4) by (simp add: n json_ws_def)
  next
    case False
    have len: "2 * length (dumps v) < m" "2 * length (join '', '' (map dumps vs)) + 1 < m"
      using Cons.prems(4) False by (simp_all add: n join_Cons)
    have ws: "json_ws (join '', '' (map dumps vs) @ '']'' @ rest) = join '', '' (map dumps vs) @ '']'' @ rest"
      using False Cons.prems(2) dumps_first by (intro json_ws_id) (cases vs; cases "tl vs"; force simp: hd_append)+
    have "parse_value m (join '', '' (map dumps (v # vs)) @ '']'' @ rest) =
        Inr (v, '','' @ '' '' @ join '', '' (map dumps vs) @ '']'' @ rest)"
      unfolding join_text [OF False] using len(1) stops_sep(1) by (rule rb)
    moreover have "parse_elems m (join '', '' (map dumps vs) @ '']'' @ rest) = Inr (vs, rest)"
      using Cons.IH [OF False _ _ len(2)] Cons.prems(2,3) by simp
    ultimately show ?thesis using ws by (simp add: n json_ws_def)
  qed
qed simp

lemma json_ws_brace: "json_ws (''}'' @ r) = ''}'' @ r" "json_ws ('','' @ r) = '','' @ r" "json_ws ('': '' @ r) = '': '' @ r"
  by (simp_all add: json_ws_def)

text \<open>One member, up to the separator behind it.\<close>

lemma parse_member_step:
  assumes "jsonable v" "reads_back v" "2 * length (dumps v) < n" "stops rest"
  shows "parse_members (Suc n) (item_text (k, v) @ rest) d =
    (let r = json_ws rest; d = AList.update k v d in
      if take 1 r = '','' then parse_members n (json_ws (drop 1 r)) d
      else if take 1 r = ''}'' then Inr (d, drop 1 r) else json_error)"
proof -
  have shape: "item_text (k, v) @ rest = CHR 0x22 # concat (map (json_char True) k) @ CHR 0x22 # ('': '' @ dumps v @ rest)"
    using json_str_shape [of k "'': '' @ dumps v @ rest"] by (simp add: item_text_def)
  have ws: "json_ws ('': '' @ dumps v @ rest) = '': '' @ dumps v @ rest" "json_ws ('' '' @ dumps v @ rest) = dumps v @ rest"
    using ws_dumps [OF assms(1), of rest] by (simp_all add: json_ws_def)
  have "parse_value n (dumps v @ rest) = Inr (v, rest)" using assms(2-4) by (simp add: reads_back_def)
  with ws show ?thesis unfolding shape by (simp add: scan_json_chars Let_def)
qed

lemma item_first: "item_text p \<noteq> []" "hd (item_text p) = CHR 0x22"
  using json_str_shape [of "fst p" "[]"] by (simp_all add: item_text_def)

lemma parse_members_back:
  assumes "kvs \<noteq> []" "\<forall>p \<in> set kvs. jsonable (snd p) \<and> reads_back (snd p)"
    and "2 * length (join '', '' (map item_text kvs)) + 1 < n" "distinct (map fst (d @ kvs))"
  shows "parse_members n (join '', '' (map item_text kvs) @ ''}'' @ rest) d = Inr (d @ kvs, rest)"
  using assms
proof (induction kvs arbitrary: n d)
  case (Cons p kvs)
  obtain k v where p: "p = (k, v)" by (cases p)
  obtain m where n: "n = Suc m" using Cons.prems(3) by (cases n) auto
  have v: "jsonable v" "reads_back v" using Cons.prems(2) by (simp_all add: p)
  have "k \<notin> set (map fst d)" using Cons.prems(4) by (auto simp: p)
  then have upd: "AList.update k v d = d @ [(k, v)]" by (rule update_new)
  have "length (dumps v) \<le> length (item_text p)" by (simp add: item_text_def p)
  then have len: "2 * length (dumps v) < m"
    using Cons.prems(3) by (cases kvs) (simp_all add: n)
  show ?case
  proof (cases "kvs = []")
    case True
    then show ?thesis
      using parse_member_step [OF v len stops_sep(3), of k rest d] by (simp add: n p upd json_ws_def Let_def)
  next
    case False
    have "2 * length (join '', '' (map item_text kvs)) + 1 < m" using Cons.prems(3) False by (simp add: n join_Cons)
    with Cons.IH [OF False, of m "d @ [p]"] Cons.prems(2,4)
    have ih: "parse_members m (join '', '' (map item_text kvs) @ ''}'' @ rest) (d @ [p]) = Inr (d @ p # kvs, rest)" by simp
    have "json_ws (join '', '' (map item_text kvs) @ ''}'' @ rest) = join '', '' (map item_text kvs) @ ''}'' @ rest"
      using False item_first by (intro json_ws_id) (cases kvs; cases "tl kvs"; simp add: hd_append)+
    then have ws: "json_ws ('' '' @ join '', '' (map item_text kvs) @ ''}'' @ rest) = join '', '' (map item_text kvs) @ ''}'' @ rest"
      by (simp only: ws_comma)
    show ?thesis
      unfolding join_text [OF False] n unfolding p parse_member_step [OF v len stops_sep(1)] json_ws_brace
      using ih ws by (simp add: Let_def upd p)
  qed
qed simp

lemma reads_backI:
  assumes "\<And>n rest. parse_value (Suc n) (dumps v @ rest) = Inr (v, rest)"
  shows "reads_back v"
  unfolding reads_back_def using assms by (metis gr_implies_not0 not0_implies_Suc)

lemma dumps_reads_back: "jsonable v \<Longrightarrow> reads_back v"
proof (induction v)
  case PNone
  show ?case by (rule reads_backI) (simp add: json_literals_def)
next
  case (PBool b)
  show ?case by (rule reads_backI) (simp add: json_literals_def)
next
  case (PInt i)
  show ?case using parse_number [OF scan_number_int] PInt by (simp add: reads_back_def)
next
  case (PFloat x)
  show ?case
  proof (cases "x \<in> {PInf, NInf, NaN}")
    case True
    then show ?thesis by (intro reads_backI) (auto simp: json_literals_def)
  next
    case False
    with PFloat have "scan_number (json_float x) = Inr (PFloat x, [])" by (simp add: float_reads_def)
    from parse_number [OF this] show ?thesis by (simp add: reads_back_def)
  qed
next
  case (PStr s)
  have "parse_value (Suc n) (json_str True s @ rest) = Inr (PStr s, rest)" for n rest
    unfolding json_str_shape by (simp add: scan_json_chars)
  then show ?case by (intro reads_backI) simp
next
  case (PList vs)
  show ?case unfolding reads_back_def
  proof (intro allI impI)
    fix n rest
    assume n: "2 * length (dumps (PList vs)) < n" and "stops rest"
    obtain m where m: "n = Suc m" using n by (cases n) auto
    show "parse_value n (dumps (PList vs) @ rest) = Inr (PList vs, rest)"
    proof (cases "vs = []")
      case False
      have all: "list_all jsonable vs" "list_all reads_back vs" using PList by (auto simp: list_all_iff)
      have len: "2 * length (join '', '' (map dumps vs)) + 1 < m" using n by (simp add: m)
      obtain w ws where vs: "vs = w # ws" using False by (cases vs) auto
      have "hd (join '', '' (map dumps vs) @ '']'' @ rest) = hd (dumps w)" "join '', '' (map dumps vs) \<noteq> []"
        using dumps_first [of w] all(1) by (cases ws; simp add: vs hd_append)+
      then have first: "hd (join '', '' (map dumps vs) @ '']'' @ rest) \<notin> {CHR '' '', CHR 0x09, CHR 0x0A, CHR 0x0D, CHR '']''}"
          "join '', '' (map dumps vs) @ '']'' @ rest \<noteq> []"
        using dumps_first(2) [of w] all(1) by (simp_all add: vs)
      have "json_ws (join '', '' (map dumps vs) @ '']'' @ rest) = join '', '' (map dumps vs) @ '']'' @ rest"
        using first by (intro json_ws_id) auto
      moreover have "take 1 (join '', '' (map dumps vs) @ '']'' @ rest) \<noteq> '']''"
        using first by (cases "join '', '' (map dumps vs) @ '']'' @ rest") auto
      ultimately show ?thesis
        using parse_elems_back [OF False all len, of rest] unfolding dumps_list m by (simp del: json_dumps.simps)
    qed (simp add: m json_ws_def)
  qed
next
  case (PDict kvs)
  show ?case unfolding reads_back_def
  proof (intro allI impI)
    fix n rest
    assume n: "2 * length (dumps (PDict kvs)) < n" and "stops rest"
    obtain m where m: "n = Suc m" using n by (cases n) auto
    show "parse_value n (dumps (PDict kvs) @ rest) = Inr (PDict kvs, rest)"
    proof (cases "kvs = []")
      case False
      have all: "\<forall>p \<in> set kvs. jsonable (snd p) \<and> reads_back (snd p)" "distinct (map fst ([] @ kvs))"
        using PDict by (auto simp: list_all_iff snds.simps)
      have len: "2 * length (join '', '' (map item_text kvs)) + 1 < m" using n unfolding dumps_dict m by simp
      obtain w ws where vs: "kvs = w # ws" using False by (cases kvs) auto
      obtain t where t: "join '', '' (map item_text kvs) @ ''}'' @ rest = CHR 0x22 # t"
        using item_first [of w] by (cases ws; cases "item_text w") (auto simp: vs)
      then have "json_ws (join '', '' (map item_text kvs) @ ''}'' @ rest) = join '', '' (map item_text kvs) @ ''}'' @ rest"
        by (intro json_ws_id) auto
      then show ?thesis
        using parse_members_back [OF False all(1) len all(2), of rest] t unfolding dumps_dict m by (simp del: json_dumps.simps)
    qed (simp add: m json_ws_def)
  qed
qed

lemma loads_dumps:
  assumes "jsonable v"
  shows "json_loads (dumps v) = Inr v"
proof -
  have "parse_value (parse_fuel (dumps v)) (dumps v @ []) = Inr (v, [])"
    using dumps_reads_back [OF assms, unfolded reads_back_def, rule_format, OF _ stops_sep(4), of "parse_fuel (dumps v)"]
    by (simp add: parse_fuel_def)
  moreover have "json_ws (dumps v) = dumps v" using ws_dumps [OF assms, of "[]"] by simp
  ultimately show ?thesis by (simp add: json_loads_def Let_def json_ws_def)
qed

section \<open>The fuel is enough\<close>

definition no_fuel_error :: "nat \<Rightarrow> ('a \<times> string) res \<Rightarrow> bool" where
  "no_fuel_error n r = (case r of Inl e \<Rightarrow> e \<noteq> IllTyped ''fuel'' | Inr (v, rest) \<Rightarrow> length rest < n)"

lemma no_fuel_error_simps [simp]:
  "no_fuel_error n (Inl e) = (e \<noteq> IllTyped ''fuel'')" "no_fuel_error n (Inr (v, rest)) = (length rest < n)"
  by (simp_all add: no_fuel_error_def)

lemma no_fuel_error_rbind:
  "no_fuel_error m r \<Longrightarrow> (\<And>v rest. r = Inr (v, rest) \<Longrightarrow> length rest < m \<Longrightarrow> no_fuel_error n (f (v, rest))) \<Longrightarrow>
    no_fuel_error n (rbind r f)"
  by (cases r) auto

lemma no_fuel_error_if: "(b \<Longrightarrow> no_fuel_error n r) \<Longrightarrow> (\<not> b \<Longrightarrow> no_fuel_error n t) \<Longrightarrow> no_fuel_error n (if b then r else t)"
  by simp

lemma no_fuel_error_mono: "no_fuel_error m r \<Longrightarrow> m \<le> n \<Longrightarrow> no_fuel_error n r"
  by (cases r) auto

lemma scan_string_step:
  assumes "no_fuel_error (Suc (length t)) (scan_string t)" "length t < n"
  shows "no_fuel_error n (rbind (scan_string t) (\<lambda>(r, rest). Inr (d # r, rest)))"
  using assms by (intro no_fuel_error_rbind [OF assms(1)]) simp

lemma scan_string_progress: "no_fuel_error (Suc (length s)) (scan_string s)"
proof (induction s rule: measure_induct_rule [of length])
  case (less s)
  show ?case
  proof (cases s)
    case (Cons c t)
    note step = scan_string_step [OF less]
    show ?thesis
    proof (cases "c = CHR 0x5C")
      case True
      show ?thesis
      proof (cases t)
        case (Cons e u)
        note s = \<open>s = c # t\<close> True Cons
        show ?thesis
        proof (cases "e = CHR ''u''")
          case True
          consider "length u < 4" | h1 h2 h3 h4 w where "u = h1 # h2 # h3 # h4 # w"
            by (metis not_less numeral_eq_Suc pred_numeral_simps(2) BitM.simps pred_numeral_simps(3) Suc_le_length_iff)
          then show ?thesis
          proof cases
            case 1
            then have "scan_string s = json_error" by (auto simp: s True split: list.split)
            then show ?thesis by simp
          next
            case 2
            then show ?thesis using step [of w] by (simp add: s True split: option.split)
          qed
        next
          case False
          then show ?thesis using step [of u] by (simp add: s split: option.split)
        qed
      qed (simp add: Cons True)
    next
      case False
      then show ?thesis using Cons by (auto intro!: step)
    qed
  qed simp
qed

lemma scan_number_progress: "no_fuel_error (length s) (scan_number s)"
proof -
  define r where "r = (if take 1 s = ''-'' then drop 1 s else s)"
  obtain fp r2 where f: "scan_fraction (drop (length (int_part r)) r) = (fp, r2)"
    by (cases "scan_fraction (drop (length (int_part r)) r)")
  obtain ep r3 where e: "scan_exponent r2 = (ep, r3)" by (cases "scan_exponent r2")
  have drop: "length (dropWhile is_digit t) \<le> length t" for t by (induction t) auto
  have "length r2 \<le> length r - length (int_part r)"
    using f drop [of "drop 1 (drop (length (int_part r)) r)"] by (auto simp: scan_fraction_def Let_def split: if_splits)
  moreover have "length r3 \<le> length r2"
    using e drop [of "drop 1 r2"] drop [of "drop 1 (drop 1 r2)"] by (auto simp: scan_exponent_def Let_def split: if_splits)
  moreover have "length r \<le> length s" "int_part r \<noteq> [] \<Longrightarrow> r \<noteq> []" by (auto simp: r_def int_part_def split: if_splits)
  ultimately have "int_part r \<noteq> [] \<Longrightarrow> length r3 < length s" by (cases r; cases "int_part r") auto
  then show ?thesis
    unfolding scan_number_def Let_def r_def [symmetric] f
    by (auto simp: e number_val_def)
qed

lemma json_ws_length: "length (json_ws s) \<le> length s"
  by (induction s) (auto simp: json_ws_def)

lemma parse_literal_progress: "parse_literal ls s = Some (v, r) \<Longrightarrow> list_all (\<lambda>p. fst p \<noteq> []) ls \<Longrightarrow> s \<noteq> [] \<Longrightarrow> length r < length s"
  by (induction ls) (auto split: if_splits)

text \<open>The bounds for one amount of fuel.\<close>

definition fuel_ok :: "nat \<Rightarrow> bool" where
  "fuel_ok n = ((\<forall>s. 2 * length s < n \<longrightarrow> no_fuel_error (max 1 (length s)) (parse_value n s)) \<and>
     (\<forall>s. 2 * length s + 1 < n \<longrightarrow> no_fuel_error (Suc (length s)) (parse_elems n s)) \<and>
     (\<forall>s d. 2 * length s + 1 < n \<longrightarrow> no_fuel_error (Suc (length s)) (parse_members n s d)))"

lemma fuel_okD:
  assumes "fuel_ok n"
  shows "2 * length s < n \<Longrightarrow> no_fuel_error (max 1 (length s)) (parse_value n s)"
    "2 * length s + 1 < n \<Longrightarrow> no_fuel_error (Suc (length s)) (parse_elems n s)"
    "2 * length s + 1 < n \<Longrightarrow> no_fuel_error (Suc (length s)) (parse_members n s d)"
  using assms by (simp_all add: fuel_ok_def)

lemma ws_behind: "take 1 (json_ws r) = [c] \<Longrightarrow> length (json_ws (drop 1 (json_ws r))) < length r"
  using json_ws_length [of r] json_ws_length [of "drop 1 (json_ws r)"] by (cases "json_ws r") auto

lemma parse_value_progress:
  assumes "fuel_ok n" "2 * length s < Suc n"
  shows "no_fuel_error (max 1 (length s)) (parse_value (Suc n) s)"
proof (cases s)
  case (Cons c t)
  have ws: "length (json_ws t) \<le> length t" by (rule json_ws_length)
  have str: "no_fuel_error (Suc (length t)) (scan_string t)" by (rule scan_string_progress)
  have lit: "parse_literal json_literals (c # t) = Some p \<Longrightarrow> length (snd p) < length (c # t)" for p
    using parse_literal_progress [of json_literals "c # t" "fst p" "snd p"]
    by (simp add: json_literals_def del: parse_literal.simps)
  have rec: "no_fuel_error (Suc (length (json_ws t))) (parse_members n (json_ws t) [])"
      "no_fuel_error (Suc (length (json_ws t))) (parse_elems n (json_ws t))"
    using ws assms(2) by (auto intro!: fuel_okD [OF assms(1)] simp: Cons)
  from ws show ?thesis
    using scan_number_progress [of "c # t"]
    by (auto simp: Cons Let_def dest!: lit intro!: no_fuel_error_rbind [OF str] no_fuel_error_rbind [OF rec(1)]
        no_fuel_error_rbind [OF rec(2)] split: option.splits)
qed simp

lemma parse_elems_progress:
  assumes "fuel_ok n" "2 * length s + 1 < Suc n"
  shows "no_fuel_error (Suc (length s)) (parse_elems (Suc n) s)"
  unfolding parse_elems.simps
proof (rule no_fuel_error_rbind [OF fuel_okD(1) [OF assms(1)]])
  fix v and r :: string
  assume r: "length r < max 1 (length s)"
  have rec: "no_fuel_error (length r) (parse_elems n (json_ws (drop 1 (json_ws r))))" if "take 1 (json_ws r) = '',''"
    using ws_behind [OF that] r assms(2) by (intro no_fuel_error_mono [OF fuel_okD(2) [OF assms(1)]]) auto
  from r json_ws_length [of r] show "no_fuel_error (Suc (length s)) (case (v, r) of (v, r) \<Rightarrow>
       let r = json_ws r in
       if take 1 r = '','' then rbind (parse_elems n (json_ws (drop 1 r))) (\<lambda>(vs, rest). Inr (v # vs, rest))
       else if take 1 r = '']'' then Inr ([v], drop 1 r) else json_error)"
    unfolding prod.case Let_def by (intro no_fuel_error_if no_fuel_error_rbind [OF rec]) auto
qed (use assms(2) in simp)

lemma parse_members_progress:
  assumes "fuel_ok n" "2 * length s + 1 < Suc n"
  shows "no_fuel_error (Suc (length s)) (parse_members (Suc n) s d)"
  unfolding parse_members.simps
proof (rule no_fuel_error_if)
  assume "\<not> take 1 s \<noteq> [CHR 0x22]"
  then have s: "Suc (length (drop 1 s)) = length s" by (cases s) auto
  show "no_fuel_error (Suc (length s)) (rbind (scan_string (drop 1 s)) (\<lambda>(k, r).
        let r = json_ws r in
        if take 1 r \<noteq> '':'' then json_error
        else rbind (parse_value n (json_ws (drop 1 r))) (\<lambda>(v, r).
          let r = json_ws r; d = AList.update k v d in
          if take 1 r = '','' then parse_members n (json_ws (drop 1 r)) d
          else if take 1 r = ''}'' then Inr (d, drop 1 r) else json_error)))"
  proof (rule no_fuel_error_rbind [OF scan_string_progress], unfold prod.case Let_def s, intro no_fuel_error_if, simp)
    fix k r
    assume r: "length r < length s" and c: "\<not> take 1 (json_ws r) \<noteq> '':''"
    let ?r = "json_ws (drop 1 (json_ws r))"
    have len: "length ?r < length r" using ws_behind [of r] c by simp
    have val: "no_fuel_error (max 1 (length ?r)) (parse_value n ?r)"
      using len r assms(2) by (intro fuel_okD(1) [OF assms(1)]) simp
    have rec: "no_fuel_error (Suc (length s)) (parse_members n (json_ws (drop 1 (json_ws r'))) d')"
      if "take 1 (json_ws r') = '',''" "length r' < max 1 (length ?r)" for r' d'
      using ws_behind [OF that(1)] that(2) r len assms(2) by (intro no_fuel_error_mono [OF fuel_okD(3) [OF assms(1)]]) auto
    have "length (drop 1 (json_ws r')) < Suc (length s)" if "length r' < max 1 (length ?r)" for r'
      using that json_ws_length [of r'] r len by auto
    then show "no_fuel_error (Suc (length s)) (rbind (parse_value n ?r) (\<lambda>(v, r).
        if take 1 (json_ws r) = '','' then parse_members n (json_ws (drop 1 (json_ws r))) (AList.update k v d)
        else if take 1 (json_ws r) = ''}'' then Inr (AList.update k v d, drop 1 (json_ws r)) else json_error))"
      using rec by (intro no_fuel_error_rbind [OF val]) simp
  qed
qed simp

lemma fuel_enough: "fuel_ok n"
proof (induction n)
  case (Suc n)
  show ?case
    unfolding fuel_ok_def
    using parse_value_progress [OF Suc] parse_elems_progress [OF Suc] parse_members_progress [OF Suc] by blast
qed (simp add: fuel_ok_def)

lemma json_loads_fuel: "json_loads s \<noteq> Inl (IllTyped ''fuel'')"
  using fuel_okD(1) [OF fuel_enough, of "json_ws s" "parse_fuel (json_ws s)"]
  by (auto simp: json_loads_def parse_fuel_def Let_def rbind_eq_Inl no_fuel_error_def split: sum.splits if_splits prod.splits)

end
