(* ===== verification/FloatText.thy ===== *)
theory FloatText
  imports JsonParse
begin

text \<open>
  The text of a float reads back as the same float: the shortest decimal that \<^verbatim>\<open>repr\<close> looks for always exists with at
  most 17 digits, because a decimal that close to a double rounds to it, and the placed digits denote that decimal.
  With it \<^verbatim>\<open>json.loads(json.dumps(v))\<close> is \<open>v\<close> for every value made of doubles, printable integers, text, lists and
  dictionaries.
\<close>

section \<open>Decimals next to a double\<close>

lemma rhe_near: "\<bar>x - of_int m\<bar> < 1 / 2 \<Longrightarrow> rhe x = m"
proof -
  assume x: "\<bar>x - of_int m\<bar> < 1 / 2"
  show ?thesis
  proof (cases "of_int m \<le> x")
    case True
    then have "\<lfloor>x\<rfloor> = m" using x by (intro floor_unique) auto
    with x True show ?thesis by (simp add: rhe_def Let_def)
  next
    case False
    then have "\<lfloor>x\<rfloor> = m - 1" using x by (intro floor_unique) auto
    with x False show ?thesis by (simp add: rhe_def Let_def)
  qed
qed

lemma rnd_nearI:
  assumes "a = of_int m * 2 powi ulp_exp y" "\<bar>y - a\<bar> < 2 powi (ulp_exp y - 1)" "y \<noteq> 0"
  shows "rnd y = a"
proof -
  have p: "(2 :: rat) powi (ulp_exp y - 1) = 2 powi ulp_exp y / 2" by (simp add: power_int_diff)
  have "y / 2 powi ulp_exp y - of_int m = (y - a) / 2 powi ulp_exp y" by (simp add: assms(1) field_simps)
  then have "\<bar>y / 2 powi ulp_exp y - of_int m\<bar> = \<bar>y - a\<bar> / 2 powi ulp_exp y" by (simp add: abs_div)
  also have "\<dots> < 1 / 2" using assms(2) by (simp add: p field_simps)
  finally have "rhe (y / 2 powi ulp_exp y) = m" by (rule rhe_near)
  then show ?thesis using assms(1,3) by (simp add: rnd_def)
qed

lemma rnd_near:
  assumes "0 < a" "rnd a = a" "\<bar>y - a\<bar> < a / 2 ^ 54"
  shows "rnd y = a"
proof -
  define E where "E = ulp_exp a"
  obtain m where m: "a = of_int m * 2 powi E" using assms(1,2) by (metis E_def less_irrefl rnd_def)
  have "a / 2 ^ 54 < a" using assms(1) by simp
  then have y: "0 < y" using assms(3) by linarith
  have up: "a < 2 powi (E + 53)" using abs_less_ulp [of a] assms(1) by (simp add: E_def)
  have p: "(2 :: rat) powi (E + k) = 2 powi k * 2 powi E" for k by (simp add: power_int_add mult.commute)
  have gap: "\<bar>y - a\<bar> < 2 powi (E - 1)" using assms(3) up p [of 53] p [of "-1"] by (simp add: field_simps)
  have half: "2 powi (E - 1) < (2 :: rat) powi E" by (simp add: pow2_less_iff)
  consider "ulp_exp y = E" | "E < ulp_exp y" | "ulp_exp y < E" by linarith
  then show ?thesis
  proof cases
    case 1
    then show ?thesis using rnd_nearI [of a m y] m gap y by auto
  next
    case 2
    then have "E + 53 \<le> flog2 \<bar>y\<bar>" by (auto simp: ulp_exp_def E_def)
    then have "2 powi (E + 53) \<le> y" using flog2_bounds(1) [of y] y pow2_mono [of "E + 53" "flog2 y"] by simp
    moreover have "m < 2 ^ 53"
    proof -
      have "of_int m * 2 powi E < (2 ^ 53 :: rat) * 2 powi E" using up p [of 53] m by simp
      then have "(of_int m :: rat) < of_int (2 ^ 53)" by simp
      then show ?thesis by (simp only: of_int_less_iff)
    qed
    then have "of_int m \<le> (2 ^ 53 - 1 :: rat)" using of_int_le_iff [of m "2 ^ 53 - 1", where 'a = rat] by simp
    then have "a \<le> (2 ^ 53 - 1) * 2 powi E" unfolding m by (intro mult_right_mono) auto
    ultimately show ?thesis using gap half p [of 53] by (simp add: left_diff_distrib)
  next
    case 3
    then have E: "E = flog2 a - 52" "-1074 \<le> E - 1" using assms(1) by (auto simp: ulp_exp_def E_def split: if_splits)
    have lo: "2 powi (E + 52) \<le> a" using flog2_bounds(1) [OF assms(1)] by (simp add: E)
    have "flog2 y + 1 \<le> E + 52" using 3 y by (auto simp: ulp_exp_def)
    then have hi: "y < 2 powi (E + 52)" using flog2_bounds(2) [OF y] pow2_mono [of "flog2 y + 1" "E + 52"] by linarith
    have "\<not> 2 ^ 52 + 1 \<le> m"
    proof
      assume "2 ^ 52 + 1 \<le> m"
      then have "(2 ^ 52 + 1 :: rat) \<le> of_int m" using of_int_le_iff [of "2 ^ 52 + 1" m, where 'a = rat] by simp
      then have "(2 ^ 52 + 1) * 2 powi E \<le> a" unfolding m by (intro mult_right_mono) auto
      then show False using gap half hi p [of 52] by (simp add: distrib_right)
    qed
    moreover have "2 ^ 52 \<le> m"
    proof -
      have "(2 ^ 52 :: rat) * 2 powi E \<le> of_int m * 2 powi E" using lo p [of 52] m by simp
      then have "(of_int (2 ^ 52) :: rat) \<le> of_int m" by simp
      then show ?thesis by (simp only: of_int_le_iff)
    qed
    ultimately have "m = 2 ^ 52" by simp
    then have a: "a = 2 powi (E + 52)" using m p [of 52] by simp
    have "a / 2 \<le> y" using assms(1,3) by (simp add: abs_if field_simps split: if_splits)
    then have "2 powi (E + 51) \<le> y" using p [of 51] p [of 52] by (simp add: a)
    then have "flog2 y = E + 51" using hi by (intro flog2_unique) (simp_all add: algebra_simps)
    then have u: "ulp_exp y = E - 1" using y E(2) by (simp add: ulp_exp_def)
    have "a = of_int (2 ^ 53) * 2 powi ulp_exp y" using p [of 52] p [of "-1"] by (simp add: a u)
    moreover have "\<bar>y - a\<bar> < 2 powi (ulp_exp y - 1)"
      using assms(3) p [of 52] p [of "-2"] by (simp add: a u algebra_simps power_int_minus)
    ultimately show ?thesis using y by (intro rnd_nearI) auto
  qed
qed

section \<open>The shortest decimal\<close>

lemma nat_str_bounds: "0 < n \<Longrightarrow> 10 ^ (length (nat_str n) - 1) \<le> n" "n < 10 ^ length (nat_str n)"
proof (induction n rule: nat_str.induct)
  case (1 n)
  {
    case 1
    then show ?case
    proof (cases "n < 10")
      case False
      then have "10 ^ (length (nat_str (n div 10)) - 1) \<le> n div 10" using "1.IH"(1) by simp
      moreover have "length (nat_str (n div 10)) = Suc (length (nat_str (n div 10)) - 1)"
        using nat_str_nonempty [of "n div 10"] by (cases "nat_str (n div 10)") auto
      ultimately have "10 ^ length (nat_str (n div 10)) \<le> n div 10 * 10" by (metis mult.commute mult_le_mono2 power_Suc)
      also have "\<dots> \<le> n" by simp
      finally show ?thesis using False by (simp add: nat_str.simps [of n])
    qed (simp add: nat_str.simps [of n])
  next
    case 2
    show ?case
    proof (cases "n < 10")
      case False
      then have "n div 10 < 10 ^ length (nat_str (n div 10))" using "1.IH"(2) by simp
      then show ?thesis using False by (simp add: nat_str.simps [of n])
    qed (simp add: nat_str.simps [of n])
  }
qed

lemma int_str_bounds:
  assumes "0 < a"
  shows "10 powi (int (length (int_str a)) - 1) \<le> (of_int a :: rat)" "(of_int a :: rat) < 10 powi int (length (int_str a))"
proof -
  obtain n where n: "a = int n" "0 < n" using assms by (cases a) auto
  have "1 \<le> length (nat_str n)" using nat_str_nonempty [of n] by (cases "nat_str n") auto
  moreover have "(of_nat (10 ^ (length (nat_str n) - 1)) :: rat) \<le> of_nat n" "(of_nat n :: rat) < of_nat (10 ^ length (nat_str n))"
    using nat_str_bounds [of n] n(2) by (simp_all only: of_nat_le_iff of_nat_less_iff)
  ultimately show "10 powi (int (length (int_str a)) - 1) \<le> (of_int a :: rat)" "(of_int a :: rat) < 10 powi int (length (int_str a))"
    using n by (simp_all add: int_str_def power_int_def nat_diff_distrib)
qed

lemma flog10_le:
  assumes "0 < q"
  shows "10 powi flog10 q \<le> q"
proof -
  obtain a b where ab: "quotient_of q = (a, b)" by (cases "quotient_of q")
  have b: "0 < b" using ab by (rule quotient_of_denom_pos)
  have q: "q = of_int a / of_int b" using ab by (rule quotient_of_div)
  then have a: "0 < a" using assms b by (simp add: zero_less_divide_iff)
  let ?e = "int (length (int_str a)) - int (length (int_str b)) - 1"
  have "10 powi ?e * of_int b \<le> (10 powi ?e * 10 powi int (length (int_str b)) :: rat)"
    using int_str_bounds(2) [OF b] by (intro mult_left_mono) auto
  also have "\<dots> = 10 powi (int (length (int_str a)) - 1)"
    using power_int_add [of "10 :: rat" ?e "int (length (int_str b))"] by simp
  also have "\<dots> \<le> of_int a" by (rule int_str_bounds(1) [OF a])
  finally have "10 powi ?e \<le> q" using b by (simp add: q le_divide_eq)
  then show ?thesis by (auto simp: flog10_def ab Let_def)
qed

text \<open>What the search returns: a positive decimal that rounds to \<open>a\<close>.\<close>

definition reads_as :: "rat \<Rightarrow> int \<Rightarrow> nat \<Rightarrow> bool" where
  "reads_as a d n = (0 < d \<and> rnd (of_int d / 10 powi (int n - 1 - flog10 a)) = a)"

lemma shortest_at_reads:
  assumes "shortest_at a n = Some d" "0 < a"
  shows "reads_as a d n"
proof -
  let ?s = "10 powi (int n - 1 - flog10 a) :: rat"
  have "0 < a * ?s" using assms(2) by simp
  then have "0 \<le> \<lfloor>a * ?s\<rfloor>" by simp
  then show ?thesis using assms(1) by (auto simp: shortest_at_def reads_as_def Let_def split: if_splits)
qed

lemma shortest_17:
  assumes "0 < a" "rnd a = a"
  shows "shortest_at a 17 \<noteq> None"
proof -
  let ?s = "10 powi (16 - flog10 a) :: rat"
  define x where "x = a * ?s"
  have s: "0 < ?s" by simp
  have x: "10 ^ 16 \<le> x"
  proof -
    have "10 ^ 16 = 10 powi flog10 a * ?s" by (simp flip: power_int_add)
    also have "\<dots> \<le> a * ?s" using flog10_le [OF assms(1)] by (intro mult_right_mono) auto
    finally show ?thesis by (simp add: x_def)
  qed
  have near: "rnd (of_int k / ?s) = a" if "\<bar>of_int k - x\<bar> \<le> 1 / 2" for k
  proof (rule rnd_near [OF assms])
    have "of_int k / ?s - a = (of_int k - x) / ?s" using s by (simp add: x_def field_simps)
    then have "\<bar>of_int k / ?s - a\<bar> = \<bar>of_int k - x\<bar> / ?s" by (simp add: abs_div)
    also have "\<dots> \<le> 1 / 2 / ?s" using that by (intro divide_right_mono) auto
    also have "\<dots> < x / 2 ^ 54 / ?s" using x s by (intro divide_strict_right_mono) auto
    also have "\<dots> = a / 2 ^ 54" using s by (simp add: x_def)
    finally show "\<bar>of_int k / ?s - a\<bar> < a / 2 ^ 54" .
  qed
  have f: "of_int \<lfloor>x\<rfloor> \<le> x" "x < of_int \<lfloor>x\<rfloor> + 1" by linarith+
  have "(1 :: rat) \<le> 10 ^ 16" by simp
  then have "1 \<le> x" using x by (rule order_trans)
  then have pos: "0 < \<lfloor>x\<rfloor>" by (simp add: less_floor_iff)
  show ?thesis
  proof (cases "x - of_int \<lfloor>x\<rfloor> \<le> 1 / 2")
    case True
    then have "rnd (of_int \<lfloor>x\<rfloor> / ?s) = a" using f by (intro near) simp
    then show ?thesis using pos by (simp add: shortest_at_def Let_def flip: x_def)
  next
    case False
    then have "rnd (of_int (\<lfloor>x\<rfloor> + 1) / ?s) = a" using f by (intro near) simp
    then show ?thesis by (simp add: shortest_at_def Let_def flip: x_def)
  qed
qed

lemma shortest_from_reads:
  "0 < a \<Longrightarrow> \<exists>n \<in> set ns. shortest_at a n \<noteq> None \<Longrightarrow> shortest_from a k ns = (d, n) \<Longrightarrow> reads_as a d n"
  by (induction ns arbitrary: k) (auto dest: shortest_at_reads split: option.splits)

lemma repr_reads:
  assumes "0 < a" "rnd a = a" "shortest_from a 0 [1..<18] = (d, n)"
  shows "reads_as a d n"
  using assms(1,3) shortest_17 [OF assms(1,2)] by (intro shortest_from_reads [OF assms(1) _ assms(3)] bexI [of _ 17]) auto

section \<open>Reading the placed digits\<close>

lemma digits_val_append:
  assumes "list_all is_digit s" "list_all is_digit t"
  shows "digits_val (s @ t) = digits_val s * 10 ^ length t + digits_val t"
proof -
  have acc: "digits_acc a u = Some (a * 10 ^ length u + digits_val u)" if "list_all is_digit u" for a u
  proof -
    have "\<exists>n. \<forall>a. digits_acc a u = Some (a * 10 ^ length u + n)"
      using that
    proof (induction u)
      case (Cons c u)
      then obtain n where n: "\<forall>a. digits_acc a u = Some (a * 10 ^ length u + n)" by auto
      have "digits_acc a (c # u) = Some (a * 10 ^ length (c # u) + (digit_val c * 10 ^ length u + n))" for a
        using Cons.prems n by (simp add: algebra_simps)
      then show ?case by blast
    qed (intro exI [of _ 0], simp)
    then obtain n where n: "\<forall>a. digits_acc a u = Some (a * 10 ^ length u + n)" by blast
    then have "digits_val u = n" by (cases "u = []") (auto simp: digits_val_def digits_nat_def)
    with n show ?thesis by simp
  qed
  show ?thesis
    using acc [OF assms(1), of 0] acc [OF assms(2), of "digits_val s"] by (simp add: digits_val_def [of "s @ t"] digits_nat_def digits_acc_append digits_val_def [of "[]"])
qed

lemma digits_val_zeros [simp]: "digits_val (replicate k (CHR ''0'')) = 0"
proof (induction k)
  case (Suc k)
  have "digits_val (''0'' @ replicate k (CHR ''0'')) = 0"
    using Suc by (subst digits_val_append) (simp_all add: is_digit_def list_all_iff digits_val_def digits_nat_def digit_val_def)
  then show ?case by simp
qed (simp add: digits_val_def digits_nat_def)

lemma zeros_digits: "list_all is_digit (replicate k (CHR ''0''))"
  by (simp add: list_all_iff is_digit_def)

lemma digits_val_leading: "list_all is_digit s \<Longrightarrow> digits_val (replicate k (CHR ''0'') @ s) = digits_val s"
  by (simp add: digits_val_append zeros_digits)

text \<open>Digits that start with a non-zero digit.\<close>

definition sig_digits :: "string \<Rightarrow> bool" where
  "sig_digits ds = (ds \<noteq> [] \<and> list_all is_digit ds \<and> hd ds \<noteq> CHR ''0'')"

lemma span_digits:
  assumes "list_all is_digit ds" "stops r \<or> (\<exists>c r'. r = c # r' \<and> \<not> is_digit c)"
  shows "takeWhile is_digit (ds @ r) = ds" "dropWhile is_digit (ds @ r) = r"
  using assms by (induction ds) (auto simp: stops_def split: list.splits)

lemma scan_parts:
  assumes "int_part (ip @ r) = ip" "ip \<noteq> []" "hd ip \<noteq> CHR ''-''" "scan_fraction r = (fp, r2)" "scan_exponent r2 = (ep, [])"
    and "\<not> (fp = [] \<and> ep = None)"
  shows "scan_number ((if neg then ''-'' else []) @ ip @ r) =
    Inr (PFloat (read_float neg (ip @ fp) ((case ep of None \<Rightarrow> 0 | Some e \<Rightarrow> e) - int (length fp))), [])"
proof -
  have "take 1 (ip @ r) \<noteq> ''-''" using assms(2,3) by (cases ip) auto
  then show ?thesis using assms(1,2,4,5,6) by (cases neg) (auto simp: scan_number_def number_val_def Let_def)
qed

lemma scan_fraction_digits:
  assumes "list_all is_digit fp" "fp \<noteq> []" "stops r \<or> (\<exists>c r'. r = c # r' \<and> \<not> is_digit c)"
  shows "scan_fraction (''.'' @ fp @ r) = (fp, r)"
  using span_digits [OF assms(1,3)] assms(2) by (simp add: scan_fraction_def Let_def)

lemma scan_exponent_nil: "scan_exponent [] = (None, [])"
  by (simp add: scan_exponent_def)

lemma int_part_sig:
  assumes "sig_digits ds" "\<exists>c r'. r = c # r' \<and> \<not> is_digit c"
  shows "int_part (ds @ r) = ds"
proof -
  have "take 1 (ds @ r) \<noteq> ''0''" using assms(1) by (cases ds) (auto simp: sig_digits_def)
  with span_digits(1) [of ds r] assms show ?thesis by (simp add: int_part_def sig_digits_def)
qed

lemma sig_digits_sign: "sig_digits ds \<Longrightarrow> hd ds \<noteq> CHR ''-''"
  by (cases ds) (auto simp: sig_digits_def is_digit_def)

text \<open>\<open>shows_value neg t q\<close>: the text is read as the float nearest to \<open>q\<close>, with the sign.\<close>

definition shows_value :: "string \<Rightarrow> rat \<Rightarrow> bool" where
  "shows_value t q = (\<forall>neg. scan_number ((if neg then ''-'' else []) @ t) =
     Inr (PFloat (if neg then fneg (fl q) else fl q), []))"

lemma shows_valueI:
  assumes "int_part (ip @ r) = ip" "ip \<noteq> []" "hd ip \<noteq> CHR ''-''" "scan_fraction r = (fp, r2)" "scan_exponent r2 = (ep, [])"
    and "\<not> (fp = [] \<and> ep = None)"
    and "of_nat (digits_val (ip @ fp)) * 10 powi ((case ep of None \<Rightarrow> 0 | Some e \<Rightarrow> e) - int (length fp)) = q"
  shows "shows_value (ip @ r) q"
  unfolding shows_value_def using scan_parts [OF assms(1-6)] assms(7) by (auto simp: read_float_def Let_def)

lemma place_fixed:
  assumes "sig_digits ds" "-4 < decpt" "decpt \<le> 16"
  shows "shows_value (place_digits ds decpt) (of_nat (digits_val ds) * 10 powi (decpt - int (length ds)))"
proof -
  have ds: "list_all is_digit ds" "ds \<noteq> []" using assms(1) by (auto simp: sig_digits_def)
  have dot: "\<exists>c r'. ''.'' @ r = c # r' \<and> \<not> is_digit c" for r by (simp add: is_digit_def)
  have stop: "stops []" by (simp add: stops_def)
  consider "decpt \<le> 0" | "0 < decpt" "int (length ds) \<le> decpt" | "0 < decpt" "decpt < int (length ds)" by linarith
  then show ?thesis
  proof cases
    case 1
    let ?z = "replicate (nat (- decpt)) (CHR ''0'')"
    have "digits_val (''0'' @ ?z @ ds) = digits_val ds"
      using digits_val_leading [OF ds(1), of "Suc (nat (- decpt))"] by simp
    then show ?thesis
      using scan_fraction_digits [of "?z @ ds" "[]"] ds zeros_digits stop 1 assms(2)
      by (simp add: place_digits_def) (intro shows_valueI [of "''0''" _ "?z @ ds" "[]" None, simplified],
        auto simp: int_part_def scan_exponent_nil)
  next
    case 2
    let ?z = "replicate (nat decpt - length ds) (CHR ''0'')"
    have sig: "sig_digits (ds @ ?z)" using assms(1) zeros_digits by (simp add: sig_digits_def)
    have "digits_val ((ds @ ?z) @ ''0'') = digits_val ds * 10 ^ (nat decpt - length ds) * 10"
      using ds zeros_digits [of 1] zeros_digits digits_val_append [of "ds @ ?z" "''0''"] digits_val_append [of ds ?z]
        digits_val_zeros [of 1]
      by simp
    moreover have "(10 :: rat) powi (decpt - int (length ds)) = 10 ^ (nat decpt - length ds)"
      using 2 by (simp add: power_int_def nat_diff_distrib)
    ultimately have "of_nat (digits_val ((ds @ ?z) @ ''0'')) * 10 powi (0 - int (length ''0'')) =
        of_nat (digits_val ds) * (10 :: rat) powi (decpt - int (length ds))"
      by (simp add: power_int_minus)
    then have "shows_value ((ds @ ?z) @ ''.'' @ ''0'') (of_nat (digits_val ds) * 10 powi (decpt - int (length ds)))"
      using scan_fraction_digits [of "''0''" "[]"] stop
      by (intro shows_valueI [OF int_part_sig [OF sig dot] _ sig_digits_sign [OF sig] _ scan_exponent_nil])
        (auto simp: ds is_digit_def)
    then show ?thesis using 2 assms by (simp add: place_digits_def)
  next
    case 3
    let ?k = "nat decpt"
    have sig: "sig_digits (take ?k ds)" "list_all is_digit (drop ?k ds)" "drop ?k ds \<noteq> []"
      using assms(1) 3 by (auto simp: sig_digits_def list_all_iff dest: in_set_takeD in_set_dropD)
    have "of_nat (digits_val (take ?k ds @ drop ?k ds)) * 10 powi (0 - int (length (drop ?k ds))) =
        of_nat (digits_val ds) * (10 :: rat) powi (decpt - int (length ds))"
      using 3 by (simp add: of_nat_diff algebra_simps)
    then have "shows_value (take ?k ds @ ''.'' @ drop ?k ds) (of_nat (digits_val ds) * 10 powi (decpt - int (length ds)))"
      using scan_fraction_digits [OF sig(2,3), of "[]"] stop sig
      by (intro shows_valueI [OF int_part_sig [OF sig(1) dot] _ sig_digits_sign [OF sig(1)] _ scan_exponent_nil])
        (auto simp: sig_digits_def)
    then show ?thesis using 3 assms by (simp add: place_digits_def)
  qed
qed

lemma place_exponent:
  assumes "sig_digits ds" "\<not> (-4 < decpt \<and> decpt \<le> 16)"
  shows "shows_value (place_digits ds decpt) (of_nat (digits_val ds) * 10 powi (decpt - int (length ds)))"
proof -
  define e where "e = decpt - 1"
  define x where "x = ''e'' @ (if e < 0 then ''-'' else ''+'') @ pad 2 (nat \<bar>e\<bar>)"
  define r where "r = (if length ds = 1 then [] else ''.'' @ drop 1 ds) @ x"
  have ds: "list_all is_digit ds" "ds \<noteq> []" using assms(1) by (auto simp: sig_digits_def)
  have sig: "sig_digits (take 1 ds)" "list_all is_digit (drop 1 ds)"
    using assms(1) by (auto simp: sig_digits_def list_all_iff dest: in_set_takeD in_set_dropD)
  have nz: "pad 2 n \<noteq> []" for n by (simp add: pad_def Let_def)
  have pd: "takeWhile is_digit (pad 2 n) = pad 2 n" "dropWhile is_digit (pad 2 n) = []" for n
    using pad_digits [of 2 n] by (simp_all add: takeWhile_eq_all_conv dropWhile_eq_Nil_conv list_all_iff)
  then have ex: "scan_exponent x = (Some e, [])"
    by (cases "e < 0") (simp_all add: x_def scan_exponent_def Let_def pd nz)
  have xe: "\<exists>c r'. x = c # r' \<and> \<not> is_digit c" "take 1 x \<noteq> ''.''" by (simp_all add: x_def is_digit_def)
  have fr: "scan_fraction r = (drop 1 ds, x)"
  proof (cases "length ds = 1")
    case True
    then show ?thesis using xe(2) by (simp add: r_def scan_fraction_def Let_def)
  next
    case False
    then have "drop 1 ds \<noteq> []" using ds(2) by (cases ds) auto
    from scan_fraction_digits [OF sig(2) this disjI2 [OF xe(1)]] False show ?thesis by (simp add: r_def)
  qed
  have "\<exists>c r'. r = c # r' \<and> \<not> is_digit c" using xe(1) by (simp add: r_def is_digit_def)
  from int_part_sig [OF sig(1) this] have ip: "int_part (take 1 ds @ r) = take 1 ds" .
  have "e - int (length (drop 1 ds)) = decpt - int (length ds)" using ds(2) by (cases ds) (simp_all add: e_def)
  then have "of_nat (digits_val (take 1 ds @ drop 1 ds)) * 10 powi ((case Some e of None \<Rightarrow> 0 | Some e \<Rightarrow> e) - int (length (drop 1 ds))) =
      of_nat (digits_val ds) * (10 :: rat) powi (decpt - int (length ds))" by simp
  from shows_valueI [OF ip _ sig_digits_sign [OF sig(1)] fr ex _ this] sig(1)
  have "shows_value (take 1 ds @ r) (of_nat (digits_val ds) * 10 powi (decpt - int (length ds)))" by (simp add: sig_digits_def)
  moreover have "place_digits ds decpt = take 1 ds @ r"
    using assms(2) by (auto simp: place_digits_def r_def x_def e_def Let_def)
  ultimately show ?thesis by simp
qed

lemma place_reads:
  assumes "sig_digits ds"
  shows "shows_value (place_digits ds decpt) (of_nat (digits_val ds) * 10 powi (decpt - int (length ds)))"
  using place_fixed [OF assms, of decpt] place_exponent [OF assms, of decpt] by blast

lemma strip_zeros_split: "\<exists>k. s = strip_zeros s @ replicate k (CHR ''0'')"
proof -
  have "s = rev (dropWhile (\<lambda>c. c = CHR ''0'') (rev s)) @ rev (takeWhile (\<lambda>c. c = CHR ''0'') (rev s))"
    by (metis rev_append rev_rev_ident takeWhile_dropWhile_id)
  moreover have "takeWhile (\<lambda>c. c = CHR ''0'') u = replicate (length (takeWhile (\<lambda>c. c = CHR ''0'') u)) (CHR ''0'')" for u
    by (induction u) auto
  ultimately show ?thesis unfolding strip_zeros_def by (metis rev_replicate)
qed

lemma strip_nat_str:
  assumes "0 < n"
  shows "sig_digits (strip_zeros (nat_str n))"
    "n = digits_val (strip_zeros (nat_str n)) * 10 ^ (length (nat_str n) - length (strip_zeros (nat_str n)))"
proof -
  obtain k where k: "nat_str n = strip_zeros (nat_str n) @ replicate k (CHR ''0'')" using strip_zeros_split by blast
  have d: "list_all is_digit (strip_zeros (nat_str n))" using nat_str_digits [of n] by (subst (asm) k) simp
  have hd: "hd (nat_str n) \<noteq> CHR ''0''" using nat_str_zero [of n] assms by auto
  have ne: "strip_zeros (nat_str n) \<noteq> []"
  proof
    assume "strip_zeros (nat_str n) = []"
    with k have "nat_str n = replicate k (CHR ''0'')" by simp
    with hd nat_str_nonempty [of n] show False by (cases k) auto
  qed
  have "hd (nat_str n) = hd (strip_zeros (nat_str n))" using ne by (subst k) simp
  with d ne hd show "sig_digits (strip_zeros (nat_str n))" by (simp add: sig_digits_def)
  have "digits_val (nat_str n) = digits_val (strip_zeros (nat_str n)) * 10 ^ k"
    using d zeros_digits by (subst k) (simp add: digits_val_append)
  moreover have "length (nat_str n) - length (strip_zeros (nat_str n)) = k" by (subst k) simp
  ultimately show "n = digits_val (strip_zeros (nat_str n)) * 10 ^ (length (nat_str n) - length (strip_zeros (nat_str n)))" by simp
qed

lemma repr_pos_shows:
  assumes "0 < a" "rnd a = a"
  shows "\<exists>q. shows_value (repr_pos a) q \<and> rnd q = a"
proof -
  obtain d n where dn: "shortest_from a 0 [1..<18] = (d, n)" by (cases "shortest_from a 0 [1..<18]")
  from repr_reads [OF assms dn] have d: "0 < d" "rnd (of_int d / 10 powi (int n - 1 - flog10 a)) = a"
    by (simp_all add: reads_as_def)
  let ?s = "nat_str (nat d)"
  let ?ds = "strip_zeros ?s"
  note st = strip_nat_str [of "nat d"]
  have len: "length ?ds \<le> length ?s" using strip_zeros_split [of ?s] by (metis le_add1 length_append)
  have "(of_int d :: rat) = of_nat (nat d)" using d(1) by simp
  also have "\<dots> = of_nat (digits_val ?ds) * 10 ^ (length ?s - length ?ds)" using st(2) d(1)
    by (metis of_nat_mult of_nat_numeral of_nat_power zero_less_nat_eq)
  finally have dval: "of_int d = of_nat (digits_val ?ds) * (10 :: rat) powi (int (length ?s) - int (length ?ds))"
    using len by (simp add: power_int_def nat_diff_distrib)
  let ?p = "flog10 a + 1 + (int (length ?s) - int n)"
  have "of_nat (digits_val ?ds) * (10 :: rat) powi (?p - int (length ?ds)) = of_int d / 10 powi (int n - 1 - flog10 a)"
    unfolding dval by (simp add: power_int_add power_int_diff field_simps)
  moreover have "repr_pos a = place_digits ?ds ?p" using d(1) unfolding repr_pos_def dn by (simp add: Let_def int_str_def)
  ultimately show ?thesis using place_reads [OF st(1), of ?p] d by auto
qed

section \<open>Values read back\<close>

lemma fl_of_rnd: "rnd q = a \<Longrightarrow> 0 < a \<Longrightarrow> a < 2 ^ 1024 \<Longrightarrow> fl q = Fin a"
proof -
  assume "rnd q = a" "0 < a" "a < 2 ^ 1024"
  moreover from this have "\<not> a \<le> - (2 ^ 1024)" by (meson less_trans neg_less_0_iff_less not_le zero_less_numeral zero_less_power)
  ultimately show ?thesis by (simp add: fl_def Let_def)
qed

lemma zero_text_reads: "scan_number ''0.0'' = Inr (PFloat (Fin 0), [])" "scan_number ''-0.0'' = Inr (PFloat NegZero, [])"
proof -
  have "digits_val ''00'' = 0" using digits_val_zeros [of 2] by (simp add: numeral_eq_Suc)
  then show "scan_number ''0.0'' = Inr (PFloat (Fin 0), [])" "scan_number ''-0.0'' = Inr (PFloat NegZero, [])"
    by (simp_all add: scan_number_def int_part_def scan_fraction_def scan_exponent_nil number_val_def read_float_def is_digit_def
        fl_def Let_def)
qed

lemma float_text_reads:
  assumes "wf_float x"
  shows "float_reads x"
proof (cases x)
  case (Fin q)
  have q: "rnd q = q" "\<bar>q\<bar> < 2 ^ 1024" using assms by (simp_all add: Fin wf_float_def b64_def)
  have "rnd \<bar>q\<bar> = \<bar>q\<bar>" using q(1) rnd_minus [of q] by (simp add: abs_if)
  moreover have "shows_value (repr_pos \<bar>q\<bar>) p \<Longrightarrow> rnd p = \<bar>q\<bar> \<Longrightarrow> q \<noteq> 0 \<Longrightarrow>
      scan_number (json_float (Fin q)) = Inr (PFloat (Fin q), [])" for p
    using fl_of_rnd [of p "\<bar>q\<bar>"] q(2) by (cases "q < 0") (auto simp: shows_value_def dest: spec [of _ True] spec [of _ False])
  ultimately show ?thesis using repr_pos_shows [of "\<bar>q\<bar>"] by (cases "q = 0") (auto simp: Fin float_reads_def zero_text_reads)
next
  case NegZero
  show ?thesis by (simp add: NegZero float_reads_def zero_text_reads)
qed (simp_all add: float_reads_def)

text \<open>The values of the sources: doubles, integers that Python prints, dictionaries with distinct keys.\<close>

fun json_value :: "pyval \<Rightarrow> bool" where
  "json_value (PInt i) = (length (nat_str (nat \<bar>i\<bar>)) \<le> 4300)"
| "json_value (PFloat x) = wf_float x"
| "json_value (PList vs) = list_all json_value vs"
| "json_value (PDict kvs) = (distinct (map fst kvs) \<and> list_all (\<lambda>p. json_value (snd p)) kvs)"
| "json_value _ = True"

lemma json_value_jsonable: "json_value v \<Longrightarrow> jsonable v"
proof (induction v)
  case (PDict kvs)
  then show ?case by (auto simp: list_all_iff snds.simps)
qed (auto simp: list_all_iff float_text_reads)

lemma loads_dumps_value: "json_value v \<Longrightarrow> json_loads (dumps v) = Inr v"
  by (rule loads_dumps) (rule json_value_jsonable)

text \<open>Text that holds a JSON object, and the object.\<close>

definition object_of :: "string \<Rightarrow> pydict option" where
  "object_of text = (case json_loads text of Inr (PDict p) \<Rightarrow> Some p | _ \<Rightarrow> None)"

definition is_object :: "string \<Rightarrow> bool" where
  "is_object text = (\<exists>p. json_loads text = Inr (PDict p))"

lemma object_of_dumps: "json_value (PDict p) \<Longrightarrow> object_of (dumps (PDict p)) = Some p" "json_value (PDict p) \<Longrightarrow> is_object (dumps (PDict p))"
  using loads_dumps_value [of "PDict p"] by (simp_all add: object_of_def is_object_def del: json_dumps.simps)

text \<open>\<^verbatim>\<open>json.loads(b.decode("utf-8"))\<close>; code points above 255 are outside the modelled strings.\<close>

definition loads_utf8 :: "bytes \<Rightarrow> pyval res" where
  "loads_utf8 b =
     (case utf8_decode b of
        None \<Rightarrow> Inl (ValueError ''UnicodeDecodeError'')
      | Some cs \<Rightarrow> if list_all (\<lambda>c. c < 256) cs then json_loads (map char_of cs) else Inl (IllTyped ''code point''))"

text \<open>\<^verbatim>\<open>json.dumps(v).encode("utf-8")\<close>.\<close>

definition dumps_utf8 :: "pyval \<Rightarrow> bytes" where
  "dumps_utf8 v = utf8_encode (dumps v)"

lemma loads_dumps_utf8: "json_value v \<Longrightarrow> loads_utf8 (dumps_utf8 v) = Inr v"
proof -
  have "list_all (\<lambda>c. c < 256) (map (of_char :: char \<Rightarrow> nat) s)" for s by (simp add: list_all_iff of_char_less_256)
  then show "json_value v \<Longrightarrow> ?thesis"
    using loads_dumps_value [of v] by (simp add: loads_utf8_def dumps_utf8_def comp_def del: json_dumps.simps)
qed

end
