(* ===== verification/UnixTime.thy ===== *)
theory UnixTime
  imports PyTime FloatText
begin

text \<open>
  The millisecond timestamps of the gRPC messages: \<^verbatim>\<open>int(t.timestamp() * 1000)\<close> goes through two binary64 roundings.
  Between November 2004 and January 2038 the result is the exact number of whole milliseconds; from the 32-bit
  rollover on, where the seconds need one more bit, it is not.
\<close>

section \<open>Definitions\<close>

text \<open>\<^verbatim>\<open>int(x)\<close> of a float: towards zero.\<close>

definition py_trunc :: "pyfloat \<Rightarrow> int res" where
  "py_trunc x = (case x of
     Fin q \<Rightarrow> Inr (if 0 \<le> q then \<lfloor>q\<rfloor> else \<lceil>q\<rceil>)
   | NegZero \<Rightarrow> Inr 0
   | NaN \<Rightarrow> Inl (ValueError ''cannot convert float NaN to integer'')
   | _ \<Rightarrow> Inl (OverflowError ''cannot convert float infinity to integer''))"

text \<open>A naive value would be read in the local time zone of the process.\<close>

definition unix_ms :: "datetime \<Rightarrow> int res" where
  "unix_ms t = (if dt_offset t = None then Inl (IllTyped ''naive datetime'')
                else py_trunc (fmul (timestamp t) (Fin 1000)))"

section \<open>Rounding errors\<close>

lemma rhe_error: "\<bar>of_int (rhe x) - x\<bar> \<le> 1 / 2"
  using floor_correct [of x] by (auto simp: rhe_def Let_def)

lemma rnd_error: "q \<noteq> 0 \<Longrightarrow> \<bar>rnd q - q\<bar> \<le> 2 powi (ulp_exp q - 1)"
proof -
  assume q: "q \<noteq> 0"
  let ?u = "(2 :: rat) powi ulp_exp q"
  have "rnd q - q = (of_int (rhe (q / ?u)) - q / ?u) * ?u" using q by (simp add: rnd_def field_simps)
  then have "\<bar>rnd q - q\<bar> = \<bar>of_int (rhe (q / ?u)) - q / ?u\<bar> * ?u" by (simp add: abs_mult)
  also have "\<dots> \<le> 1 / 2 * ?u" by (intro mult_right_mono rhe_error) simp
  finally show ?thesis by (simp add: power_int_diff)
qed

lemma ulp_exp_in: "2 powi e \<le> q \<Longrightarrow> q < 2 powi (e + 1) \<Longrightarrow> -1022 \<le> e \<Longrightarrow> ulp_exp q = e - 52"
  using flog2_unique [of e q] less_le_trans [OF pow2_pos [of e], of q] by (simp add: ulp_exp_def abs_of_pos)

lemma fl_Fin: "0 < rnd q \<Longrightarrow> rnd q < 2 ^ 1024 \<Longrightarrow> fl q = Fin (rnd q)"
  by (rule fl_of_rnd) simp_all

text \<open>The window: at least \<open>1.1e9\<close> and less than \<open>2 ^ 31\<close> seconds.\<close>

lemma seconds_error:
  assumes "1100000000 \<le> q" "q < 2 ^ 31"
  shows "\<bar>rnd q - q\<bar> \<le> 1 / 2 ^ 23"
proof -
  have "ulp_exp q = -22" using assms by (subst ulp_exp_in [of 30]) (auto simp: power_int_def)
  then show ?thesis using rnd_error [of q] assms by (simp add: power_int_minus field_simps)
qed

lemma milliseconds_floor:
  assumes "1100000000000 \<le> m" "m < 2147483648000" "0 \<le> f" "f < 1000"
    and p: "\<bar>p - (of_int m + of_int f / 1000)\<bar> \<le> 1000 / 2 ^ 23"
  shows "\<lfloor>rnd p\<rfloor> = m"
proof (rule floor_unique)
  have mr: "(1100000000000 :: rat) \<le> of_int m" "(of_int m :: rat) \<le> 2147483647999"
    using assms(1,2) by simp_all
  have fr: "(0 :: rat) \<le> of_int f" "(of_int f :: rat) \<le> 999" using assms(3,4) by simp_all
  show "of_int m \<le> rnd p"
  proof (cases "of_int m \<le> p")
    case True
    have "rnd (of_int m) = (of_int m :: rat)" using assms(1,2) by (intro rnd_exact [of m 0]) auto
    with rnd_mono [OF True] show ?thesis by simp
  next
    case False
    have "f = 0"
    proof (rule ccontr)
      assume "f \<noteq> 0"
      then have "(1 :: rat) \<le> of_int f" using assms(3) by simp
      with p False show False by (simp add: abs_le_iff field_simps)
    qed
    then have gap: "\<bar>p - of_int m\<bar> \<le> 1000 / 2 ^ 23" using p by simp
    then have "\<bar>p - of_int m\<bar> \<le> 1 / 2" by (rule order_trans) simp
    then have lo: "1099999999999 \<le> p" and hi: "p < 2147483648000" using mr by linarith+
    have u: "ulp_exp p = -12" using lo hi by (subst ulp_exp_in [of 40]) (auto simp: power_int_def)
    have "rnd p = of_int m"
      using gap lo by (intro rnd_nearI [of _ "m * 4096"]) (auto simp: u power_int_minus field_simps)
    then show ?thesis by simp
  qed
  have "p - (of_int m + of_int f / 1000) \<le> 1000 / 2 ^ 23" by (rule abs_le_D1 [OF p])
  also have "(1000 :: rat) / 2 ^ 23 \<le> 1 / 8000" by simp
  finally have "p \<le> of_int m + 4095 / 4096" using fr(2) by linarith
  also have "\<dots> = of_int (m * 4096 + 4095) * 2 powi (-12)" by (simp add: power_int_minus field_simps)
  finally have "rnd p \<le> rnd (of_int (m * 4096 + 4095) * 2 powi (-12))" by (rule rnd_mono)
  also have "\<dots> = of_int (m * 4096 + 4095) * 2 powi (-12)"
    using assms(1,2) by (intro rnd_exact [of "m * 4096 + 4095" "-12"]) auto
  also have "\<dots> < of_int m + 1" by (simp add: power_int_minus field_simps)
  finally show "rnd p < of_int m + 1" .
qed

lemma unix_ms_window:
  assumes "dt_offset t \<noteq> None" "1100000000000000 \<le> epoch_us t" "epoch_us t < 2147483648000000"
  shows "unix_ms t = Inr (epoch_us t div 1000)"
proof -
  define u where "u = epoch_us t"
  define q :: rat where "q = of_int u / 1000000"
  have ur: "(1100000000000000 :: rat) \<le> of_int u" "(of_int u :: rat) < 2147483648000000"
    using assms(2,3) by (simp_all add: u_def)
  have q: "1100000000 \<le> q" "q < 2 ^ 31" using ur by (simp_all add: q_def field_simps)
  have err: "\<bar>rnd q - q\<bar> \<le> 1 / 2 ^ 23" by (rule seconds_error [OF q])
  then have "\<bar>rnd q - q\<bar> \<le> 1" by (rule order_trans) simp
  moreover have "q < 2147483648" using q(2) by simp
  ultimately have r: "1099999999 \<le> rnd q" "rnd q \<le> 2147483649" using q(1) by linarith+
  have ts: "timestamp t = Fin (rnd q)"
    using r assms(2) fl_Fin [of q] by (simp add: timestamp_def Let_def q_def u_def)
  have "(of_int u :: rat) = of_int (u div 1000) * 1000 + of_int (u mod 1000)"
    by (metis div_mult_mod_eq of_int_add of_int_mult of_int_numeral)
  then have "1000 * q = of_int (u div 1000) + of_int (u mod 1000) / 1000" by (simp add: q_def field_simps)
  then have "rnd q * 1000 - (of_int (u div 1000) + of_int (u mod 1000) / 1000) = (rnd q - q) * 1000" by (simp add: algebra_simps)
  then have "\<bar>rnd q * 1000 - (of_int (u div 1000) + of_int (u mod 1000) / 1000)\<bar> \<le> 1000 / 2 ^ 23"
    unfolding abs_mult by (simp only: abs_mult) (use err in simp)
  from milliseconds_floor [OF _ _ _ _ this] assms(2,3) have fl: "\<lfloor>rnd (rnd q * 1000)\<rfloor> = u div 1000" by (simp add: u_def)
  have "(1 :: rat) \<le> of_int (u div 1000)" "(of_int (u div 1000) :: rat) \<le> 2147483648000" using assms(2,3) by (simp_all add: u_def)
  then have pos: "0 < rnd (rnd q * 1000)" "rnd (rnd q * 1000) < 2147483648001"
    using fl floor_correct [of "rnd (rnd q * 1000)"] by linarith+
  note pos(2)
  also have "(2147483648001 :: rat) < 2 ^ 1024" by (rule less_trans [of _ "2 ^ 42"]) simp_all
  finally have "fl (rnd q * 1000) = Fin (rnd (rnd q * 1000))" by (rule fl_Fin [OF pos(1)])
  then show ?thesis using assms(1) ts r fl pos by (simp add: unix_ms_def py_trunc_def fmul_def is_inf_def is_zero_def u_def)
qed

section \<open>Every time fits the message field\<close>

lemma sum_list_days: "(\<Sum>m\<leftarrow>ms. days_in_month y m) \<le> 31 * length ms"
proof (induction ms)
  case (Cons m ms)
  then show ?case using days_in_month_le [of y m] by simp
qed simp

lemma epoch_us_bound:
  assumes "valid_datetime t" "dt_offset t = Some 0"
  shows "\<bar>epoch_us t\<bar> \<le> 2 ^ 59"
proof -
  let ?y = "dt_year t" and ?m = "dt_month t"
  note v = assms(1) [unfolded valid_datetime_def]
  have y: "-1 \<le> days_before_year ?y" "days_before_year ?y \<le> 5000000"
    using v by (auto simp: days_before_year_def Let_def)
  have "days_before_month ?y ?m \<le> 31 * (?m - 1)"
    using sum_list_days [of ?y "[1..<?m]"] by (simp add: days_before_month_def)
  then have m: "days_before_month ?y ?m \<le> 372" using v by linarith
  have d: "dt_day t \<le> 31" using v days_in_month_le [of ?y ?m] by linarith
  have o: "-1 \<le> ymd2ord ?y ?m (dt_day t)" "ymd2ord ?y ?m (dt_day t) \<le> 5000403" using y m d by (simp_all add: ymd2ord_def)
  have h: "dt_hour t * 3600 + dt_minute t * 60 + dt_second t < 86400" "dt_micro t < 1000000" using v by auto
  show ?thesis using o h assms(2) by (auto simp: epoch_us_def abs_le_iff)
qed

lemma rnd_abs_le: "\<bar>q\<bar> \<le> 2 ^ n \<Longrightarrow> n \<le> 1023 \<Longrightarrow> \<bar>rnd q\<bar> \<le> 2 ^ n"
proof -
  assume q: "\<bar>q\<bar> \<le> 2 ^ n"
  have "rnd (2 ^ n) = (2 :: rat) ^ n" by (rule rnd_exact [of 1 "int n"]) (simp_all add: power_int_of_nat)
  with q rnd_mono [of q "2 ^ n"] rnd_mono [of "- (2 ^ n)" q] show ?thesis by (simp add: abs_le_iff rnd_minus)
qed

text \<open>No infinity and no NaN arises.\<close>

lemma fl_bounded:
  assumes "\<bar>q\<bar> \<le> 2 ^ n" "n \<le> 1023"
  shows "fl q = NegZero \<and> rnd q = 0 \<or> fl q = Fin (rnd q) \<and> \<bar>rnd q\<bar> \<le> 2 ^ n"
proof -
  have "(2 :: rat) ^ n < 2 ^ 1024" using assms(2) by (intro power_strict_increasing) auto
  then show ?thesis using rnd_abs_le [OF assms] by (auto simp: fl_def Let_def abs_le_iff)
qed

lemma py_trunc_bounded: "fl q = NegZero \<or> fl q = Fin r \<and> \<bar>r\<bar> \<le> of_int b \<Longrightarrow> 0 \<le> b \<Longrightarrow> \<exists>k. py_trunc (fl q) = Inr k \<and> \<bar>k\<bar> \<le> b"
  unfolding py_trunc_def by (auto simp: abs_le_iff) linarith+

lemma unix_ms_fits:
  assumes "valid_datetime t" "dt_offset t = Some 0"
  shows "\<exists>ms. unix_ms t = Inr ms \<and> \<bar>ms\<bar> < 2 ^ 63"
proof -
  define q :: rat where "q = of_int (epoch_us t) / 1000000"
  have "\<bar>of_int (epoch_us t) :: rat\<bar> \<le> of_int (2 ^ 59)" using epoch_us_bound [OF assms] by (simp only: of_int_abs [symmetric] of_int_le_iff)
  then have q: "\<bar>q\<bar> \<le> 2 ^ 40" by (simp add: q_def)
  consider (zero) "timestamp t = Fin 0" | (neg) "timestamp t = NegZero" | (fin) "timestamp t = Fin (rnd q)" "\<bar>rnd q\<bar> \<le> 2 ^ 40"
    using fl_bounded [OF q] by (cases "epoch_us t = 0") (auto simp: timestamp_def q_def)
  then show ?thesis
  proof cases
    case fin
    have "\<bar>rnd q * 1000\<bar> \<le> 2 ^ 50" using fin(2) by (simp add: abs_mult)
    from py_trunc_bounded [of "rnd q * 1000" _ "2 ^ 50"] fl_bounded [OF this] fin assms(2) show ?thesis
      by (fastforce simp: unix_ms_def fmul_def is_inf_def is_zero_def py_trunc_def)
  qed (use assms in \<open>simp_all add: unix_ms_def fmul_def is_inf_def is_zero_def py_trunc_def\<close>)
qed

section \<open>Property\<close>

text \<open>Two milliseconds after the 32-bit rollover of the seconds.\<close>

definition rollover :: datetime where
  "rollover = \<lparr>dt_year = 2038, dt_month = 1, dt_day = 19, dt_hour = 3, dt_minute = 14, dt_second = 8,
     dt_micro = 2000, dt_offset = Some 0\<rparr>"

lemma epoch_us_rollover: "epoch_us rollover = 2147483648002000"
  by (simp add: epoch_us_def rollover_def ymd2ord_def days_before_year_def days_before_month_def)

lemma rnd_rollover:
  "rnd (2147483648002 / 1000) = 4503599627374690 / 2 ^ 21"
  "rnd (4503599627374690 / 2 ^ 21 * 1000) = 8796093022216191 / 2 ^ 12"
  by (rule rnd_nearI [of _ 4503599627374690] rnd_nearI [of _ 8796093022216191];
      simp add: ulp_exp_in [of 31] ulp_exp_in [of 40] power_int_def power_divide)+

lemma unix_ms_rollover: "unix_ms rollover = Inr 2147483648001"
proof -
  have "timestamp rollover = Fin (4503599627374690 / 2 ^ 21)"
    using fl_Fin [of "2147483648002 / 1000"] rnd_rollover(1) by (simp add: timestamp_def epoch_us_rollover)
  moreover have "fl (4503599627374690 / 2 ^ 21 * 1000) = Fin (8796093022216191 / 2 ^ 12)"
    using fl_Fin [of "4503599627374690 / 2 ^ 21 * 1000"] unfolding rnd_rollover(2) by simp
  ultimately show ?thesis
    by (simp add: unix_ms_def rollover_def py_trunc_def fmul_def is_inf_def is_zero_def floor_unique)
qed

text \<open>C30: the millisecond timestamps of the gRPC messages. For every aware time from 2004-11-09T11:33:20Z up to the
  32-bit rollover of the seconds at 2038-01-19T03:14:08Z, \<^verbatim>\<open>int(t.timestamp() * 1000)\<close> is the number of whole
  milliseconds since the epoch, in spite of two floating-point roundings on the way. The upper bound is tight: two
  milliseconds after the rollover the result is one millisecond short.\<close>

theorem unix_ms_exact:
  assumes "dt_offset t \<noteq> None" "1100000000000000 \<le> epoch_us t" "epoch_us t < 2147483648000000"
  shows "unix_ms t = Inr (epoch_us t div 1000) \<and> unix_ms rollover = Inr (epoch_us rollover div 1000 - 1)"
  using unix_ms_window [OF assms] unix_ms_rollover by (simp add: epoch_us_rollover)

theorem unix_ms_exact_witness:
  "unix_ms (rollover\<lparr>dt_year := 2026\<rparr>) = Inr 1768792448002"
proof -
  have "epoch_us (rollover\<lparr>dt_year := 2026\<rparr>) = 1768792448002000"
    by (simp add: epoch_us_def rollover_def ymd2ord_def days_before_year_def days_before_month_def)
  then show ?thesis using unix_ms_exact [of "rollover\<lparr>dt_year := 2026\<rparr>"] by (simp add: rollover_def)
qed

end
