(* ===== verification/Grpc.thy ===== *)
theory Grpc
  imports Api UnixTime
begin

text \<open>
  \<^verbatim>\<open>grpc_transport/server.py\<close>: the servicer, over the same application state as the REST endpoints. Messages are records
  of the fields of \<^verbatim>\<open>core.proto\<close>. The protobuf runtime is a parameter where it computes something: \<open>message_to_dict\<close> is
  \<^verbatim>\<open>json_format.MessageToDict\<close> on a \<^verbatim>\<open>google.protobuf.Struct\<close>. \<^verbatim>\<open>context.abort\<close> raises \<open>GrpcAbort\<close>. All times of
  a \<^verbatim>\<open>datetime\<close> fit the \<^verbatim>\<open>int64\<close> fields.
\<close>

section \<open>Messages\<close>

record 'st grpc_update_request =
  gu_decision_id :: string
  gu_metric_name :: string
  gu_value :: bytes
  gu_idempotency_key :: string
  gu_evidence_refs :: "string list"
  gu_proposed_by :: string
  gu_runtime_context :: 'st

datatype grpc_update_status =
    STATUS_UNSPECIFIED | GRPC_ACCEPTED | GRPC_DUPLICATE_IGNORED | GRPC_REJECTED_MISSING_EVIDENCE

record grpc_update_response =
  gur_status :: grpc_update_status
  gur_leaf_hash :: string

datatype trust_score_status = TRUST_SCORE_STATUS_UNSPECIFIED | TRUST_INSUFFICIENT_DATA

record metric_entry =
  me_metric_name :: string
  me_value :: bytes
  me_evidence_refs :: "string list"
  me_committed_at_unix_ms :: int
  me_status :: string

text \<open>The \<^verbatim>\<open>oneof trust_score_result\<close> is a sum.\<close>

record grpc_scoreboard =
  gsb_decision_id :: string
  gsb_trust_score_result :: "pyfloat + trust_score_status"
  gsb_policy_verdict :: string
  gsb_metrics :: "metric_entry list"
  gsb_merkle_root_ref :: string
  gsb_rebuilt_at_unix_ms :: int
  gsb_merkle_timestamp_unix_ms :: int

datatype proto_position = POSITION_UNSPECIFIED | POSITION_LEFT | POSITION_RIGHT

record grpc_proof_node =
  gpn_hash :: bytes
  gpn_position :: proto_position

record grpc_merkle_proof =
  gmp_leaf_hash :: bytes
  gmp_proof_path :: "grpc_proof_node list"
  gmp_root :: bytes
  gmp_anchor_signature :: bytes
  gmp_anchor_timestamp_unix_ms :: int

section \<open>Methods\<close>

text \<open>\<^verbatim>\<open>status_map[result.status]\<close>.\<close>

fun status_map :: "update_metric_status \<Rightarrow> grpc_update_status" where
  "status_map ACCEPTED = GRPC_ACCEPTED"
| "status_map DUPLICATE_IGNORED = GRPC_DUPLICATE_IGNORED"
| "status_map REJECTED_MISSING_EVIDENCE = GRPC_REJECTED_MISSING_EVIDENCE"

definition grpc_command :: "('st \<Rightarrow> pyval) \<Rightarrow> 'st grpc_update_request \<Rightarrow> update_metric_command res" where
  "grpc_command message_to_dict request =
     rbind (if gu_value request = [] then Inr PNone else loads_utf8 (gu_value request)) (\<lambda>value.
       Inr \<lparr>um_decision_id = gu_decision_id request, um_metric_name = gu_metric_name request, um_value = value,
            um_idempotency_key = gu_idempotency_key request, um_evidence_refs = gu_evidence_refs request,
            um_proposed_by = gu_proposed_by request, um_runtime_context = message_to_dict (gu_runtime_context request)\<rparr>)"

definition UpdateMetric ::
    "('st \<Rightarrow> pyval) \<Rightarrow> datetime \<Rightarrow> string \<Rightarrow> app \<Rightarrow> 'st grpc_update_request \<Rightarrow> (app, grpc_update_response) sres" where
  "UpdateMetric message_to_dict now i s request =
     (case grpc_command message_to_dict request of
        Inl e \<Rightarrow> (s, Inl e)
      | Inr cmd \<Rightarrow>
          (case handle_update_metric memory_ops now i (ap_core s) cmd of
             (c, Inl e) \<Rightarrow> (s\<lparr>ap_core := c\<rparr>, Inl e)
           | (c, Inr result) \<Rightarrow>
               (s\<lparr>ap_core := c\<rparr>,
                Inr \<lparr>gur_status = status_map (ur_status result),
                     gur_leaf_hash = (case ur_leaf_hash result of Some h \<Rightarrow> h | None \<Rightarrow> '''')\<rparr>)))"

definition metric_entry_of :: "string \<times> scoreboard_metric_view \<Rightarrow> metric_entry res" where
  "metric_entry_of = (\<lambda>(name, m).
     rbind (unix_ms (sv_committed_at m)) (\<lambda>ms.
       Inr \<lparr>me_metric_name = name, me_value = dumps_utf8 (sv_value m), me_evidence_refs = sv_evidence_refs m,
            me_committed_at_unix_ms = ms, me_status = metric_status_value (sv_status m)\<rparr>))"

definition scoreboard_message :: "scoreboard_state \<Rightarrow> grpc_scoreboard res" where
  "scoreboard_message sb =
     rbind (unix_ms (sb_rebuilt_at sb)) (\<lambda>rebuilt.
     rbind (case sb_merkle_timestamp sb of Some t \<Rightarrow> unix_ms t | None \<Rightarrow> Inr 0) (\<lambda>anchored.
     rbind (rmap metric_entry_of (sb_metrics sb)) (\<lambda>entries.
       Inr \<lparr>gsb_decision_id = sb_decision_id sb,
            gsb_trust_score_result = (case sb_trust_score sb of None \<Rightarrow> Inr TRUST_INSUFFICIENT_DATA | Some x \<Rightarrow> Inl x),
            gsb_policy_verdict = policy_verdict_value (sb_policy_verdict sb), gsb_metrics = entries,
            gsb_merkle_root_ref = (case sb_merkle_root_ref sb of Some r \<Rightarrow> r | None \<Rightarrow> ''''),
            gsb_rebuilt_at_unix_ms = rebuilt, gsb_merkle_timestamp_unix_ms = anchored\<rparr>)))"

definition GetScoreboard :: "pydantic \<Rightarrow> datetime \<Rightarrow> datetime \<Rightarrow> app \<Rightarrow> string \<Rightarrow> (app, grpc_scoreboard) sres" where
  "GetScoreboard P now1 now2 s decision_id =
     sbind (app_rebuild P now1 now2 s decision_id (dict_get (ap_required s) decision_id []))
       (\<lambda>s sb. (s, scoreboard_message sb)) (\<lambda>s. s)"

definition grpc_node :: "pyval \<Rightarrow> grpc_proof_node res" where
  "grpc_node v = (case v of
     PDict node \<Rightarrow>
       rbind (getitem node ''position'') (\<lambda>pos.
       rbind (rbind (str_field node ''hash'') fromhex) (\<lambda>h.
         Inr \<lparr>gpn_hash = h, gpn_position = (if pos = PStr ''LEFT'' then POSITION_LEFT else POSITION_RIGHT)\<rparr>))
   | _ \<Rightarrow> Inl (IllTyped ''proof node''))"

definition proof_message :: "pydict \<Rightarrow> grpc_merkle_proof res" where
  "proof_message row =
     rbind (rbind (str_field row ''anchor_timestamp'') fromisoformat) (\<lambda>anchor_ts.
     rbind (rbind (str_field row ''leaf_hash'') fromhex) (\<lambda>leaf.
     rbind (rbind (str_field row ''root'') fromhex) (\<lambda>rt.
     rbind (rbind (str_field row ''anchor_signature'') fromhex) (\<lambda>sg.
     rbind (unix_ms anchor_ts) (\<lambda>ms.
     rbind (rbind (getitem row ''proof_path'')
              (\<lambda>v. case v of PList vs \<Rightarrow> rmap grpc_node vs | _ \<Rightarrow> Inl (IllTyped ''proof path''))) (\<lambda>nodes.
       Inr \<lparr>gmp_leaf_hash = leaf, gmp_proof_path = nodes, gmp_root = rt, gmp_anchor_signature = sg,
            gmp_anchor_timestamp_unix_ms = ms\<rparr>))))))"

text \<open>The query reads only; the application state stays as it is.\<close>

definition GetMerkleProof :: "app \<Rightarrow> string \<Rightarrow> string \<Rightarrow> grpc_merkle_proof res" where
  "GetMerkleProof s decision_id metric_name =
     rbind (memory_read_range (co_audit (ap_core s)) decision_id 0) (\<lambda>events.
       case first_commit metric_name events of
         None \<Rightarrow> Inl (GrpcAbort ''NOT_FOUND'' ''metric not committed'')
       | Some committed \<Rightarrow>
           rbind (str_field committed ''leaf_hash'') (\<lambda>h.
           rbind (memory_get (ap_store s) (''merkle_proof:'' @ h)) (\<lambda>row.
             case row of
               None \<Rightarrow> Inl (GrpcAbort ''NOT_FOUND'' ''leaf committed but not yet anchored'')
             | Some row \<Rightarrow> proof_message row)))"

end
