(* ===== verification/SystemRuns.thy ===== *)
theory SystemRuns
  imports Grpc
begin

text \<open>
  The service as a labelled transition system: REST and gRPC commands and queries, bus events, supersessions, timer ticks and the
  shutdown flush, in any order. The label of a step is the list of leaves it handed to the batch builder. The
  invariant is proved by rule induction over the runs; the theorems say what a run promises to its clients.
\<close>

section \<open>Steps and runs\<close>

text \<open>The leaves that a write-side call added to the open batch.\<close>

definition new_leaves :: "app \<Rightarrow> app \<Rightarrow> bytes list" where
  "new_leaves s t = drop (length (pending (co_merkle (ap_core s)))) (batch_leaves (co_merkle (ap_core t)))"

definition app_bus_event :: "string \<Rightarrow> datetime \<Rightarrow> string \<Rightarrow> string \<Rightarrow> pydict \<Rightarrow> app \<Rightarrow> app" where
  "app_bus_event topic now i j payload s = s\<lparr>ap_core := core_exec (ap_core s) (BusEvent topic now i j payload)\<rparr>"

definition app_supersede :: "datetime \<Rightarrow> string \<Rightarrow> string \<Rightarrow> string \<Rightarrow> string \<Rightarrow> string \<Rightarrow> string \<Rightarrow> app \<Rightarrow> app" where
  "app_supersede now i d m leaf ctx k s = s\<lparr>ap_core := core_exec (ap_core s) (Supersede now i d m leaf ctx k)\<rparr>"

text \<open>A gRPC request carries its runtime context as the dictionary that \<^verbatim>\<open>MessageToDict\<close> makes of it (\<open>update_any_struct\<close>
  below); the gRPC proof query does not change the state.\<close>

inductive app_step :: "pydantic \<Rightarrow> (bytes \<Rightarrow> bytes) \<Rightarrow> app \<Rightarrow> bytes list \<Rightarrow> app \<Rightarrow> bool" for P sign where
  post: "t = fst (post_metrics now i s body) \<Longrightarrow> app_step P sign s (new_leaves s t) t"
| bus: "t = app_bus_event topic now i j payload s \<Longrightarrow> app_step P sign s (new_leaves s t) t"
| supersede: "t = app_supersede now i d m leaf ctx k s \<Longrightarrow> app_step P sign s (new_leaves s t) t"
| tick: "utc tsa_now \<Longrightarrow> app_step P sign s [] (closer_tick sign auth now tsa_now uuid s)"
| flush: "utc tsa_now \<Longrightarrow> app_step P sign s [] (shutdown_flush sign auth tsa_now uuid s)"
| scoreboard: "app_step P sign s [] (fst (get_scoreboard P now1 now2 s d))"
| proof_query: "app_step P sign s [] (fst (get_merkle_proof P now1 now2 s d m))"
| grpc_update: "t = fst (UpdateMetric (\<lambda>ctx. ctx) now i s request) \<Longrightarrow> app_step P sign s (new_leaves s t) t"
| grpc_scoreboard: "app_step P sign s [] (fst (GetScoreboard P now1 now2 s d))"

inductive app_run :: "pydantic \<Rightarrow> (bytes \<Rightarrow> bytes) \<Rightarrow> app \<Rightarrow> bytes list \<Rightarrow> app \<Rightarrow> bool" for P sign where
  start: "app_run P sign s [] s"
| more: "app_run P sign s accepted t \<Longrightarrow> app_step P sign t ls u \<Longrightarrow> app_run P sign s (accepted @ ls) u"

inductive_cases app_stepE: "app_step P sign s ls t"

section \<open>Invariant\<close>

text \<open>Every row of the store is a scoreboard or a verifying proof row filed under its leaf, and the builder's clock is
  consistent.\<close>

definition app_inv :: "app \<Rightarrow> bool" where
  "app_inv s = (builder_ok (co_merkle (ap_core s)) \<and>
     (\<forall>k row. map_of (ap_store s) k = Some row \<longrightarrow>
        (\<exists>d. k = scoreboard_key d) \<or> (\<exists>leaf. k = proof_key leaf \<and> good_row leaf row)))"

text \<open>A leaf is taken care of: still waiting in the open batch, or provable from the store.\<close>

definition provable :: "app \<Rightarrow> bytes \<Rightarrow> bool" where
  "provable s leaf = (\<exists>row. map_of (ap_store s) (proof_key leaf) = Some row \<and> good_row leaf row)"

definition cared_for :: "app \<Rightarrow> bytes \<Rightarrow> bool" where
  "cared_for s leaf = (leaf \<in> set (batch_leaves (co_merkle (ap_core s))) \<or> provable s leaf)"

section \<open>The write side only extends the open batch\<close>

definition extends :: "'a core \<Rightarrow> 'a core \<Rightarrow> bool" where
  "extends c c' = (prefix (pending (co_merkle c)) (pending (co_merkle c')) \<and>
     (builder_ok (co_merkle c) \<longrightarrow> builder_ok (co_merkle c')))"

lemma extends_same: "co_merkle c' = co_merkle c \<Longrightarrow> extends c c'"
  by (simp add: extends_def)

lemma merkle_audit_append [simp]: "co_merkle (fst (audit_append ops i c d ty p k)) = co_merkle c"
  by (simp add: audit_append_def split: prod.splits)

lemma extends_sbind:
  assumes "extends c (fst m)" "\<And>c' x. extends c c' \<Longrightarrow> extends c (fst (f c' x))"
  shows "extends c (fst (sbind m f (\<lambda>c. c)))"
  using assms by (cases m) (auto simp: sbind_def split: sum.splits)

lemma extends_audit: "extends c c' \<Longrightarrow> extends c (fst (audit_append ops i c' d ty p k))"
  by (simp add: extends_def)

lemma extends_commit: "extends c c' \<Longrightarrow> extends c (fst (commit ops now i c' d m v refs k by))"
  unfolding commit_def Let_def
  by (rule extends_sbind)
     (auto simp: extends_audit extends_def builder_ok_add_leaf add_leaf_def [of _ _ _ _ "timestamp now"] prefix_def
       intro: builder_ok_add_leaf [unfolded add_leaf_def] split: sum.splits)

lemma extends_refl [simp]: "extends c c"
  by (simp add: extends_def)

lemma extends_update: "extends c (fst (handle_update_metric ops now i c cmd))"
  unfolding handle_update_metric_def by (auto intro!: extends_sbind extends_audit extends_commit)

lemma extends_staging [simp]: "extends c (c\<lparr>co_staging := st\<rparr>)"
  by (simp add: extends_same)

lemma extends_stage: "extends c (fst (stage_and_append ops i c ty f p))"
  unfolding stage_and_append_def Let_def
  by (auto intro!: extends_sbind extends_audit split: sum.splits)

lemma extends_under: "extends c (fst (append_under ops i c d ty p))"
  unfolding append_under_def by (auto intro!: extends_audit split: sum.splits)

lemma extends_reconciled: "extends c (fst (on_reconciled_decision ops now i j c p))"
  unfolding on_reconciled_decision_def Let_def
  by (rule extends_sbind [OF extends_stage]) (auto intro!: extends_audit extends_commit split: sum.splits)

lemma extends_route:
  assumes "map_of (event_routes ops now i j) topic = Some h"
  shows "extends c (fst (h c p))"
proof -
  have "h \<in> snd ` set (event_routes ops now i j)" using map_of_SomeD [OF assms] by force
  then show ?thesis
    by (auto simp: event_routes_def on_metric_proposed_def on_debate_outcome_def on_risk_signal_def
        on_evidence_attached_def on_goal_created_def on_goal_cancelled_def on_runtime_artifact_deployed_def
        on_runtime_config_updated_def extends_stage extends_under extends_reconciled)
qed

lemma extends_exec: "extends c (core_exec c x)"
  by (cases x) (auto simp: extends_update supersede_metric_def extends_audit intro: extends_route split: option.splits)

section \<open>Every step keeps the invariant and loses no leaf\<close>

text \<open>What a step may do, in the terms the invariant speaks about.\<close>

definition careful :: "app \<Rightarrow> bytes list \<Rightarrow> app \<Rightarrow> bool" where
  "careful s ls t = (app_inv s \<longrightarrow> app_inv t \<and> (\<forall>leaf. cared_for s leaf \<or> leaf \<in> set ls \<longrightarrow> cared_for t leaf))"

lemma careful_write:
  assumes "extends (ap_core s) c'"
  shows "careful s (new_leaves s (s\<lparr>ap_core := c'\<rparr>)) (s\<lparr>ap_core := c'\<rparr>)"
proof -
  obtain ps where "pending (co_merkle c') = pending (co_merkle (ap_core s)) @ ps"
    using assms by (auto simp: extends_def prefix_def)
  then have "batch_leaves (co_merkle c') = batch_leaves (co_merkle (ap_core s)) @ map pl_leaf_hash ps"
    "new_leaves s (s\<lparr>ap_core := c'\<rparr>) = map pl_leaf_hash ps"
    by (simp_all add: batch_leaves_def new_leaves_def)
  then show ?thesis using assms
    by (auto simp: careful_def app_inv_def cared_for_def provable_def extends_def)
qed

lemma careful_post: "careful s (new_leaves s (fst (post_metrics now i s body))) (fst (post_metrics now i s body))"
proof (cases "validate_update body")
  case True
  have "fst (post_metrics now i s body) = s\<lparr>ap_core := fst (handle_update_metric memory_ops now i (ap_core s) (to_command body))\<rparr>"
    using True by (auto simp: post_metrics_eq split: prod.splits sum.splits)
  then show ?thesis using careful_write [OF extends_update] by simp
next
  case False
  then show ?thesis by (auto simp: post_metrics_eq careful_def new_leaves_def batch_leaves_def)
qed

lemma update_any_struct:
  "UpdateMetric message_to_dict now i s request =
   UpdateMetric (\<lambda>ctx. ctx) now i s \<lparr>gu_decision_id = gu_decision_id request, gu_metric_name = gu_metric_name request,
     gu_value = gu_value request, gu_idempotency_key = gu_idempotency_key request, gu_evidence_refs = gu_evidence_refs request,
     gu_proposed_by = gu_proposed_by request, gu_runtime_context = message_to_dict (gu_runtime_context request)\<rparr>"
  by (simp add: UpdateMetric_def grpc_command_def)

lemma careful_grpc_update:
  "careful s (new_leaves s (fst (UpdateMetric mtd now i s request))) (fst (UpdateMetric mtd now i s request))"
proof (cases "grpc_command mtd request")
  case (Inr cmd)
  have "fst (UpdateMetric mtd now i s request) = s\<lparr>ap_core := fst (handle_update_metric memory_ops now i (ap_core s) cmd)\<rparr>"
    by (auto simp: UpdateMetric_def Inr split: prod.splits sum.splits)
  then show ?thesis using careful_write [OF extends_update] by simp
next
  case (Inl e)
  then show ?thesis by (simp add: UpdateMetric_def careful_def new_leaves_def batch_leaves_def)
qed

lemma careful_rebuild: "careful s [] (fst (app_rebuild P now1 now2 s d req))"
  by (auto simp: scoreboard_key_not_proof [symmetric] app_rebuild_def memory_rebuild careful_def app_inv_def cared_for_def
      provable_def map_of_AList_update split: sum.splits if_splits)

lemma fst_sbind_same: "(\<And>s x. fst (f s x) = s) \<Longrightarrow> fst (sbind m f (\<lambda>s. s)) = fst m"
  by (cases m) (auto simp: sbind_def split: sum.splits)

lemma careful_scoreboard: "careful s [] (fst (get_scoreboard P now1 now2 s d))"
  unfolding get_scoreboard_def by (subst fst_sbind_same) (auto simp: careful_rebuild)

lemma careful_grpc_scoreboard: "careful s [] (fst (GetScoreboard P now1 now2 s d))"
  unfolding GetScoreboard_def by (subst fst_sbind_same) (auto simp: careful_rebuild)

lemma careful_proof_query: "careful s [] (fst (get_merkle_proof P now1 now2 s d m))"
  unfolding get_merkle_proof_def by (subst fst_sbind_same) (auto simp: careful_rebuild)

lemma an_builder_of [simp]: "an_builder (anchor_of s) = co_merkle (ap_core s)"
  by (simp add: anchor_of_def)

lemma an_store_of [simp]: "an_store (anchor_of s) = ap_store s"
  by (simp add: anchor_of_def)

lemma put_anchor_id: "put_anchor s (anchor_of s) = s"
  by (simp add: put_anchor_def anchor_of_def)

lemma careful_close:
  assumes "pending (co_merkle (ap_core s)) \<noteq> []" "utc t" "\<forall>g. timestamp_iso (f g) = isoformat_ms t"
  shows "careful s [] (put_anchor s (fst (close_and_anchor memory_ops memory_store_ops sign (\<lambda>g. Inr (f g)) uuid (anchor_of s))))"
    and "app_inv s \<Longrightarrow> cared_for s leaf \<Longrightarrow>
      provable (put_anchor s (fst (close_and_anchor memory_ops memory_store_ops sign (\<lambda>g. Inr (f g)) uuid (anchor_of s)))) leaf"
proof -
  have p: "pending (an_builder (anchor_of s)) \<noteq> []" using assms(1) by simp
  let ?ls = "set (batch_leaves (co_merkle (ap_core s)))"
  obtain n where n: "close_and_anchor memory_ops memory_store_ops sign (\<lambda>g. Inr (f g)) uuid (anchor_of s) = (n, Inr (uuid 0))"
    "builder_ok (an_builder n)"
    "\<forall>leaf \<in> ?ls. \<exists>row. map_of (an_store n) (proof_key leaf) = Some row \<and> good_row leaf row"
    "\<forall>k. k \<notin> proof_key ` ?ls \<longrightarrow> map_of (an_store n) k = map_of (ap_store s) k"
    using memory_anchor_rows [OF p assms(2,3), of sign uuid] by auto
  have row: "(\<exists>d. k = scoreboard_key d) \<or> (\<exists>leaf. k = proof_key leaf \<and> good_row leaf row)"
    if "app_inv s" "map_of (an_store n) k = Some row" for k row
  proof (cases "k \<in> proof_key ` ?ls")
    case True
    then show ?thesis using n(3) that(2) by force
  next
    case False
    with n(4) that show ?thesis by (simp add: app_inv_def)
  qed
  have prov: "\<exists>row. map_of (an_store n) (proof_key leaf) = Some row \<and> good_row leaf row" if "cared_for s leaf" for leaf
  proof (cases "leaf \<in> ?ls")
    case True
    with n(3) show ?thesis by blast
  next
    case False
    then have "proof_key leaf \<notin> proof_key ` ?ls" using proof_key_inj by blast
    with n(4) that False show ?thesis by (simp add: cared_for_def provable_def)
  qed
  show "careful s [] (put_anchor s (fst (close_and_anchor memory_ops memory_store_ops sign (\<lambda>g. Inr (f g)) uuid (anchor_of s))))"
    using row prov n(1,2) by (simp add: careful_def app_inv_def cared_for_def provable_def put_anchor_def)
  show "app_inv s \<Longrightarrow> cared_for s leaf \<Longrightarrow>
      provable (put_anchor s (fst (close_and_anchor memory_ops memory_store_ops sign (\<lambda>g. Inr (f g)) uuid (anchor_of s)))) leaf"
    using prov n(1) by (simp add: provable_def put_anchor_def)
qed

lemma fst_some_result [simp]: "fst (some_result m) = fst m"
  unfolding some_result_def by (rule fst_sbind_same) simp

lemma careful_refl: "careful s [] s"
  by (simp add: careful_def)

lemma memory_tsa_iso: "timestamp_iso (memory_tsa_timestamp auth now g) = isoformat_ms now"
  by (simp add: memory_tsa_timestamp_def Let_def)

lemma careful_tick: "utc tsa_now \<Longrightarrow> careful s [] (closer_tick sign auth now tsa_now uuid s)"
  using careful_close(1) [of s tsa_now "memory_tsa_timestamp auth tsa_now" sign uuid]
  by (auto simp: closer_tick_def maybe_close_and_anchor_def put_anchor_id careful_refl should_close_def memory_tsa_iso
      split: if_splits)

lemma careful_flush: "utc tsa_now \<Longrightarrow> careful s [] (shutdown_flush sign auth tsa_now uuid s)"
  using careful_close(1) [of s tsa_now "memory_tsa_timestamp auth tsa_now" sign uuid]
  by (auto simp: shutdown_flush_def force_close_def put_anchor_id careful_refl has_pending_def memory_tsa_iso)

lemma careful_step: "app_step P sign s ls t \<Longrightarrow> careful s ls t"
  by (cases rule: app_step.cases)
     (auto simp: careful_post careful_grpc_update careful_tick careful_flush careful_scoreboard careful_grpc_scoreboard careful_proof_query
       app_bus_event_def app_supersede_def intro!: careful_write extends_exec simp del: core_exec.simps)

lemma run_invariant:
  "app_run P sign s accepted t \<Longrightarrow> app_inv s \<Longrightarrow> app_inv t \<and> (\<forall>leaf. cared_for s leaf \<or> leaf \<in> set accepted \<longrightarrow> cared_for t leaf)"
proof (induction rule: app_run.induct)
  case (more s accepted t ls u)
  then show ?case using careful_step [OF more.hyps(2)] by (auto simp: careful_def)
qed simp

lemma app_inv_new: "app_inv (new_app n t req)"
  by (simp add: app_inv_def new_app_def new_core_def builder_ok_new)

lemma flush_provable:
  assumes "app_inv s" "cared_for s leaf" "utc tsa_now"
  shows "provable (shutdown_flush sign auth tsa_now uuid s) leaf"
proof (cases "pending (co_merkle (ap_core s)) = []")
  case True
  with assms show ?thesis
    by (simp add: shutdown_flush_def force_close_def has_pending_def put_anchor_id cared_for_def batch_leaves_def)
next
  case False
  from careful_close(2) [OF False assms(3) _ assms(1,2), of "memory_tsa_timestamp auth tsa_now" sign uuid] False show ?thesis
    by (simp add: shutdown_flush_def force_close_def has_pending_def memory_tsa_iso)
qed

section \<open>Reading a proof response\<close>

text \<open>What a client checks offline: decode the response and climb to the root.\<close>

definition decode_node :: "proof_node_out \<Rightarrow> proof_step res" where
  "decode_node n = rbind (fromhex (pn_hash n)) (\<lambda>h. Inr \<lparr>sibling_hash = h, position = pn_position n\<rparr>)"

definition response_verifies :: "get_merkle_proof_response \<Rightarrow> bool" where
  "response_verifies r =
     (case rbind (fromhex (gm_leaf_hash r)) (\<lambda>leaf. rbind (rmap decode_node (gm_proof_path r)) (\<lambda>steps.
           rbind (fromhex (gm_root r)) (\<lambda>rt. Inr (leaf, steps, rt)))) of
        Inr (leaf, steps, rt) \<Rightarrow> verify_inclusion_proof leaf steps rt
      | Inl _ \<Rightarrow> False)"

lemma proof_response_row:
  assumes "valid_steps leaf steps rt" "utc t" "timestamp_iso tok = isoformat_ms t" "pydantic_ok P"
  shows "proof_response P (proof_row leaf steps rt sg tok b) =
    Inr \<lparr>gm_leaf_hash = to_hex leaf,
         gm_proof_path = map (\<lambda>s. \<lparr>pn_hash = to_hex (sibling_hash s), pn_position = position s\<rparr>) steps,
         gm_root = to_hex rt, gm_anchor_signature = to_hex sg,
         gm_anchor_timestamp = t\<lparr>dt_micro := dt_micro t div 1000 * 1000\<rparr>\<rparr>"
proof -
  have "rmap (node_out P) (map (\<lambda>s. PDict [(''hash'', PStr (to_hex (sibling_hash s))), (''position'', PStr (position s))]) steps) =
      Inr (map (\<lambda>s. \<lparr>pn_hash = to_hex (sibling_hash s), pn_position = position s\<rparr>) steps)"
    using assms(1) [unfolded valid_steps_def, THEN conjunct2]
    by (induction steps) (auto simp: node_out_def getitem_def pydantic_okD(2) [OF assms(4)])
  moreover have "v_datetime P (PStr (timestamp_iso tok)) = Some (t\<lparr>dt_micro := dt_micro t div 1000 * 1000\<rparr>)"
    using assms(2-4) by (simp add: utc_def pydantic_ok_def)
  ultimately show ?thesis
    by (simp add: proof_response_def proof_row_def getitem_def pydantic_okD(2) [OF assms(4)])
qed

lemma proof_response_good:
  assumes "good_row leaf row" "pydantic_ok P"
  shows "\<exists>r. proof_response P row = Inr r \<and> gm_leaf_hash r = to_hex leaf \<and> response_verifies r"
proof -
  obtain steps rt sg tok b t where row: "row = proof_row leaf steps rt sg tok b" "valid_steps leaf steps rt"
      "utc t" "timestamp_iso tok = isoformat_ms t"
    using assms(1) by (auto simp: good_row_def)
  have "rmap decode_node (map (\<lambda>s. \<lparr>pn_hash = to_hex (sibling_hash s), pn_position = position s\<rparr>) steps) = Inr steps"
    by (induction steps) (simp_all add: decode_node_def)
  with row(2) show ?thesis
    by (simp add: row(1) proof_response_row [OF row(2-4) assms(2)] response_verifies_def valid_steps_def)
qed

lemma proof_key_append: "''merkle_proof:'' @ to_hex l = proof_key l"
  by (simp add: proof_key_def)

lemma inv_proof_row:
  assumes "app_inv s" "map_of (ap_store s) (''merkle_proof:'' @ h) = Some row"
  shows "\<exists>leaf. h = to_hex leaf \<and> good_row leaf row"
proof -
  have "(\<exists>d. ''merkle_proof:'' @ h = scoreboard_key d) \<or> (\<exists>leaf. ''merkle_proof:'' @ h = proof_key leaf \<and> good_row leaf row)"
    using assms unfolding app_inv_def by blast
  then show ?thesis by (auto simp: scoreboard_key_def proof_key_def)
qed

text \<open>The query, step by step, in a state that satisfies the invariant.\<close>

lemma get_merkle_proof_result:
  assumes "get_merkle_proof P now1 now2 s d m = (s', Inr r)" "app_inv s" "pydantic_ok P"
  obtains c leaf where "first_commit m (memory_stream (co_audit (ap_core s)) d) = Some c"
    "map_of c ''leaf_hash'' = Some (PStr (to_hex leaf))" "gm_leaf_hash r = to_hex leaf" "response_verifies r"
    "\<And>row. map_of (ap_store s) (''merkle_proof:'' @ to_hex leaf) = Some row \<Longrightarrow> proof_response P row = Inr r"
    "map_of (ap_store s) (''merkle_proof:'' @ to_hex leaf) \<noteq> None"
proof -
  obtain s1 sb where s1: "app_rebuild P now1 now2 s d (dict_get (ap_required s) d [m]) = (s1, Inr sb)"
    using assms(1) by (cases "app_rebuild P now1 now2 s d (dict_get (ap_required s) d [m])")
      (auto simp: get_merkle_proof_def sbind_def split: sum.splits)
  have core: "ap_core s1 = ap_core s" using s1 by (auto simp: app_rebuild_def split: prod.splits)
  have inv: "app_inv s1" using careful_rebuild [of s P now1 now2 d "dict_get (ap_required s) d [m]"] assms(2) s1
    by (simp add: careful_def)
  obtain c h row where c: "first_commit m (memory_stream (co_audit (ap_core s)) d) = Some c"
      "map_of c ''leaf_hash'' = Some (PStr h)" "map_of (ap_store s1) (''merkle_proof:'' @ h) = Some row" "proof_response P row = Inr r"
    using assms(1) s1
    by (auto simp: get_merkle_proof_def core memory_read_stream rbind_eq_Inr str_arg_def memory_get_def
        split: if_splits option.splits pyval.splits)
  from inv_proof_row [OF inv c(3)] obtain leaf where leaf: "h = to_hex leaf" "good_row leaf row" by blast
  have "map_of (ap_store s1) (proof_key leaf) = map_of (ap_store s) (proof_key leaf)"
    using s1 by (auto simp: scoreboard_key_not_proof [symmetric] app_rebuild_def memory_rebuild map_of_AList_update
        split: prod.splits sum.splits if_splits)
  then have "map_of (ap_store s) (''merkle_proof:'' @ to_hex leaf) = Some row" using c(3) leaf(1) by (simp only: proof_key_append)
  moreover from proof_response_good [OF leaf(2) assms(3)] c(4) have "gm_leaf_hash r = to_hex leaf" "response_verifies r" by auto
  ultimately show ?thesis using that [of c leaf] c(1,2,4) leaf(1) by simp
qed

section \<open>Properties\<close>

text \<open>C1: no accepted leaf is ever lost. In every run of the service from its start, whatever requests, bus events,
  failures of single handlers, queries and ticks it consists of, each leaf that was accepted on the way is either still
  in the open batch or has a stored proof that verifies; and after the flush at shutdown every one of them has.\<close>

theorem accepted_leaves_never_lost:
  assumes "app_run P sign (new_app n t req) accepted s" "leaf \<in> set accepted" "utc tsa_now"
  shows "(leaf \<in> pl_leaf_hash ` set (pending (co_merkle (ap_core s))) \<or>
      (\<exists>row. map_of (ap_store s) (proof_key leaf) = Some row \<and> row_verifies leaf row)) \<and>
    (\<exists>row. map_of (ap_store (shutdown_flush sign auth tsa_now uuid s)) (proof_key leaf) = Some row \<and> row_verifies leaf row)"
proof -
  from run_invariant [OF assms(1) app_inv_new] assms(2) have inv: "app_inv s" and care: "cared_for s leaf" by auto
  from flush_provable [OF inv care assms(3)] care good_row_verifies show ?thesis
    by (auto simp: cared_for_def provable_def batch_leaves_def) blast+
qed

lemma one_post_run:
  "app_run P sign s ([] @ new_leaves s (fst (post_metrics now i s body))) (fst (post_metrics now i s body))"
  by (rule app_run.more [OF app_run.start app_step.post]) (rule HOL.refl)

definition sample_body :: update_metric_request where
  "sample_body = \<lparr>rq_decision_id = ''d'', rq_metric_name = ''m'', rq_value = PInt 1, rq_idempotency_key = ''0123456789abcdef'',
     rq_evidence_refs = [''e''], rq_proposed_by = ''u'', rq_runtime_context = PNone\<rparr>"

lemma fresh_post:
  assumes "validate_update body" "memory_keys (co_audit (ap_core s)) (rq_idempotency_key body) = None"
    and "leaf = commit_leaf now (rq_decision_id body) (rq_metric_name body) (rq_value body) (rq_evidence_refs body) (rq_idempotency_key body)"
  shows "\<exists>c'. post_metrics now i s body = (s\<lparr>ap_core := c'\<rparr>, Inr (202, ''ACCEPTED'')) \<and>
    co_merkle c' = add_leaf (co_merkle (ap_core s)) leaf i (rq_decision_id body) (timestamp now) \<and>
    memory_stream (co_audit c') = (memory_stream (co_audit (ap_core s)))(rq_decision_id body :=
      memory_stream (co_audit (ap_core s)) (rq_decision_id body) @
      [memory_record i ''MetricCommitted'' (rq_decision_id body) (committed_payload (rq_decision_id body) (rq_metric_name body)
         (rq_value body) (rq_evidence_refs body) (rq_idempotency_key body) (to_hex leaf) (isoformat_ms now) (PStr (rq_proposed_by body)))])"
proof -
  have "rq_evidence_refs body \<noteq> []" using assms(1) by (auto simp: validate_update_def)
  with memory_commit_fresh [OF assms(2), of now i "rq_decision_id body" "rq_metric_name body" "rq_value body"
      "rq_evidence_refs body" "PStr (rq_proposed_by body)"] assms(1,3)
  show ?thesis by (auto simp: post_metrics_eq handle_update_metric_def to_command_def)
qed

lemma sample_fresh:
  "validate_update sample_body" "memory_keys (co_audit (ap_core (new_app n t req))) k = None"
  by (simp_all add: validate_update_def sample_body_def new_app_def new_core_def new_memory_audit_def memory_keys_def)

lemma sample_leaf:
  "new_leaves (new_app n t req) (fst (post_metrics epoch ''e1'' (new_app n t req) sample_body)) =
     [commit_leaf epoch ''d'' ''m'' (PInt 1) [''e''] ''0123456789abcdef'']"
  using fresh_post [OF sample_fresh(1) sample_fresh(2) HOL.refl, of epoch "''e1''" n t req]
  by (auto simp: new_leaves_def batch_leaves_def add_leaf_def new_app_def new_core_def new_builder_def sample_body_def)

lemma utc_epoch: "utc epoch"
  by (simp add: utc_def)

theorem accepted_leaves_never_lost_witness:
  "\<exists>row. map_of (ap_store (shutdown_flush rev ''t'' epoch (\<lambda>n. ''u'') (fst (post_metrics epoch ''e1'' (new_app 10 (Fin 5) []) sample_body))))
     (proof_key (commit_leaf epoch ''d'' ''m'' (PInt 1) [''e''] ''0123456789abcdef'')) = Some row \<and>
   row_verifies (commit_leaf epoch ''d'' ''m'' (PInt 1) [''e''] ''0123456789abcdef'') row"
  using accepted_leaves_never_lost [OF one_post_run [of strict_pydantic rev "new_app 10 (Fin 5) []" epoch "''e1''" sample_body]
      _ utc_epoch, of "commit_leaf epoch ''d'' ''m'' (PInt 1) [''e''] ''0123456789abcdef''" "''t''" "\<lambda>n. ''u''"]
  by (simp add: sample_leaf)

text \<open>The state between a first commit for a decision and the flush, as the queries see it.\<close>

lemma flushed_stream:
  assumes "pending (co_merkle (ap_core s)) \<noteq> []"
  shows "\<exists>is n rt sg bid. memory_stream (co_audit (ap_core (shutdown_flush sign auth tsa_now uuid s))) d =
    memory_stream (co_audit (ap_core s)) d @
    map (\<lambda>i. memory_record i ''MerkleRootPublished'' d (root_payload bid rt n sg (memory_tsa_timestamp auth tsa_now rt))) is"
proof -
  obtain "is" rt sg where "memory_stream (an_audit (fst (close_and_anchor memory_ops memory_store_ops sign
      (\<lambda>g. Inr (memory_tsa_timestamp auth tsa_now g)) uuid (anchor_of s)))) d =
    memory_stream (an_audit (anchor_of s)) d @ map (\<lambda>i. memory_record i ''MerkleRootPublished'' d
      (root_payload (uuid 0) rt (length (pending (co_merkle (ap_core s)))) sg (memory_tsa_timestamp auth tsa_now rt))) is"
    using memory_anchor_streams [of "anchor_of s" sign "memory_tsa_timestamp auth tsa_now" uuid d] assms by auto
  moreover have "an_audit (anchor_of s) = co_audit (ap_core s)" by (simp add: anchor_of_def)
  ultimately show ?thesis using assms
    by (intro exI [of _ "is"] exI [of _ "length (pending (co_merkle (ap_core s)))"] exI [of _ rt] exI [of _ sg] exI [of _ "uuid 0"])
       (simp add: shutdown_flush_def force_close_def has_pending_def put_anchor_def)
qed

lemma app_rebuild_eq:
  "build_state P t1 t2 d req (memory_stream (co_audit (ap_core s)) d) = Inr sb \<Longrightarrow>
   app_rebuild P t1 t2 s d req = (s\<lparr>ap_store := AList.update (scoreboard_key d) (dump_scoreboard P sb) (ap_store s)\<rparr>, Inr sb)"
  by (simp add: app_rebuild_def memory_rebuild)

lemma get_merkle_proof_served:
  assumes "app_inv s" "provable s leaf" "pydantic_ok P"
    and "build_state P t1 t2 d (dict_get (ap_required s) d [m]) (memory_stream (co_audit (ap_core s)) d) = Inr sb"
    and "map_of (sb_metrics sb) m \<noteq> None"
    and "first_commit m (memory_stream (co_audit (ap_core s)) d) = Some c" "map_of c ''leaf_hash'' = Some (PStr (to_hex leaf))"
  shows "\<exists>s' r. get_merkle_proof P t1 t2 s d m = (s', Inr r) \<and> gm_leaf_hash r = to_hex leaf \<and> response_verifies r"
proof -
  obtain row where row: "map_of (ap_store s) (proof_key leaf) = Some row" "good_row leaf row"
    using assms(2) by (auto simp: provable_def)
  from proof_response_good [OF row(2) assms(3)] obtain r where
    r: "proof_response P row = Inr r" "gm_leaf_hash r = to_hex leaf" "response_verifies r" by blast
  have "map_of (AList.update (scoreboard_key d) (dump_scoreboard P sb) (ap_store s)) (''merkle_proof:'' @ to_hex leaf) = Some row"
    unfolding proof_key_append using row(1) by (simp add: map_of_AList_update scoreboard_key_not_proof [symmetric])
  then show ?thesis using app_rebuild_eq [OF assms(4)] assms(5-7) r
    by (auto simp: get_merkle_proof_def memory_read_stream str_arg_def memory_get_def)
qed

lemma post_flush_served:
  assumes "app_inv s" "pydantic_ok P" "utc now" "utc tsa_now"
    and "validate_update body" "map_of (ma_idempotency_index (co_audit (ap_core s))) (rq_idempotency_key body) = None"
    and "memory_stream (co_audit (ap_core s)) (rq_decision_id body) = []"
    and "\<forall>x. rq_value body = PInt x \<longrightarrow> \<bar>x\<bar> \<le> 2 ^ 53"
  shows "\<exists>s1 s2 s3 r sb. post_metrics now i s body = (s1, Inr (202, ''ACCEPTED'')) \<and>
    shutdown_flush sign auth tsa_now uuid s1 = s2 \<and>
    get_merkle_proof P t1 t2 s2 (rq_decision_id body) (rq_metric_name body) = (s3, Inr r) \<and>
    gm_leaf_hash r = to_hex (compute_leaf_hash (rq_decision_id body) (rq_metric_name body) (rq_value body) (isoformat_ms now)
      (rq_evidence_refs body) (rq_idempotency_key body)) \<and>
    response_verifies r \<and>
    snd (get_scoreboard P t1 t2 s2 (rq_decision_id body)) = Inr sb \<and>
    map_option so_value (map_of (gs_metrics sb) (rq_metric_name body)) = Some (rq_value body)"
proof -
  let ?d = "rq_decision_id body" and ?m = "rq_metric_name body"
  define leaf where "leaf = commit_leaf now ?d ?m (rq_value body) (rq_evidence_refs body) (rq_idempotency_key body)"
  define cev where "cev = memory_record i ''MetricCommitted'' ?d (committed_payload ?d ?m (rq_value body) (rq_evidence_refs body)
      (rq_idempotency_key body) (to_hex leaf) (isoformat_ms now) (PStr (rq_proposed_by body)))"
  from fresh_post [OF assms(5) _ leaf_def, of s i] assms(6,7) obtain c' where
    c': "post_metrics now i s body = (s\<lparr>ap_core := c'\<rparr>, Inr (202, ''ACCEPTED''))"
      "co_merkle c' = add_leaf (co_merkle (ap_core s)) leaf i ?d (timestamp now)" "memory_stream (co_audit c') ?d = [cev]"
    by (auto simp: memory_keys_def cev_def)
  let ?s1 = "s\<lparr>ap_core := c'\<rparr>"
  have pend: "pending (co_merkle (ap_core ?s1)) \<noteq> []" "cared_for ?s1 leaf"
    using c'(2) by (simp_all add: add_leaf_def cared_for_def batch_leaves_def)
  let ?s2 = "shutdown_flush sign auth tsa_now uuid ?s1"
  have inv1: "app_inv ?s1"
    using careful_post [of s now i body] assms(1) c'(1) by (simp add: careful_def)
  have inv2: "app_inv ?s2" using careful_flush [OF assms(4), of ?s1 sign auth uuid] inv1 by (simp add: careful_def)
  have prov: "provable ?s2 leaf" by (rule flush_provable [OF inv1 pend(2) assms(4)])
  obtain "is" n' rt sg bid where st: "memory_stream (co_audit (ap_core ?s2)) ?d = cev # map (\<lambda>i. memory_record i ''MerkleRootPublished'' ?d
      (root_payload bid rt n' sg (memory_tsa_timestamp auth tsa_now rt))) is"
    using flushed_stream [OF pend(1), of sign auth tsa_now uuid ?d] c'(3) by auto
  have built: "\<exists>sb. build_state P t1 t2 ?d rq (memory_stream (co_audit (ap_core ?s2)) ?d) = Inr sb \<and>
      sb_metrics sb = [(?m, \<lparr>sv_value = rq_value body, sv_evidence_refs = sorted_set (rq_evidence_refs body),
        sv_committed_at = now\<lparr>dt_micro := dt_micro now div 1000 * 1000\<rparr>, sv_status = MS_COMMITTED\<rparr>)]" for rq
    unfolding st cev_def
    using build_state_anchored [OF assms(2,3) _ assms(4) memory_tsa_iso assms(8), of leaf t1 t2 ?d rq i ?m "rq_evidence_refs body"
        "rq_idempotency_key body" "rq_proposed_by body" bid rt n' sg auth rt "is"] by (auto simp: leaf_def)
  have first: "first_commit ?m (memory_stream (co_audit (ap_core ?s2)) ?d) = Some cev" "map_of cev ''leaf_hash'' = Some (PStr (to_hex leaf))"
    unfolding st by (simp_all add: first_commit_def cev_def committed_event has_type_def dict_get_def)
  obtain s3 r where r: "get_merkle_proof P t1 t2 ?s2 ?d ?m = (s3, Inr r)" "gm_leaf_hash r = to_hex leaf" "response_verifies r"
    using built [of "dict_get (ap_required ?s2) ?d [?m]"] get_merkle_proof_served [OF inv2 prov assms(2) _ _ first] by fastforce
  obtain sb where "snd (get_scoreboard P t1 t2 ?s2 ?d) = Inr sb" "map_option so_value (map_of (gs_metrics sb) ?m) = Some (rq_value body)"
    using built [of "dict_get (ap_required ?s2) ?d []"] app_rebuild_eq [of P t1 t2 ?d "dict_get (ap_required ?s2) ?d []" ?s2]
    by (fastforce simp: get_scoreboard_def metric_out_def)
  with r c'(1) show ?thesis unfolding leaf_def commit_leaf_def by blast
qed

text \<open>A run that serves a proof: post, flush, query.\<close>

lemma sample_served:
  "\<exists>s1 s2 s' r. app_run strict_pydantic sign (new_app 10 (Fin 5) []) s1 s2 \<and>
     get_merkle_proof strict_pydantic epoch epoch s2 ''d'' ''m'' = (s', Inr r)"
proof -
  let ?s = "new_app 10 (Fin 5) []"
  obtain s' r where r: "get_merkle_proof strict_pydantic epoch epoch
      (shutdown_flush sign ''t'' epoch (\<lambda>n. ''u'') (fst (post_metrics epoch ''e1'' ?s sample_body))) ''d'' ''m'' = (s', Inr r)"
    using post_flush_served [OF app_inv_new strict_pydantic_ok utc_epoch utc_epoch sample_fresh(1), of 10 "Fin 5" "[]" "''e1''" sign "''t''" "\<lambda>n. ''u''" epoch epoch]
    by (auto simp: sample_body_def new_app_def new_core_def new_memory_audit_def memory_stream_def dict_get_def)
  with app_run.more [OF one_post_run [of strict_pydantic sign ?s epoch "''e1''" sample_body]
      app_step.flush [OF utc_epoch, of _ _ _ "''t''" "\<lambda>n. ''u''"]] show ?thesis by blast
qed

text \<open>C3: every served proof is right. In every reachable state, when \<^verbatim>\<open>GET /v1/merkle-proof\<close> answers with a proof, the
  hexadecimal text of the answer decodes to an inclusion proof that verifies, for the very leaf that the first commit
  of the metric in the decision's stream recorded.\<close>

theorem served_proofs_verify:
  assumes "app_run P sign (new_app n t req) accepted s" "pydantic_ok P"
    and "get_merkle_proof P now1 now2 s d m = (s', Inr r)"
  shows "response_verifies r \<and>
    (\<exists>c. first_commit m (memory_stream (co_audit (ap_core s)) d) = Some c \<and>
         map_of c ''leaf_hash'' = Some (PStr (gm_leaf_hash r)))"
proof -
  have "app_inv s" using run_invariant [OF assms(1) app_inv_new] by blast
  from get_merkle_proof_result [OF assms(3) this assms(2)] show ?thesis by metis
qed

theorem served_proofs_verify_witness:
  "\<exists>s1 s2 s' r. app_run strict_pydantic rev (new_app 10 (Fin 5) []) s1 s2 \<and>
     get_merkle_proof strict_pydantic epoch epoch s2 ''d'' ''m'' = (s', Inr r) \<and> response_verifies r"
proof -
  obtain s1 s2 s' r where "app_run strict_pydantic rev (new_app 10 (Fin 5) []) s1 s2"
    "get_merkle_proof strict_pydantic epoch epoch s2 ''d'' ''m'' = (s', Inr r)" using sample_served by blast
  with served_proofs_verify [OF this(1) strict_pydantic_ok this(2)] show ?thesis by blast
qed

text \<open>C4: from the command to the proof. In any reachable state, the first metric of a decision, posted with a fresh
  key, is accepted; after the flush the proof query for it succeeds with a verifying proof of the leaf that was
  computed from the posted data, and the scoreboard shows the posted value. (An integer value beyond 2^53 is
  excluded: the policy evaluation may raise on it.)\<close>

theorem post_flush_prove:
  assumes "app_run P sign (new_app n t req) accepted s" "pydantic_ok P" "utc now" "utc tsa_now"
    and "validate_update body" "map_of (ma_idempotency_index (co_audit (ap_core s))) (rq_idempotency_key body) = None"
    and "memory_stream (co_audit (ap_core s)) (rq_decision_id body) = []"
    and "\<forall>x. rq_value body = PInt x \<longrightarrow> \<bar>x\<bar> \<le> 2 ^ 53"
  shows "\<exists>s1 s2 s3 r sb. post_metrics now i s body = (s1, Inr (202, ''ACCEPTED'')) \<and>
    shutdown_flush sign auth tsa_now uuid s1 = s2 \<and>
    get_merkle_proof P t1 t2 s2 (rq_decision_id body) (rq_metric_name body) = (s3, Inr r) \<and>
    gm_leaf_hash r = to_hex (compute_leaf_hash (rq_decision_id body) (rq_metric_name body) (rq_value body) (isoformat_ms now)
      (rq_evidence_refs body) (rq_idempotency_key body)) \<and>
    response_verifies r \<and>
    snd (get_scoreboard P t1 t2 s2 (rq_decision_id body)) = Inr sb \<and>
    map_option so_value (map_of (gs_metrics sb) (rq_metric_name body)) = Some (rq_value body)"
  using post_flush_served [OF _ assms(2-8)] run_invariant [OF assms(1) app_inv_new] by blast

theorem post_flush_prove_witness:
  "\<exists>s1 s3 r. post_metrics epoch ''e1'' (new_app 10 (Fin 5) []) sample_body = (s1, Inr (202, ''ACCEPTED'')) \<and>
     get_merkle_proof strict_pydantic epoch epoch (shutdown_flush rev ''t'' epoch (\<lambda>n. ''u'') s1) ''d'' ''m'' = (s3, Inr r) \<and>
     response_verifies r"
  using post_flush_prove [OF app_run.start [of strict_pydantic rev "new_app 10 (Fin 5) []"] strict_pydantic_ok utc_epoch utc_epoch
      sample_fresh(1), of "''e1''" "''t''" "\<lambda>n. ''u''" epoch epoch]
  by (auto simp: sample_body_def new_app_def new_core_def new_memory_audit_def memory_stream_def dict_get_def)

end
