(* ===== verification/Transports.thy ===== *)
theory Transports
  imports SystemRuns
begin

text \<open>
  The two transports side by side: a command leaves the service in the same state over REST and over gRPC and gets
  corresponding answers, and both serve the same inclusion proof.
\<close>

section \<open>Commands\<close>

text \<open>The request of the REST body as a gRPC message.\<close>

definition as_message :: "'st \<Rightarrow> update_metric_request \<Rightarrow> 'st grpc_update_request" where
  "as_message ctx body =
     \<lparr>gu_decision_id = rq_decision_id body, gu_metric_name = rq_metric_name body, gu_value = dumps_utf8 (rq_value body),
      gu_idempotency_key = rq_idempotency_key body, gu_evidence_refs = rq_evidence_refs body,
      gu_proposed_by = rq_proposed_by body, gu_runtime_context = ctx\<rparr>"

fun status_name :: "grpc_update_status \<Rightarrow> string" where
  "status_name STATUS_UNSPECIFIED = ''STATUS_UNSPECIFIED''"
| "status_name GRPC_ACCEPTED = ''ACCEPTED''"
| "status_name GRPC_DUPLICATE_IGNORED = ''DUPLICATE_IGNORED''"
| "status_name GRPC_REJECTED_MISSING_EVIDENCE = ''REJECTED_MISSING_EVIDENCE''"

definition same_answer :: "(nat \<times> string) res \<Rightarrow> grpc_update_response res \<Rightarrow> bool" where
  "same_answer a b = (case (a, b) of
     (Inr (code, status), Inr r) \<Rightarrow> code = 202 \<and> status = status_name (gur_status r)
   | (Inl e, Inl e') \<Rightarrow> e = e'
   | _ \<Rightarrow> False)"

lemma status_name_map: "status_name (status_map st) = update_metric_status_value st"
  by (cases st) simp_all

lemma loads_utf8_nil: "loads_utf8 [] = Inl e \<Longrightarrow> json_value v \<Longrightarrow> dumps_utf8 v \<noteq> []"
  using loads_dumps_utf8 [of v] by auto

lemma grpc_command_message:
  assumes "json_value (rq_value body)" "message_to_dict ctx = rq_runtime_context body"
  shows "grpc_command message_to_dict (as_message ctx body) = Inr (to_command body)"
proof -
  have "loads_utf8 [] = json_error" 
    by (simp add: loads_utf8_def json_loads_def parse_fuel_def numeral_2_eq_2 json_ws_def)
  from loads_utf8_nil [OF this assms(1)] loads_dumps_utf8 [OF assms(1)] assms(2) show ?thesis
    by (simp add: grpc_command_def as_message_def to_command_def)
qed

lemma update_not_rejected:
  "handle_update_metric ops now i c cmd = (c', Inr r) \<Longrightarrow> um_evidence_refs cmd \<noteq> [] \<Longrightarrow> ur_status r \<noteq> REJECTED_MISSING_EVIDENCE"
  by (auto simp: handle_update_metric_def commit_def Let_def sbind_def split: prod.splits sum.splits option.splits if_splits)

lemma valid_same_command:
  assumes "json_value (rq_value body)" "message_to_dict ctx = rq_runtime_context body" "validate_update body"
  shows "fst (UpdateMetric message_to_dict now i s (as_message ctx body)) = fst (post_metrics now i s body)"
    and "same_answer (snd (post_metrics now i s body)) (snd (UpdateMetric message_to_dict now i s (as_message ctx body)))"
proof -
  have cmd: "grpc_command message_to_dict (as_message ctx body) = Inr (to_command body)"
    using assms(1,2) by (rule grpc_command_message)
  obtain c r where h: "handle_update_metric memory_ops now i (ap_core s) (to_command body) = (c, r)" by fastforce
  have "um_evidence_refs (to_command body) \<noteq> []" using assms(3) by (auto simp: to_command_def validate_update_def)
  then have "\<And>x. r = Inr x \<Longrightarrow> ur_status x \<noteq> REJECTED_MISSING_EVIDENCE" using update_not_rejected h by blast
  then show "fst (UpdateMetric message_to_dict now i s (as_message ctx body)) = fst (post_metrics now i s body)"
    "same_answer (snd (post_metrics now i s body)) (snd (UpdateMetric message_to_dict now i s (as_message ctx body)))"
    using assms(3) by (cases r; simp add: UpdateMetric_def cmd post_metrics_eq h same_answer_def status_name_map)+
qed

section \<open>Proofs\<close>

text \<open>The same proof in the two encodings: hexadecimal text and an ISO time over REST, bytes and milliseconds over gRPC.\<close>

fun position_name :: "proto_position \<Rightarrow> string" where
  "position_name POSITION_UNSPECIFIED = ''POSITION_UNSPECIFIED''"
| "position_name POSITION_LEFT = ''LEFT''"
| "position_name POSITION_RIGHT = ''RIGHT''"

definition same_proof :: "get_merkle_proof_response \<Rightarrow> grpc_merkle_proof \<Rightarrow> bool" where
  "same_proof r p =
     (gm_leaf_hash r = to_hex (gmp_leaf_hash p) \<and>
      gm_proof_path r = map (\<lambda>n. \<lparr>pn_hash = to_hex (gpn_hash n), pn_position = position_name (gpn_position n)\<rparr>) (gmp_proof_path p) \<and>
      gm_root r = to_hex (gmp_root p) \<and> gm_anchor_signature r = to_hex (gmp_anchor_signature p) \<and>
      unix_ms (gm_anchor_timestamp r) = Inr (gmp_anchor_timestamp_unix_ms p))"

definition message_verifies :: "grpc_merkle_proof \<Rightarrow> bool" where
  "message_verifies p =
     verify_inclusion_proof (gmp_leaf_hash p)
       (map (\<lambda>n. \<lparr>sibling_hash = gpn_hash n, position = position_name (gpn_position n)\<rparr>) (gmp_proof_path p)) (gmp_root p)"

lemma proof_message_good:
  assumes "good_row leaf row" "pydantic_ok P"
  shows "\<exists>p r. proof_message row = Inr p \<and> proof_response P row = Inr r \<and> same_proof r p \<and> message_verifies p \<and> gmp_leaf_hash p = leaf"
proof -
  obtain steps rt sg tok b t where row: "row = proof_row leaf steps rt sg tok b" "valid_steps leaf steps rt"
      "utc t" "timestamp_iso tok = isoformat_ms t"
    using assms(1) by (auto simp: good_row_def)
  let ?t = "t\<lparr>dt_micro := dt_micro t div 1000 * 1000\<rparr>"
  let ?pos = "\<lambda>s. if position s = ''LEFT'' then POSITION_LEFT else POSITION_RIGHT"
  let ?node = "\<lambda>s. \<lparr>gpn_hash = sibling_hash s, gpn_position = ?pos s\<rparr>"
  have side: "\<And>s. s \<in> set steps \<Longrightarrow> position_name (?pos s) = position s"
    using row(2) by (auto simp: valid_steps_def list_all_iff)
  have nodes: "rmap grpc_node (map (\<lambda>s. PDict [(''hash'', PStr (to_hex (sibling_hash s))), (''position'', PStr (position s))]) steps) =
      Inr (map ?node steps)"
    by (induction steps) (simp_all add: grpc_node_def getitem_def str_field_def str_arg_def)
  have time: "fromisoformat (timestamp_iso tok) = Inr ?t" using row(3,4) fromisoformat_isoformat_ms [of t] by (simp add: utc_def)
  have "valid_datetime ?t" "dt_offset ?t = Some 0"
    using row(3) by (auto simp: utc_def valid_datetime_def less_mult_imp_div_less)
  from unix_ms_fits [OF this] obtain ms where ms: "unix_ms ?t = Inr ms" by blast
  let ?p = "\<lparr>gmp_leaf_hash = leaf, gmp_proof_path = map ?node steps, gmp_root = rt, gmp_anchor_signature = sg,
     gmp_anchor_timestamp_unix_ms = ms\<rparr>"
  have p: "proof_message row = Inr ?p"
    using nodes time ms by (simp add: proof_message_def row(1) proof_row_def getitem_def str_field_def str_arg_def)
  have "map (\<lambda>n. \<lparr>sibling_hash = gpn_hash n, position = position_name (gpn_position n)\<rparr>) (map ?node steps) = steps"
    unfolding map_map by (rule map_idI) (simp add: side)
  then have "message_verifies ?p" using row(2) by (simp only: message_verifies_def valid_steps_def grpc_merkle_proof.simps)
  moreover have "same_proof r ?p" if "proof_response P row = Inr r" for r
    using that ms side by (auto simp: row(1) proof_response_row [OF row(2-4) assms(2)] same_proof_def)
  ultimately show ?thesis using p proof_response_good [OF assms] by auto
qed

lemma grpc_proof_result:
  assumes "GetMerkleProof s d m = Inr p" "app_inv s"
  shows "message_verifies p \<and> (\<exists>c. first_commit m (memory_stream (co_audit (ap_core s)) d) = Some c \<and>
    map_of c ''leaf_hash'' = Some (PStr (to_hex (gmp_leaf_hash p))))"
proof -
  obtain c h row where c: "first_commit m (memory_stream (co_audit (ap_core s)) d) = Some c"
      "map_of c ''leaf_hash'' = Some (PStr h)" "map_of (ap_store s) (''merkle_proof:'' @ h) = Some row" "proof_message row = Inr p"
    using assms(1)
    by (auto simp: GetMerkleProof_def memory_read_stream rbind_eq_Inr str_field_def getitem_def str_arg_def memory_get_def
        split: option.splits pyval.splits)
  from inv_proof_row [OF assms(2) c(3)] obtain leaf where leaf: "h = to_hex leaf" "good_row leaf row" by blast
  from proof_message_good [OF leaf(2) strict_pydantic_ok] c(4) have "message_verifies p" "gmp_leaf_hash p = leaf" by auto
  with c(1,2) leaf(1) show ?thesis by simp
qed

lemma rest_proof_over_grpc:
  assumes "get_merkle_proof P now1 now2 s d m = (s', Inr r)" "app_inv s" "pydantic_ok P"
  shows "\<exists>p. GetMerkleProof s d m = Inr p \<and> same_proof r p"
proof -
  from get_merkle_proof_result [OF assms] obtain c leaf row where c: "first_commit m (memory_stream (co_audit (ap_core s)) d) = Some c"
      "map_of c ''leaf_hash'' = Some (PStr (to_hex leaf))" "map_of (ap_store s) (''merkle_proof:'' @ to_hex leaf) = Some row"
      "proof_response P row = Inr r" by (metis option.exhaust)
  from inv_proof_row [OF assms(2) c(3)] have "good_row leaf row" by (metis Inr_inject fromhex_to_hex)
  from proof_message_good [OF this assms(3)] c show ?thesis
    by (auto simp: GetMerkleProof_def memory_read_stream str_field_def getitem_def str_arg_def memory_get_def)
qed

section \<open>Properties\<close>



text \<open>C6: one proof over both transports. In every reachable state, each proof that gRPC serves verifies, byte for byte as
  sent, for the leaf of the metric's first commit; and when REST serves a proof, gRPC serves the same leaf, path, root,
  signature and time.\<close>

theorem transports_same_proof:
  assumes "app_run P sign (new_app n t req) accepted s" "pydantic_ok P"
  shows "(\<forall>p. GetMerkleProof s d m = Inr p \<longrightarrow> message_verifies p \<and>
        (\<exists>c. first_commit m (memory_stream (co_audit (ap_core s)) d) = Some c \<and>
             map_of c ''leaf_hash'' = Some (PStr (to_hex (gmp_leaf_hash p))))) \<and>
    (\<forall>s' r. get_merkle_proof P now1 now2 s d m = (s', Inr r) \<longrightarrow> (\<exists>p. GetMerkleProof s d m = Inr p \<and> same_proof r p))"
proof -
  have inv: "app_inv s" using run_invariant [OF assms(1) app_inv_new] by blast
  show ?thesis using grpc_proof_result [OF _ inv] rest_proof_over_grpc [OF _ inv assms(2)] by blast
qed

theorem transports_same_proof_witness:
  "\<exists>s1 s2 r p. app_run strict_pydantic rev (new_app 10 (Fin 5) []) s1 s2 \<and>
     GetMerkleProof s2 ''d'' ''m'' = Inr p \<and> message_verifies p \<and> same_proof r p"
proof -
  obtain s1 s2 s' r where run: "app_run strict_pydantic rev (new_app 10 (Fin 5) []) s1 s2"
    "get_merkle_proof strict_pydantic epoch epoch s2 ''d'' ''m'' = (s', Inr r)" using sample_served by blast
  from transports_same_proof [OF run(1) strict_pydantic_ok, of "''d''" "''m''" epoch epoch] run show ?thesis by blast
qed

end
