(* ===== verification/Ed25519.thy ===== *)
theory Ed25519
  imports Transports
begin

text \<open>
  \<^verbatim>\<open>infrastructure/ed25519_signer.py\<close>: the signer that \<^verbatim>\<open>build_app_state\<close> wires into the anchor service, over the
  \<^verbatim>\<open>cryptography\<close> package, and what it makes of the proofs that the service serves: every one carries a signature of its
  root that the signer's public key verifies.
\<close>

section \<open>The signer\<close>

text \<open>The package, a parameter: private keys are of type \<open>'k\<close>, public keys of type \<open>'p\<close>. \<open>ed_check\<close> raises
  (\<^verbatim>\<open>InvalidSignature\<close>) when it is \<open>False\<close>. \<open>ed_from_public_bytes\<close> and \<open>ed_load_pem\<close> may raise; the latter yields \<open>None\<close> for a
  key of another kind.\<close>

record ('k, 'p) ed25519 =
  ed_sign :: "'k \<Rightarrow> bytes \<Rightarrow> bytes"
  ed_public_key :: "'k \<Rightarrow> 'p"
  ed_public_bytes :: "'p \<Rightarrow> bytes"
  ed_from_public_bytes :: "bytes \<Rightarrow> 'p res"
  ed_check :: "'p \<Rightarrow> bytes \<Rightarrow> bytes \<Rightarrow> bool"
  ed_load_pem :: "bytes \<Rightarrow> 'k option res"

record ('k, 'p) ed25519_signer =
  es_private_key :: 'k
  es_public_key :: 'p
  es_key_id :: string

text \<open>\<open>fresh\<close> is the key that \<^verbatim>\<open>Ed25519PrivateKey.generate()\<close> draws.\<close>

definition new_ed25519_signer :: "('k, 'p) ed25519 \<Rightarrow> 'k \<Rightarrow> 'k option \<Rightarrow> string \<Rightarrow> ('k, 'p) ed25519_signer" where
  "new_ed25519_signer E fresh private_key key_id =
     (let k = (case private_key of Some k \<Rightarrow> k | None \<Rightarrow> fresh) in
      \<lparr>es_private_key = k, es_public_key = ed_public_key E k, es_key_id = key_id\<rparr>)"

definition ed25519_sign :: "('k, 'p) ed25519 \<Rightarrow> ('k, 'p) ed25519_signer \<Rightarrow> bytes \<Rightarrow> bytes" where
  "ed25519_sign E s payload = ed_sign E (es_private_key s) payload"

definition ed25519_verify :: "('k, 'p) ed25519 \<Rightarrow> bytes \<Rightarrow> bytes \<Rightarrow> bytes \<Rightarrow> bool res" where
  "ed25519_verify E payload signature public_key =
     rbind (ed_from_public_bytes E public_key) (\<lambda>p. Inr (ed_check E p signature payload))"

definition public_key_bytes :: "('k, 'p) ed25519 \<Rightarrow> ('k, 'p) ed25519_signer \<Rightarrow> bytes" where
  "public_key_bytes E s = ed_public_bytes E (es_public_key s)"

text \<open>\<open>read_file\<close> is what opening and reading the path gives.\<close>

definition from_pem_file ::
    "('k, 'p) ed25519 \<Rightarrow> (string \<Rightarrow> bytes res) \<Rightarrow> 'k \<Rightarrow> string \<Rightarrow> string \<Rightarrow> ('k, 'p) ed25519_signer res" where
  "from_pem_file E read_file fresh path key_id =
     rbind (read_file path) (\<lambda>pem.
     rbind (ed_load_pem E pem) (\<lambda>key.
       case key of
         None \<Rightarrow> Inl (TypeError ''key file does not contain an Ed25519 private key'')
       | Some k \<Rightarrow> Inr (new_ed25519_signer E fresh (Some k) key_id)))"

text \<open>What the package documents: raw bytes give the public key back, and a key's own signatures check.\<close>

definition ed25519_ok :: "('k, 'p) ed25519 \<Rightarrow> bool" where
  "ed25519_ok E = ((\<forall>p. ed_from_public_bytes E (ed_public_bytes E p) = Inr p) \<and>
     (\<forall>k m. ed_check E (ed_public_key E k) (ed_sign E k m) m))"

text \<open>A signer as one of the two constructors makes it.\<close>

definition built_signer :: "('k, 'p) ed25519 \<Rightarrow> ('k, 'p) ed25519_signer \<Rightarrow> bool" where
  "built_signer E s = ((\<exists>fresh key i. s = new_ed25519_signer E fresh key i) \<or>
     (\<exists>read_file fresh path i. from_pem_file E read_file fresh path i = Inr s))"

lemma built_signer_keys: "built_signer E s \<Longrightarrow> es_public_key s = ed_public_key E (es_private_key s)"
  by (auto simp: built_signer_def new_ed25519_signer_def from_pem_file_def Let_def rbind_eq_Inr split: option.splits)

lemma own_signature_verifies:
  "ed25519_ok E \<Longrightarrow> built_signer E s \<Longrightarrow> ed25519_verify E m (ed25519_sign E s m) (public_key_bytes E s) = Inr True"
  using built_signer_keys [of E s] by (simp add: ed25519_ok_def ed25519_verify_def ed25519_sign_def public_key_bytes_def)

section \<open>Every stored proof is signed\<close>

definition signed_row :: "(bytes \<Rightarrow> bytes) \<Rightarrow> pydict \<Rightarrow> bool" where
  "signed_row sign row = (\<exists>leaf steps rt tok b. row = proof_row leaf steps rt (sign rt) tok b)"

definition signed_store :: "(bytes \<Rightarrow> bytes) \<Rightarrow> memory_store \<Rightarrow> bool" where
  "signed_store sign st = (\<forall>leaf row. map_of st (proof_key leaf) = Some row \<longrightarrow> signed_row sign row)"

lemma signed_close:
  assumes "pending (co_merkle (ap_core s)) \<noteq> []" "signed_store sign (ap_store s)"
  shows "signed_store sign (ap_store (put_anchor s (fst (close_and_anchor memory_ops memory_store_ops sign (\<lambda>g. Inr (f g)) uuid (anchor_of s)))))"
proof -
  let ?ls = "batch_leaves (co_merkle (ap_core s))"
  have p: "pending (an_builder (anchor_of s)) \<noteq> []" using assms(1) by simp
  show ?thesis
  proof (rule memory_close_and_anchor [where stamp = "\<lambda>g. Inr (f g)" and sign = sign and uuid = uuid, OF p HOL.refl], goal_cases)
    case (1 s')
    have "signed_row sign row" if row: "map_of (an_store s') (proof_key leaf) = Some row" for leaf row
    proof (cases "leaf \<in> set ?ls")
      case True
      from memory_anchor_store(1) [OF this] row show ?thesis unfolding 1(3) signed_row_def an_builder_of by (metis option.inject)
    next
      case False
      then have "proof_key leaf \<notin> proof_key ` set ?ls" using proof_key_inj by blast
      from memory_anchor_store(2) [OF this] row assms(2) show ?thesis unfolding 1(3) signed_store_def by simp
    qed
    then show ?case unfolding 1(1) by (simp add: signed_store_def put_anchor_def)
  qed
qed

lemma signed_rebuild:
  "signed_store sign (ap_store s) \<Longrightarrow> signed_store sign (ap_store (fst (app_rebuild P now1 now2 s d req)))"
  by (auto simp: scoreboard_key_not_proof [symmetric] app_rebuild_def memory_rebuild signed_store_def map_of_AList_update
      split: sum.splits if_splits)

lemma write_keeps_store:
  "ap_store (fst (post_metrics now i s body)) = ap_store s" "ap_store (fst (UpdateMetric mtd now i s request)) = ap_store s"
  "ap_store (app_bus_event topic now i j payload s) = ap_store s" "ap_store (app_supersede now i d m leaf ctx k s) = ap_store s"
  by (auto simp: post_metrics_eq UpdateMetric_def app_bus_event_def app_supersede_def split: prod.splits sum.splits)

lemma signed_step: "app_step P sign s ls t \<Longrightarrow> signed_store sign (ap_store s) \<Longrightarrow> signed_store sign (ap_store t)"
proof (induction rule: app_step.induct)
  case (tick tsa_now s auth now uuid)
  then show ?case using signed_close [of s sign "memory_tsa_timestamp auth tsa_now" uuid]
    by (simp add: closer_tick_def maybe_close_and_anchor_def put_anchor_id should_close_def split: if_splits)
next
  case (flush tsa_now s auth uuid)
  then show ?case using signed_close [of s sign "memory_tsa_timestamp auth tsa_now" uuid]
    by (simp add: shutdown_flush_def force_close_def put_anchor_id has_pending_def)
next
  case (scoreboard s now1 now2 d)
  then show ?case unfolding get_scoreboard_def by (subst fst_sbind_same) (auto simp: signed_rebuild)
next
  case (proof_query s now1 now2 d m)
  then show ?case unfolding get_merkle_proof_def by (subst fst_sbind_same) (auto simp: signed_rebuild)
next
  case (grpc_scoreboard s now1 now2 d)
  then show ?case unfolding GetScoreboard_def by (subst fst_sbind_same) (auto simp: signed_rebuild)
qed (simp_all add: write_keeps_store)

lemma signed_run:
  "app_run P sign s accepted t \<Longrightarrow> signed_store sign (ap_store s) \<Longrightarrow> signed_store sign (ap_store t)"
  by (induction rule: app_run.induct) (auto simp: signed_step)

lemma signed_new: "signed_store sign (ap_store (new_app n t req))"
  by (simp add: signed_store_def new_app_def)

lemma signed_message: "signed_row sign row \<Longrightarrow> proof_message row = Inr p \<Longrightarrow> gmp_anchor_signature p = sign (gmp_root p)"
  by (auto simp: signed_row_def proof_message_def proof_row_def rbind_eq_Inr str_field_def getitem_def str_arg_def)

lemma served_message_signed:
  assumes "GetMerkleProof s d m = Inr p" "app_inv s" "signed_store sign (ap_store s)"
  shows "gmp_anchor_signature p = sign (gmp_root p)"
proof -
  obtain h row where row: "map_of (ap_store s) (''merkle_proof:'' @ h) = Some row" "proof_message row = Inr p"
    using assms(1)
    by (auto simp: GetMerkleProof_def memory_read_stream rbind_eq_Inr str_field_def getitem_def str_arg_def memory_get_def
        split: option.splits pyval.splits)
  from inv_proof_row [OF assms(2) row(1)] obtain leaf where "h = to_hex leaf" by blast
  with row(1) have "map_of (ap_store s) (proof_key leaf) = Some row" by (simp only: proof_key_append)
  with row(2) assms(3) show ?thesis by (auto simp: signed_store_def intro: signed_message)
qed

section \<open>Properties\<close>

text \<open>C8: served anchors are authentic. In every run of a service that signs with a signer built by either constructor,
  each proof it serves, over REST or gRPC, carries a root and a signature such that the inclusion proof leads from the
  leaf to the root and the signature of the root verifies under the signer's public key; over REST both are hexadecimal.\<close>

theorem served_anchor_authentic:
  assumes "ed25519_ok E" "built_signer E sg" "pydantic_ok P"
    and "app_run P (ed25519_sign E sg) (new_app n t req) accepted s"
  shows "(\<forall>now1 now2 d m s' r. get_merkle_proof P now1 now2 s d m = (s', Inr r) \<longrightarrow>
      response_verifies r \<and> (\<exists>rt signature. fromhex (gm_root r) = Inr rt \<and> fromhex (gm_anchor_signature r) = Inr signature \<and>
        ed25519_verify E rt signature (public_key_bytes E sg) = Inr True)) \<and>
    (\<forall>d m p. GetMerkleProof s d m = Inr p \<longrightarrow>
      message_verifies p \<and> ed25519_verify E (gmp_root p) (gmp_anchor_signature p) (public_key_bytes E sg) = Inr True)"
proof (intro conjI allI impI, goal_cases)
  have inv: "app_inv s" using run_invariant [OF assms(4) app_inv_new] by blast
  have sig: "signed_store (ed25519_sign E sg) (ap_store s)" by (rule signed_run [OF assms(4) signed_new])
  have auth: "ed25519_verify E (gmp_root p) (gmp_anchor_signature p) (public_key_bytes E sg) = Inr True"
    if "GetMerkleProof s d m = Inr p" for d m p
    using served_message_signed [OF that inv sig] own_signature_verifies [OF assms(1,2)] by simp
  {
    case (1 now1 now2 d m s' r)
    with get_merkle_proof_result [OF 1 inv assms(3)] show ?case by metis
  next
    case (2 now1 now2 d m s' r)
    from rest_proof_over_grpc [OF 2 inv assms(3)] obtain p where "GetMerkleProof s d m = Inr p" "same_proof r p" by blast
    with auth show ?case by (auto simp: same_proof_def)
  next
    case (3 d m p)
    then show ?case using grpc_proof_result [OF 3 inv] by blast
  next
    case (4 d m p)
    then show ?case by (rule auth)
  }
qed

text \<open>A package whose signatures are the payload with the key byte appended.\<close>

definition sample_ed25519 :: "(byte, byte) ed25519" where
  "sample_ed25519 = \<lparr>ed_sign = (\<lambda>k m. m @ [k]), ed_public_key = (\<lambda>k. k), ed_public_bytes = (\<lambda>p. [p]),
     ed_from_public_bytes = (\<lambda>b. if length b = 1 then Inr (hd b) else Inl (ValueError ''public key'')),
     ed_check = (\<lambda>p sig m. sig = m @ [p]), ed_load_pem = (\<lambda>b. Inr None)\<rparr>"

definition sample_signer :: "(byte, byte) ed25519_signer" where
  "sample_signer = new_ed25519_signer sample_ed25519 7 None ''core-dev-v1''"

lemma sample_signer_ok: "ed25519_ok sample_ed25519" "built_signer sample_ed25519 sample_signer"
  by (auto simp: ed25519_ok_def sample_ed25519_def built_signer_def sample_signer_def)

theorem served_anchor_authentic_witness:
  "\<exists>acc s s' r. app_run strict_pydantic (ed25519_sign sample_ed25519 sample_signer) (new_app 10 (Fin 5) []) acc s \<and>
     get_merkle_proof strict_pydantic epoch epoch s ''d'' ''m'' = (s', Inr r) \<and>
     (\<exists>rt signature. fromhex (gm_root r) = Inr rt \<and> fromhex (gm_anchor_signature r) = Inr signature \<and>
        ed25519_verify sample_ed25519 rt signature [7] = Inr True)"
proof -
  obtain acc s s' r where run: "app_run strict_pydantic (ed25519_sign sample_ed25519 sample_signer) (new_app 10 (Fin 5) []) acc s"
    "get_merkle_proof strict_pydantic epoch epoch s ''d'' ''m'' = (s', Inr r)" using sample_served by blast
  have "public_key_bytes sample_ed25519 sample_signer = [7]"
    by (simp add: public_key_bytes_def sample_ed25519_def sample_signer_def new_ed25519_signer_def)
  with served_anchor_authentic [OF sample_signer_ok strict_pydantic_ok run(1)] run show ?thesis by metis
qed

end
