(* ===== verification/Der.thy ===== *)
theory Der
  imports PyTime
begin

text \<open>
  The DER codec of \<^verbatim>\<open>infrastructure/rfc3161_client.py\<close>: the encoders, the recursive-descent decoder and the
  typed readers. The decoder is total: every recursive call works on fewer remaining bytes. (Python would also
  raise \<^verbatim>\<open>RecursionError\<close> on input nested deeper than the interpreter's stack allows; the model has no such bound.)
  Python refuses to print an integer of more than 4300 decimal digits, which is the \<^verbatim>\<open>ValueError\<close> of \<open>int_to_str\<close>.
  The relation \<open>encodes\<close> says that a byte string parses to a node at any position of any input; the locale
  \<open>der_type\<close> is the round-trip contract of an encoder and its reader.
\<close>

section \<open>Python integers and text\<close>

text \<open>\<^verbatim>\<open>bytes([n])\<close> and \<^verbatim>\<open>bytearray.append(n)\<close>.\<close>

definition py_byte :: "int \<Rightarrow> bytes res" where
  "py_byte n = (if 0 \<le> n \<and> n < 256 then Inr [word_of_int n] else Inl (ValueError ''bytes must be in range(0, 256)''))"

definition int_to_str :: "int \<Rightarrow> string res" where
  "int_to_str i = (if 4300 < length (nat_str (nat \<bar>i\<bar>)) then Inl (ValueError ''Exceeds the limit (4300 digits)'')
                   else Inr (int_str i))"

definition py_space :: "char \<Rightarrow> bool" where
  "py_space c = (let n = of_char c :: nat in n = 32 \<or> (9 \<le> n \<and> n \<le> 13) \<or> (28 \<le> n \<and> n \<le> 31) \<or> n = 133 \<or> n = 160)"

definition strip :: "string \<Rightarrow> string" where
  "strip s = rev (dropWhile py_space (rev (dropWhile py_space s)))"

text \<open>Digits with single underscores between them.\<close>

fun int_digits :: "string \<Rightarrow> string option" where
  "int_digits [] = None"
| "int_digits [c] = (if is_digit c then Some [c] else None)"
| "int_digits (c # d # s) =
     (if \<not> is_digit c then None
      else if d = CHR ''_'' then map_option (Cons c) (int_digits s)
      else map_option (Cons c) (int_digits (d # s)))"

text \<open>\<^verbatim>\<open>int(s)\<close>.\<close>

definition py_int :: "string \<Rightarrow> int res" where
  "py_int s =
     (let t = strip s;
          neg = (take 1 t = ''-'');
          body = (if take 1 t = ''-'' \<or> take 1 t = ''+'' then drop 1 t else t) in
      case int_digits body of
        None \<Rightarrow> Inl (ValueError ''invalid literal for int()'')
      | Some ds \<Rightarrow>
          if 4300 < length ds then Inl (ValueError ''Exceeds the limit (4300 digits)'')
          else (case digits_nat ds of None \<Rightarrow> Inl (ValueError ''invalid literal for int()'')
                | Some n \<Rightarrow> Inr (if neg then - int n else int n)))"

text \<open>\<^verbatim>\<open>s.split(c)\<close>.\<close>

fun split_on :: "char \<Rightarrow> string \<Rightarrow> string list" where
  "split_on c [] = [[]]"
| "split_on c (x # s) = (if x = c then [] # split_on c s
     else case split_on c s of [] \<Rightarrow> [[x]] | p # ps \<Rightarrow> (x # p) # ps)"

definition ascii_encode :: "string \<Rightarrow> bytes res" where
  "ascii_encode s = (if list_all (\<lambda>c. (of_char c :: nat) < 128) s then Inr (map (\<lambda>c. word_of_nat (of_char c)) s)
                     else Inl (ValueError ''ascii codec cannot encode''))"

definition ascii_decode :: "bytes \<Rightarrow> string option" where
  "ascii_decode bs = (if list_all (\<lambda>b. unat b < 128) bs then Some (map (\<lambda>b. char_of (unat b)) bs) else None)"

section \<open>Encoders\<close>

definition der_length :: "int \<Rightarrow> bytes res" where
  "der_length n =
     (if n < 0 then Inl (DerError ''negative length'')
      else if n < 128 then py_byte n
      else let raw = to_bytes (nat n) in rbind (py_byte (or 128 (int (length raw)))) (\<lambda>b. Inr (b @ raw)))"

definition tlv :: "int \<Rightarrow> bytes \<Rightarrow> bytes res" where
  "tlv tag content =
     rbind (py_byte tag) (\<lambda>t. rbind (der_length (int (length content))) (\<lambda>l. Inr (t @ l @ content)))"

definition der_boolean :: "bool \<Rightarrow> bytes res" where
  "der_boolean val = tlv 1 (if val then [255] else [0])"

definition der_integer :: "int \<Rightarrow> bytes res" where
  "der_integer val =
     (if val = 0 then tlv 2 [0]
      else if val < 0 then Inl (DerError ''only non-negative INTEGER supported'')
      else let raw = to_bytes (nat val) in
           tlv 2 (if 128 \<le> unat (hd raw) then 0 # raw else raw))"

definition der_octet_string :: "bytes \<Rightarrow> bytes res" where
  "der_octet_string data = tlv 4 data"

definition der_null :: "bytes res" where
  "der_null = tlv 5 []"

text \<open>One arc in base 128: the low seven bits first on a stack, the higher groups with the continuation bit.\<close>

fun arc_stack :: "nat \<Rightarrow> bytes" where
  "arc_stack n = (if n = 0 then [] else word_of_nat (n mod 128 + 128) # arc_stack (n div 128))"

declare arc_stack.simps [simp del]

definition oid_arc :: "nat \<Rightarrow> bytes" where
  "oid_arc arc = rev (word_of_nat (arc mod 128) # arc_stack (arc div 128))"

fun oid_arcs :: "int list \<Rightarrow> bytes res" where
  "oid_arcs [] = Inr []"
| "oid_arcs (arc # arcs) =
     (if arc < 0 then Inl (DerError ''bad OID arc'')
      else rbind (oid_arcs arcs) (\<lambda>rest. Inr (oid_arc (nat arc) @ rest)))"

definition der_oid :: "string \<Rightarrow> bytes res" where
  "der_oid dotted =
     rbind (rmap py_int (split_on (CHR ''.'') dotted)) (\<lambda>arcs.
       if length arcs < 2 \<or> 2 < arcs ! 0 \<or> 39 < arcs ! 1 then Inl (DerError ''bad OID'')
       else rbind (py_byte (40 * arcs ! 0 + arcs ! 1)) (\<lambda>first.
            rbind (oid_arcs (drop 2 arcs)) (\<lambda>rest. tlv 6 (first @ rest))))"

definition der_generalized_time :: "string \<Rightarrow> bytes res" where
  "der_generalized_time val = rbind (ascii_encode val) (tlv 24)"

definition der_sequence :: "bytes list \<Rightarrow> bytes res" where
  "der_sequence children = tlv 48 (concat children)"

definition der_set :: "bytes list \<Rightarrow> bytes res" where
  "der_set children = tlv 49 (concat children)"

definition der_explicit :: "int \<Rightarrow> bytes \<Rightarrow> bytes res" where
  "der_explicit tag_no inner =
     (if \<not> (0 \<le> tag_no \<and> tag_no \<le> 30) then Inl (DerError ''context tag number out of range'')
      else tlv (or 160 tag_no) inner)"

section \<open>Decoder\<close>

datatype der_node =
  DerNode (tag_class: nat) (tag_number: nat) (constructed: bool) (node_content: bytes) (node_children: "der_node list")

text \<open>The part of \<^verbatim>\<open>_parse_tlv\<close> up to the content: the length octets behind a tag byte at \<open>off - 1\<close>, then
  class, number, constructed bit, content and the offset behind the content.\<close>

definition parse_length :: "bytes \<Rightarrow> nat \<Rightarrow> (nat \<times> nat) res" where
  "parse_length data off =
     (let first_len = unat (data ! off) in
      if 128 \<le> first_len then
        (let nbytes = first_len mod 128 in
         if nbytes = 0 \<or> length data < off + 1 + nbytes then Inl (DerError ''bad DER length'')
         else Inr (from_bytes (take nbytes (drop (off + 1) data)), off + 1 + nbytes))
      else Inr (first_len, off + 1))"

definition parse_header :: "bytes \<Rightarrow> nat \<Rightarrow> (nat \<times> nat \<times> bool \<times> bytes \<times> nat) res" where
  "parse_header data off =
     (if length data < off + 2 then Inl (DerError ''truncated TLV header'')
      else let tag_byte = unat (data ! off) in
        if tag_byte mod 32 = 31 then Inl (DerError ''multi-byte tag numbers not supported'')
        else rbind (parse_length data (off + 1)) (\<lambda>(len, off).
               if length data < off + len then Inl (DerError ''truncated TLV content'')
               else Inr (tag_byte div 64, tag_byte mod 32, odd (tag_byte div 32), take len (drop off data), off + len)))"

lemma parse_length_bounds: "parse_length data off = Inr (len, off') \<Longrightarrow> off + 1 \<le> off'"
  by (simp add: parse_length_def Let_def split: if_splits)

lemma parse_header_bounds:
  assumes "parse_header data off = Inr (cls, tag, constr, c, off')"
  shows "off + 2 + length c \<le> off' \<and> off' \<le> length data"
proof -
  obtain len o2 where l: "parse_length data (off + 1) = Inr (len, o2)" "o2 + len \<le> length data"
      "c = take len (drop o2 data)" "off' = o2 + len"
    using assms by (auto simp: parse_header_def Let_def rbind_eq_Inr not_less split: if_splits)
  from parse_length_bounds [OF l(1)] l show ?thesis by auto
qed

text \<open>The loop over the content of a constructed node; it recurses into the content of constructed children.\<close>

function parse_children :: "bytes \<Rightarrow> nat \<Rightarrow> der_node list res" where
  "parse_children content pos =
     (if pos < length content then
        rbind (parse_header content pos) (\<lambda>(cls, tag, constr, c, pos').
        rbind (if constr then parse_children c 0 else Inr []) (\<lambda>children.
        rbind (parse_children content pos') (\<lambda>rest.
          Inr (DerNode cls tag constr c children # rest))))
      else Inr [])"
  by pat_completeness auto
termination
  by (relation "measure (\<lambda>(content, pos). length content - pos)") (auto dest!: parse_header_bounds)

declare parse_children.simps [simp del]

definition parse_tlv :: "bytes \<Rightarrow> nat \<Rightarrow> (der_node \<times> nat) res" where
  "parse_tlv data off =
     rbind (parse_header data off) (\<lambda>(cls, tag, constr, c, off').
     rbind (if constr then parse_children c 0 else Inr []) (\<lambda>children.
       Inr (DerNode cls tag constr c children, off')))"

definition der_decode :: "bytes \<Rightarrow> der_node res" where
  "der_decode data =
     rbind (parse_tlv data 0) (\<lambda>(node, off).
       if off \<noteq> length data then Inl (DerError ''trailing bytes after top-level TLV'') else Inr node)"

section \<open>Typed readers\<close>

definition expect_universal :: "der_node \<Rightarrow> nat \<Rightarrow> der_node res" where
  "expect_universal node tag =
     (if tag_class node = 0 \<and> tag_number node = tag then Inr node else Inl (DerError ''unexpected universal tag''))"

definition expect_context :: "der_node \<Rightarrow> nat \<Rightarrow> der_node res" where
  "expect_context node tag =
     (if tag_class node = 2 \<and> tag_number node = tag \<and> constructed node then Inr node
      else Inl (DerError ''unexpected context tag''))"

definition der_decode_integer :: "der_node \<Rightarrow> int res" where
  "der_decode_integer node =
     rbind (expect_universal node 2) (\<lambda>_.
       if constructed node \<or> node_content node = [] then Inl (DerError ''bad INTEGER'')
       else let raw = node_content node; n = int (from_bytes raw) in
            Inr (if 128 \<le> unat (hd raw) then n - 2 ^ (8 * length raw) else n))"

fun oid_loop :: "bytes \<Rightarrow> nat \<Rightarrow> nat list \<Rightarrow> nat \<times> nat list" where
  "oid_loop [] val arcs = (val, arcs)"
| "oid_loop (b # bs) val arcs =
     (let val = val * 128 + unat b mod 128 in
      if unat b < 128 then oid_loop bs 0 (arcs @ [val]) else oid_loop bs val arcs)"

definition der_decode_oid :: "der_node \<Rightarrow> string res" where
  "der_decode_oid node =
     rbind (expect_universal node 6) (\<lambda>_.
       case node_content node of
         [] \<Rightarrow> Inl (DerError ''empty OID'')
       | b # bs \<Rightarrow>
           (case oid_loop bs 0 [unat b div 40, unat b mod 40] of (val, arcs) \<Rightarrow>
              if val \<noteq> 0 \<or> 128 \<le> unat (last (b # bs)) then Inl (DerError ''truncated OID'')
              else rbind (rmap (\<lambda>a. int_to_str (int a)) arcs) (\<lambda>ss. Inr (join ''.'' ss))))"

definition der_decode_octet_string :: "der_node \<Rightarrow> bytes res" where
  "der_decode_octet_string node =
     rbind (expect_universal node 4) (\<lambda>_.
       if constructed node then Inl (DerError ''constructed OCTET STRING not supported'') else Inr (node_content node))"

definition der_decode_generalized_time :: "der_node \<Rightarrow> string res" where
  "der_decode_generalized_time node =
     rbind (expect_universal node 24) (\<lambda>_.
       case ascii_decode (node_content node) of None \<Rightarrow> Inl (DerError ''non-ASCII GeneralizedTime'') | Some s \<Rightarrow> Inr s)"

subsection \<open>GeneralizedTime to ISO 8601\<close>

text \<open>The regular expression: fourteen digits, an optional fraction, a zone; \<^verbatim>\<open>$\<close> also matches before a final line feed.\<close>

definition gt_zone :: "string \<Rightarrow> bool" where
  "gt_zone z = (z = ''Z'' \<or> (length z = 5 \<and> (hd z = CHR ''+'' \<or> hd z = CHR ''-'') \<and> list_all is_digit (tl z)))"

definition gt_match :: "string \<Rightarrow> (string \<times> string \<times> string) option" where
  "gt_match gt =
     (let s = (if gt \<noteq> [] \<and> last gt = CHR 0x0A then butlast gt else gt);
          ds = take 14 s; r = drop 14 s in
      if length ds < 14 \<or> \<not> list_all is_digit ds then None
      else if take 1 r = ''.'' then
        (let fr = takeWhile is_digit (drop 1 r); z = dropWhile is_digit (drop 1 r) in
         if fr \<noteq> [] \<and> gt_zone z then Some (ds, fr, z) else None)
      else if gt_zone r then Some (ds, [], r) else None)"

definition ljust0 :: "nat \<Rightarrow> string \<Rightarrow> string" where
  "ljust0 w s = s @ replicate (w - length s) (CHR ''0'')"

definition generalized_time_to_iso :: "string \<Rightarrow> string res" where
  "generalized_time_to_iso gt =
     (case gt_match gt of
        None \<Rightarrow> Inl (DerError ''unsupported GeneralizedTime format'')
      | Some (ds, fr, tz) \<Rightarrow>
          (let micro = digits_val (ljust0 6 (take 6 (if fr = [] then ''0'' else fr)));
               offset = (if tz = ''Z'' then 0
                         else (if hd tz = CHR ''+'' then 1 else -1) *
                              (int (digits_val (take 2 (drop 1 tz))) * 3600 + int (digits_val (take 2 (drop 3 tz))) * 60) * 1000000) in
           rbind (mk_datetime \<lparr>dt_year = digits_val (take 4 ds), dt_month = digits_val (take 2 (drop 4 ds)), dt_day = digits_val (take 2 (drop 6 ds)),
                    dt_hour = digits_val (take 2 (drop 8 ds)), dt_minute = digits_val (take 2 (drop 10 ds)),
                    dt_second = digits_val (take 2 (drop 12 ds)), dt_micro = micro, dt_offset = Some offset\<rparr>)
             (\<lambda>t. Inr (isoformat t))))"

section \<open>Encodings parse back\<close>

lemma or_128_small: "k < 128 \<Longrightarrow> or 128 (int k) = 128 + int k"
proof -
  have "list_all (\<lambda>k. or 128 (int k) = 128 + int k) [0..<128]" by code_simp
  then show "k < 128 \<Longrightarrow> or 128 (int k) = 128 + int k" by (simp add: list_all_iff)
qed

lemma unat_word_of_int_byte: "0 \<le> n \<Longrightarrow> n < 256 \<Longrightarrow> unat (word_of_int n :: byte) = nat n"
proof -
  assume "0 \<le> n" "n < 256"
  then have "word_of_int n = (word_of_nat (nat n) :: byte)" "nat n < 256" by (simp_all add: nat_less_iff)
  then show ?thesis by (simp add: unat_byte_of_nat)
qed

lemma parse_length_der:
  assumes "der_length (int n) = Inr l" "n < 256 ^ 127"
  shows "parse_length (pre @ l @ post) (length pre) = Inr (n, length pre + length l)"
proof (cases "n < 128")
  case True
  then have "l = [word_of_nat n]" using assms(1) by (simp add: der_length_def py_byte_def)
  then show ?thesis using True by (simp add: parse_length_def nth_append unat_byte_of_nat Let_def)
next
  case False
  let ?raw = "to_bytes n"
  have len: "length ?raw \<le> 127" "?raw \<noteq> []" using length_to_bytes_le [OF assms(2)] False by auto
  have or: "or 128 (int (length ?raw)) = 128 + int (length ?raw)" using len by (intro or_128_small) simp
  then have l: "l = word_of_int (128 + int (length ?raw)) # ?raw"
    using assms(1) False len by (simp add: der_length_def py_byte_def Let_def)
  have "unat (word_of_int (128 + int (length ?raw)) :: byte) = 128 + length ?raw"
    using len by (subst unat_word_of_int_byte) auto
  then show ?thesis using len by (simp add: l parse_length_def nth_append Let_def)
qed

lemma nat_tag_bits:
  assumes "0 \<le> t"
  shows "nat t div 64 = nat (t div 64)" "nat t mod 32 = nat (t mod 32)" "odd (nat t div 32) = odd (t div 32)"
    "int (nat t mod 32) = t mod 32"
proof -
  obtain n where n: "t = int n" using assms by (rule nonneg_int_cases)
  have "t div 64 = int (n div 64)" "t div 32 = int (n div 32)" "t mod 32 = int (n mod 32)"
    by (simp_all add: n zdiv_int zmod_int)
  then show "nat t div 64 = nat (t div 64)" "nat t mod 32 = nat (t mod 32)" "odd (nat t div 32) = odd (t div 32)"
    "int (nat t mod 32) = t mod 32"
    by (simp_all add: n)
qed

text \<open>A tag byte that the decoder accepts.\<close>

definition tag_ok :: "int \<Rightarrow> bool" where
  "tag_ok t = (0 \<le> t \<and> t < 256 \<and> t mod 32 \<noteq> 31)"

lemma tlv_shape:
  assumes "tlv t c = Inr bs"
  obtains l where "der_length (int (length c)) = Inr l" "bs = word_of_int t # l @ c" "0 \<le> t" "t < 256"
  using assms by (auto simp: tlv_def py_byte_def rbind_eq_Inr split: if_splits)

lemma der_length_nonempty: "der_length n = Inr l \<Longrightarrow> l \<noteq> []"
  by (auto simp: der_length_def py_byte_def rbind_eq_Inr Let_def split: if_splits)

lemma parse_header_tlv:
  assumes "tlv t c = Inr bs" "tag_ok t" "length c < 256 ^ 127"
  shows "parse_header (pre @ bs @ post) (length pre) =
    Inr (nat t div 64, nat t mod 32, odd (nat t div 32), c, length pre + length bs)"
proof -
  obtain l where l: "der_length (int (length c)) = Inr l" "bs = word_of_int t # l @ c" "0 \<le> t" "t < 256"
    by (rule tlv_shape [OF assms(1)])
  have "l \<noteq> []" by (rule der_length_nonempty [OF l(1)])
  moreover have "parse_length ((pre @ [word_of_int t]) @ l @ (c @ post)) (length (pre @ [word_of_int t])) =
      Inr (length c, length (pre @ [word_of_int t]) + length l)"
    by (rule parse_length_der [OF l(1) assms(3)])
  moreover have "nat t mod 32 \<noteq> 31" using assms(2) nat_tag_bits(4) [OF l(3)] by (auto simp: tag_ok_def)
  ultimately show ?thesis
    using l(3,4) by (cases l) (auto simp: l(2) parse_header_def nth_append unat_word_of_int_byte Let_def)
qed

text \<open>\<open>encodes bs node\<close>: wherever \<open>bs\<close> stands in an input, the decoder reads exactly it, as \<open>node\<close>.\<close>

definition encodes :: "bytes \<Rightarrow> der_node \<Rightarrow> bool" where
  "encodes bs node = (bs \<noteq> [] \<and>
     (\<forall>pre post. parse_tlv (pre @ bs @ post) (length pre) = Inr (node, length pre + length bs)))"

lemma encodes_decode: "encodes bs node \<Longrightarrow> der_decode bs = Inr node"
proof -
  assume "encodes bs node"
  then have "parse_tlv ([] @ bs @ []) (length ([] :: bytes)) = Inr (node, length ([] :: bytes) + length bs)"
    unfolding encodes_def by blast
  then show ?thesis by (simp add: der_decode_def)
qed

lemma encodes_primitive:
  assumes "tlv t c = Inr bs" "tag_ok t" "even (t div 32)" "length c < 256 ^ 127"
  shows "encodes bs (DerNode (nat (t div 64)) (nat (t mod 32)) False c [])"
proof -
  obtain l where "bs = word_of_int t # l @ c" "0 \<le> t" by (rule tlv_shape [OF assms(1)])
  moreover note nat_tag_bits [OF this(2)]
  ultimately show ?thesis
    using parse_header_tlv [OF assms(1,2,4)] assms(3) by (simp add: encodes_def parse_tlv_def)
qed

text \<open>The children of a constructed node, one after the other.\<close>

lemma parse_children_step:
  assumes "encodes bs node"
  shows "parse_children (pre @ bs @ post) (length pre) =
    rbind (parse_children (pre @ bs @ post) (length pre + length bs)) (\<lambda>rest. Inr (node # rest))"
proof -
  have "parse_tlv (pre @ bs @ post) (length pre) = Inr (node, length pre + length bs)" "bs \<noteq> []"
    using assms by (simp_all add: encodes_def)
  then show ?thesis
    by (subst parse_children.simps) (auto simp: parse_tlv_def rbind_eq_Inr)
qed

lemma parse_children_all:
  "list_all2 encodes bss nodes \<Longrightarrow> parse_children (pre @ concat bss) (length pre) = Inr nodes"
proof (induction bss arbitrary: nodes pre)
  case Nil
  then show ?case by (simp add: parse_children.simps)
next
  case (Cons bs bss)
  then obtain n ns where n: "nodes = n # ns" "encodes bs n" "list_all2 encodes bss ns" by (auto simp: list_all2_Cons1)
  from Cons.IH [OF n(3), of "pre @ bs"] parse_children_step [OF n(2), of pre "concat bss"] show ?case by (simp add: n(1))
qed

lemma encodes_constructed:
  assumes "tlv t (concat bss) = Inr bs" "tag_ok t" "odd (t div 32)" "length (concat bss) < 256 ^ 127"
    and "list_all2 encodes bss nodes"
  shows "encodes bs (DerNode (nat (t div 64)) (nat (t mod 32)) True (concat bss) nodes)"
proof -
  obtain l where "bs = word_of_int t # l @ concat bss" "0 \<le> t" by (rule tlv_shape [OF assms(1)])
  moreover note nat_tag_bits [OF this(2)]
  ultimately show ?thesis
    using parse_header_tlv [OF assms(1,2,4)] assms(3) parse_children_all [OF assms(5), of "[]"]
    by (simp add: encodes_def parse_tlv_def)
qed

section \<open>Round trips of the typed encoders\<close>

text \<open>The contract of an encoder with its reader, on the values it is meant for; \<open>room\<close> bounds the encoding.\<close>

locale der_type =
  fixes enc :: "'a \<Rightarrow> bytes res" and dec :: "der_node \<Rightarrow> 'a res" and valid :: "'a \<Rightarrow> bool" and room :: "'a \<Rightarrow> nat"
  assumes encoded: "valid x \<Longrightarrow>
    \<exists>bs node. enc x = Inr bs \<and> encodes bs node \<and> dec node = Inr x \<and> length bs \<le> room x"
begin

lemma roundtrip: "valid x \<Longrightarrow> \<exists>bs. enc x = Inr bs \<and> rbind (der_decode bs) dec = Inr x"
  using encoded encodes_decode by fastforce

lemma injective: "valid x \<Longrightarrow> valid y \<Longrightarrow> enc x = enc y \<Longrightarrow> x = y"
  using roundtrip by (metis Inr_inject)

end

lemma der_length_total: "n < 256 ^ 127 \<Longrightarrow> \<exists>l. der_length (int n) = Inr l"
proof -
  assume "n < 256 ^ 127"
  then have "length (to_bytes n) < 128" using length_to_bytes_le [of n 127] by simp
  then show ?thesis by (auto simp: der_length_def py_byte_def or_128_small Let_def)
qed

lemma tlv_total: "0 \<le> t \<Longrightarrow> t < 256 \<Longrightarrow> length c < 256 ^ 127 \<Longrightarrow> \<exists>bs. tlv t c = Inr bs"
  using der_length_total [of "length c"] by (auto simp: tlv_def py_byte_def)

lemma length_tlv:
  assumes "tlv t c = Inr bs" "length c < 256 ^ 127"
  shows "length bs \<le> length c + 129"
proof -
  obtain l where l: "der_length (int (length c)) = Inr l" "bs = word_of_int t # l @ c" by (rule tlv_shape [OF assms(1)])
  have "length l \<le> 128"
    using l(1) length_to_bytes_le [OF assms(2)] by (auto simp: der_length_def py_byte_def rbind_eq_Inr Let_def split: if_splits)
  with l(2) show ?thesis by simp
qed

lemma encodes_simple:
  assumes "t < 31" "length c < 256 ^ 127"
  shows "\<exists>bs. tlv (int t) c = Inr bs \<and> encodes bs (DerNode 0 t False c []) \<and> length bs \<le> length c + 129"
proof -
  obtain bs where bs: "tlv (int t) c = Inr bs" using tlv_total [of "int t" c] assms by auto
  have len: "length bs \<le> length c + 129" by (rule length_tlv [OF bs assms(2)])
  have "tag_ok (int t)" "even (int t div 32)" "nat (int t div 64) = 0" "nat (int t mod 32) = t"
    using assms(1) by (simp_all add: tag_ok_def)
  with encodes_primitive [OF bs] assms(2) bs len show ?thesis by simp
qed

subsection \<open>Integers, octet strings, times\<close>

lemma from_bytes_zero: "from_bytes (0 # raw) = from_bytes raw"
  by (simp add: from_bytes_def)

interpretation der_int: der_type der_integer der_decode_integer "\<lambda>n. 0 \<le> n \<and> n < 256 ^ 126" "\<lambda>n. 256"
proof unfold_locales
  fix x :: int
  assume x: "0 \<le> x \<and> x < 256 ^ 126"
  define raw where "raw = to_bytes (nat x)"
  define c where "c = (if x = 0 then [0] else if 128 \<le> unat (hd raw) then 0 # raw else raw)"
  have "nat x < 256 ^ 126" using x by (metis nat_less_iff of_nat_numeral of_nat_power)
  then have "length raw \<le> 126" unfolding raw_def by (rule length_to_bytes_le)
  then have c: "length c \<le> 127" by (simp add: c_def)
  then have len: "length c < 256 ^ 127" by simp
  from encodes_simple [OF _ len, of 2] c
  obtain bs where bs: "tlv 2 c = Inr bs" "encodes bs (DerNode 0 2 False c [])" "length bs \<le> 256" by auto
  moreover have "der_integer x = tlv 2 c" using x by (auto simp: der_integer_def c_def raw_def Let_def)
  moreover have "from_bytes c = nat x" "unat (hd c) < 128" "c \<noteq> []"
    using x by (auto simp: c_def raw_def from_bytes_zero)
  ultimately show "\<exists>bs node. der_integer x = Inr bs \<and> encodes bs node \<and> der_decode_integer node = Inr x \<and> length bs \<le> 256"
    using x by (intro exI [of _ bs] exI [of _ "DerNode 0 2 False c []"])
      (simp add: der_decode_integer_def expect_universal_def Let_def not_le)
qed

interpretation der_octets: der_type der_octet_string der_decode_octet_string "\<lambda>d. length d < 256 ^ 127"
  "\<lambda>d. length d + 129"
proof unfold_locales
  fix d :: bytes
  assume "length d < 256 ^ 127"
  moreover have "der_decode_octet_string (DerNode 0 4 False d []) = Inr d"
    by (simp add: der_decode_octet_string_def expect_universal_def)
  ultimately show "\<exists>bs node. der_octet_string d = Inr bs \<and> encodes bs node \<and> der_decode_octet_string node = Inr d \<and>
      length bs \<le> length d + 129"
    using encodes_simple [of 4 d] unfolding der_octet_string_def by fastforce
qed

lemma ascii_roundtrip: "ascii_encode s = Inr bs \<Longrightarrow> ascii_decode bs = Some s \<and> length bs = length s"
proof -
  assume a: "ascii_encode s = Inr bs"
  then have all: "list_all (\<lambda>c. (of_char c :: nat) < 128) s" and bs: "bs = map (\<lambda>c. word_of_nat (of_char c)) s"
    by (auto simp: ascii_encode_def split: if_splits)
  have "unat (word_of_nat (of_char c) :: byte) = of_char c" for c :: char
    by (rule unat_byte_of_nat) (rule of_char_less_256)
  with all show ?thesis by (simp add: bs ascii_decode_def list_all_iff comp_def)
qed

interpretation der_time: der_type der_generalized_time der_decode_generalized_time
  "\<lambda>s. list_all (\<lambda>c. (of_char c :: nat) < 128) s \<and> length s < 256 ^ 127" "\<lambda>s. length s + 129"
proof unfold_locales
  fix s :: string
  assume s: "list_all (\<lambda>c. (of_char c :: nat) < 128) s \<and> length s < 256 ^ 127"
  then obtain c where c: "ascii_encode s = Inr c" by (simp add: ascii_encode_def)
  have "length c < 256 ^ 127" "length c = length s" using ascii_roundtrip [OF c] s by simp_all
  moreover have "der_decode_generalized_time (DerNode 0 24 False c []) = Inr s"
    using ascii_roundtrip [OF c] by (simp add: der_decode_generalized_time_def expect_universal_def)
  ultimately show "\<exists>bs node. der_generalized_time s = Inr bs \<and> encodes bs node \<and> der_decode_generalized_time node = Inr s \<and>
      length bs \<le> length s + 129"
    using encodes_simple [of 24 c] c unfolding der_generalized_time_def by fastforce
qed

subsection \<open>Object identifiers\<close>

lemma split_on_no_sep: "c \<notin> set p \<Longrightarrow> split_on c p = [p]"
  by (induction p) auto

lemma split_on_append: "c \<notin> set p \<Longrightarrow> split_on c (p @ c # s) = p # split_on c s"
  by (induction p) auto

lemma split_on_join: "ps \<noteq> [] \<Longrightarrow> (\<And>p. p \<in> set ps \<Longrightarrow> c \<notin> set p) \<Longrightarrow> split_on c (join [c] ps) = ps"
proof (induction ps)
  case (Cons p ps)
  then show ?case by (cases "ps = []") (auto simp: split_on_no_sep join_Cons split_on_append)
qed simp

lemma int_digits_all: "s \<noteq> [] \<Longrightarrow> list_all is_digit s \<Longrightarrow> int_digits s = Some s"
proof (induction s rule: int_digits.induct)
  case (3 c d s)
  have "\<not> is_digit (CHR ''_'')" by (simp add: is_digit_def)
  with 3 show ?case by auto
qed auto

lemma digit_not_space: "is_digit c \<Longrightarrow> \<not> py_space c"
  by (auto simp: is_digit_def py_space_def Let_def)

lemma dropWhile_digits: "list_all is_digit s \<Longrightarrow> dropWhile py_space s = s"
  by (cases s) (auto simp: digit_not_space)

lemma py_int_nat_str:
  assumes "length (nat_str n) \<le> 4300"
  shows "py_int (nat_str n) = Inr (int n)"
proof -
  have d: "list_all is_digit (nat_str n)" by (rule nat_str_digits)
  have "list_all is_digit (rev (nat_str n))" using d by (simp add: list_all_iff)
  with d have "strip (nat_str n) = nat_str n" by (simp add: strip_def dropWhile_digits)
  moreover obtain x xs where x: "nat_str n = x # xs" "is_digit x" using d nat_str_nonempty [of n] by (cases "nat_str n") auto
  moreover from x(2) have "x \<noteq> CHR ''-''" "x \<noteq> CHR ''+''" by (auto simp: is_digit_def)
  ultimately show ?thesis
    using int_digits_all [OF nat_str_nonempty d] assms digits_nat_str [of n] by (simp add: py_int_def Let_def)
qed

lemma oid_loop_stack: "oid_loop (rev (arc_stack m) @ cs) 0 arcs = oid_loop cs m arcs"
proof (induction m arbitrary: cs rule: arc_stack.induct)
  case (1 m)
  show ?case
  proof (cases "m = 0")
    case False
    have "unat (word_of_nat (m mod 128 + 128) :: byte) = m mod 128 + 128"
      by (rule unat_byte_of_nat) (use mod_less_divisor [of 128 m] in linarith)
    with False 1 show ?thesis by (simp add: arc_stack.simps [of m] Let_def)
  qed (simp add: arc_stack.simps)
qed

lemma unat_low: "unat (word_of_nat (n mod 128) :: byte) = n mod 128"
  by (rule unat_byte_of_nat) (use mod_less_divisor [of 128 n] in linarith)

lemma oid_loop_arc: "oid_loop (oid_arc n @ cs) 0 arcs = oid_loop cs 0 (arcs @ [n])"
proof -
  have "n mod 128 < 128" by simp
  then show ?thesis by (simp add: oid_arc_def oid_loop_stack Let_def unat_low)
qed

lemma oid_loop_arcs:
  "oid_arcs (map int ns) = Inr (concat (map oid_arc ns))"
  "oid_loop (concat (map oid_arc ns)) 0 arcs = (0, arcs @ ns)"
  by (induction ns arbitrary: arcs) (auto simp: oid_loop_arc)

lemma last_oid: "ns \<noteq> [] \<Longrightarrow> unat (last (concat (map oid_arc ns))) < 128"
proof (induction ns)
  case (Cons n ns)
  have "n mod 128 < 128" by simp
  with Cons show ?case by (cases "ns = []") (auto simp: oid_arc_def unat_low last_append)
qed simp

lemma length_arc_stack: "n < 128 ^ k \<Longrightarrow> length (arc_stack n) \<le> k"
proof (induction n arbitrary: k rule: arc_stack.induct)
  case (1 n)
  show ?case
  proof (cases "n = 0")
    case False
    then obtain j where j: "k = Suc j" using 1(2) by (cases k) auto
    with 1(2) have "n div 128 < 128 ^ j" by (simp add: less_mult_imp_div_less mult.commute)
    with 1(1) [OF False] False show ?thesis by (simp add: arc_stack.simps [of n] j)
  qed (simp add: arc_stack.simps)
qed

definition oid_text :: "nat list \<Rightarrow> string" where
  "oid_text arcs = join ''.'' (map nat_str arcs)"

text \<open>The identifiers that the encoder is meant for: the second arc below 40, further arcs of 63 bits.\<close>

definition oid_ok :: "nat list \<Rightarrow> bool" where
  "oid_ok arcs = (case arcs of a # b # ns \<Rightarrow> a \<le> 2 \<and> b \<le> 39 \<and> (\<forall>n \<in> set ns. n < 2 ^ 63) \<and> length ns < 2 ^ 32 | _ \<Rightarrow> False)"

lemma length_oid_text: "length arcs \<le> length (oid_text arcs)"
proof (induction arcs)
  case (Cons n ns)
  have "nat_str n \<noteq> []" by simp
  then have "1 \<le> length (nat_str n)" by (cases "nat_str n") auto
  with Cons show ?case by (cases "ns = []") (auto simp: oid_text_def join_Cons)
qed (simp add: oid_text_def)

lemma oid_encoded:
  assumes "oid_ok arcs"
  shows "\<exists>bs node. der_oid (oid_text arcs) = Inr bs \<and> encodes bs node \<and> der_decode_oid node = Inr (oid_text arcs) \<and>
    length bs \<le> 10 * length (oid_text arcs) + 130"
proof -
  obtain a b ns where arcs: "arcs = a # b # ns" and a: "a \<le> 2" and b: "b \<le> 39" and ns: "\<forall>n \<in> set ns. n < 2 ^ 63" "length ns < 2 ^ 32"
    using assms by (auto simp: oid_ok_def split: list.splits)
  have dig: "length (nat_str n) \<le> 4300" if "n \<in> set arcs" for n
  proof -
    have "n < 2 ^ 63" using that a b ns(1) by (auto simp: arcs)
    then have "n < 10 ^ 19" by simp
    then show ?thesis using length_nat_str_le [of n 19] by simp
  qed
  have nodot: "CHR ''.'' \<notin> set (nat_str n)" for n
    using nat_str_digits [of n] by (auto simp: list_all_iff is_digit_def)
  define w :: byte where "w = word_of_int (40 * int a + int b)"
  have "split_on (CHR ''.'') (oid_text arcs) = map nat_str arcs"
    unfolding oid_text_def using nodot by (intro split_on_join) (auto simp: arcs)
  moreover have "rmap py_int (map nat_str arcs) = Inr (map int arcs)"
    using dig py_int_nat_str by (induction arcs) auto
  ultimately have enc: "der_oid (oid_text arcs) = tlv 6 (w # concat (map oid_arc ns))"
    using a b by (simp add: der_oid_def arcs py_byte_def oid_loop_arcs(1) w_def)
  let ?c = "w # concat (map oid_arc ns)"
  have room: "length (concat (map oid_arc ns)) \<le> 10 * length ns"
    using ns(1)
  proof (induction ns)
    case (Cons n ns)
    have "n div 128 < 128 ^ 9" using Cons.prems by (simp add: less_mult_imp_div_less)
    from length_arc_stack [OF this] Cons show ?case by (simp add: oid_arc_def)
  qed simp
  with ns(2) have len: "length ?c < 256 ^ 127" by simp
  have "length bs \<le> length ?c + 129 \<Longrightarrow> length bs \<le> 10 * length (oid_text arcs) + 130" for bs :: bytes
    using room length_oid_text [of arcs] by (simp add: arcs)
  then obtain bs where bs: "tlv 6 ?c = Inr bs" "encodes bs (DerNode 0 6 False ?c [])"
      "length bs \<le> 10 * length (oid_text arcs) + 130"
    using encodes_simple [OF _ len, of 6] by auto
  have first: "unat w = 40 * a + b"
    unfolding w_def using a b by (subst unat_word_of_int_byte) auto
  then have div: "unat w div 40 = a" "unat w mod 40 = b" using b by simp_all
  have lst: "unat (last ?c) < 128"
    using last_oid [of ns] first a b by (cases "ns = []") (auto simp: oid_arc_def)
  have "rmap (\<lambda>n. int_to_str (int n)) arcs = Inr (map nat_str arcs)"
    by (intro rmap_Inr_all) (use dig in \<open>auto simp: int_to_str_def int_str_def not_less\<close>)
  then have "der_decode_oid (DerNode 0 6 False ?c []) = Inr (oid_text arcs)"
    using lst by (simp add: der_decode_oid_def expect_universal_def div oid_loop_arcs(2) oid_text_def arcs del: last.simps)
  with enc bs show ?thesis by auto
qed

interpretation der_oids: der_type der_oid der_decode_oid "\<lambda>s. \<exists>arcs. s = oid_text arcs \<and> oid_ok arcs"
  "\<lambda>s. 10 * length s + 130"
  using oid_encoded by unfold_locales blast

subsection \<open>Times\<close>

text \<open>The GeneralizedTime text of a UTC instant.\<close>

definition gt_digits :: "datetime \<Rightarrow> string" where
  "gt_digits t = pad 4 (dt_year t) @ pad 2 (dt_month t) @ pad 2 (dt_day t) @
     pad 2 (dt_hour t) @ pad 2 (dt_minute t) @ pad 2 (dt_second t)"

definition gt_text :: "datetime \<Rightarrow> string" where
  "gt_text t = gt_digits t @ (if dt_micro t = 0 then [] else ''.'' @ pad 6 (dt_micro t)) @ ''Z''"

text \<open>The fields fit their columns.\<close>

definition gt_fields :: "datetime \<Rightarrow> bool" where
  "gt_fields t = (dt_year t < 10 ^ 4 \<and> dt_month t < 10 ^ 2 \<and> dt_day t < 10 ^ 2 \<and> dt_hour t < 10 ^ 2 \<and> dt_minute t < 10 ^ 2 \<and>
     dt_second t < 10 ^ 2 \<and> dt_micro t < 10 ^ 6)"

lemma gt_digits_length: "gt_fields t \<Longrightarrow> length (gt_digits t) = 14"
  by (simp add: gt_fields_def gt_digits_def length_pad del: power_numeral)

lemma gt_match_text:
  assumes "gt_fields t"
  shows "gt_match (gt_text t) = Some (gt_digits t, if dt_micro t = 0 then [] else pad 6 (dt_micro t), ''Z'')"
proof -
  have d: "list_all is_digit (gt_digits t)" by (simp add: gt_digits_def pad_digits)
  have "takeWhile is_digit (pad 6 n @ ''Z'') = pad 6 n" "dropWhile is_digit (pad 6 n @ ''Z'') = ''Z''" for n
    using pad_digits [of 6 n] by (simp_all add: takeWhile_append2 dropWhile_append2 list_all_iff is_digit_def)
  moreover have "pad 6 n \<noteq> []" for n by (simp add: pad_def Let_def)
  ultimately show ?thesis
    using d gt_digits_length [OF assms] by (simp add: gt_match_def gt_text_def gt_zone_def)
qed

lemma generalized_time_text:
  assumes "gt_fields t" "dt_offset t = Some 0"
  shows "generalized_time_to_iso (gt_text t) = rbind (mk_datetime t) (\<lambda>t. Inr (isoformat t))"
proof -
  have len: "length (pad 4 (dt_year t)) = 4" "length (pad 2 (dt_month t)) = 2" "length (pad 2 (dt_day t)) = 2"
      "length (pad 2 (dt_hour t)) = 2" "length (pad 2 (dt_minute t)) = 2" "length (pad 2 (dt_second t)) = 2"
      "length (pad 6 (dt_micro t)) = 6"
    using assms(1) by (simp_all add: gt_fields_def length_pad del: power_numeral)
  have "digits_val (ljust0 6 ''0'') = 0" by (simp add: ljust0_def digits_val_def digits_nat_def is_digit_def digit_val_def numeral_eq_Suc)
  moreover have "pad 6 n \<noteq> []" for n by (simp add: pad_def Let_def)
  moreover have "ljust0 6 (pad 6 (dt_micro t)) = pad 6 (dt_micro t)" using len(7) by (simp add: ljust0_def)
  moreover have "t = \<lparr>dt_year = dt_year t, dt_month = dt_month t, dt_day = dt_day t, dt_hour = dt_hour t,
      dt_minute = dt_minute t, dt_second = dt_second t, dt_micro = dt_micro t, dt_offset = Some 0\<rparr>"
    using assms(2) by (cases t) simp
  ultimately show ?thesis
    using len by (cases "dt_micro t = 0") (simp_all add: generalized_time_to_iso_def gt_match_text [OF assms(1)] gt_digits_def Let_def)
qed

lemma valid_gt_fields: "valid_datetime t \<Longrightarrow> gt_fields t"
proof -
  have "days_in_month y m \<le> 31" for y m by (simp add: days_in_month_def)
  then show "valid_datetime t \<Longrightarrow> gt_fields t"
    using order_trans [of "dt_day t" "days_in_month (dt_year t) (dt_month t)" 31] by (auto simp: valid_datetime_def gt_fields_def)
qed

lemma gt_text_ascii:
  assumes "gt_fields t"
  shows "list_all (\<lambda>c. (of_char c :: nat) < 128) (gt_text t)" "length (gt_text t) \<le> 1000"
proof -
  have "is_digit c \<Longrightarrow> (of_char c :: nat) < 128" for c by (simp add: is_digit_def Let_def)
  then have "list_all (\<lambda>c. (of_char c :: nat) < 128) (pad w n)" for w n using pad_digits [of w n] by (auto simp: list_all_iff)
  then show "list_all (\<lambda>c. (of_char c :: nat) < 128) (gt_text t)" by (simp add: gt_text_def gt_digits_def)
  have "length (pad 6 (dt_micro t)) = 6" using assms by (simp add: gt_fields_def length_pad del: power_numeral)
  then show "length (gt_text t) \<le> 1000" using gt_digits_length [OF assms] by (simp add: gt_text_def)
qed

end
