(* ===== verification/Url.thy ===== *)
theory Url
  imports Der
begin

text \<open>
  What the timestamp client uses of \<^verbatim>\<open>urllib.parse\<close> and \<^verbatim>\<open>base64\<close>: \<^verbatim>\<open>urlsplit\<close> with the attributes of its result,
  \<^verbatim>\<open>unquote\<close> followed by \<^verbatim>\<open>encode\<close>, and \<^verbatim>\<open>b64encode\<close>. Hosts in square brackets (IPv6 literals) and percent escapes
  that are not UTF-8 are outside the modelled fragment.
\<close>

section \<open>Text\<close>

definition lower_char :: "char \<Rightarrow> char" where
  "lower_char c = (let n = of_char c :: nat in
     if (65 \<le> n \<and> n \<le> 90) \<or> (192 \<le> n \<and> n \<le> 222 \<and> n \<noteq> 215) then char_of (n + 32) else c)"

definition py_lower :: "string \<Rightarrow> string" where
  "py_lower s = map lower_char s"

definition ascii_upper :: "string \<Rightarrow> string" where
  "ascii_upper s = map (\<lambda>c. let n = of_char c :: nat in if 97 \<le> n \<and> n \<le> 122 then char_of (n - 32) else c) s"

definition is_ascii :: "char \<Rightarrow> bool" where
  "is_ascii c = ((of_char c :: nat) < 128)"

definition is_letter :: "char \<Rightarrow> bool" where
  "is_letter c = (let n = of_char c :: nat in (65 \<le> n \<and> n \<le> 90) \<or> (97 \<le> n \<and> n \<le> 122))"

text \<open>\<^verbatim>\<open>s.rpartition(c)\<close>, when \<open>c\<close> occurs.\<close>

definition rsplit_at :: "char \<Rightarrow> string \<Rightarrow> (string \<times> string) option" where
  "rsplit_at c s = map_option (\<lambda>(a, b). (rev b, rev a)) (split_at c (rev s))"

section \<open>\<^verbatim>\<open>urlsplit\<close>\<close>

record split_result =
  sr_scheme :: string
  sr_netloc :: string
  sr_path :: string
  sr_query :: string

definition split_scheme :: "string \<Rightarrow> string \<times> string" where
  "split_scheme url =
     (case split_at (CHR '':'') url of
        Some (pre, rest) \<Rightarrow>
          if pre \<noteq> [] \<and> is_letter (hd pre) \<and> list_all (\<lambda>c. is_letter c \<or> is_digit c \<or> c \<in> set ''+-.'') pre
          then (py_lower pre, rest) else ([], url)
      | None \<Rightarrow> ([], url))"

definition urlsplit :: "string \<Rightarrow> split_result res" where
  "urlsplit url =
     (let url = filter (\<lambda>c. c \<notin> {CHR 0x09, CHR 0x0A, CHR 0x0D}) (dropWhile (\<lambda>c. (of_char c :: nat) \<le> 32) url);
          (scheme, rest) = split_scheme url;
          has_netloc = (take 2 rest = ''//'');
          netloc = (if has_netloc then takeWhile (\<lambda>c. c \<notin> set ''/?#'') (drop 2 rest) else []);
          rest = (if has_netloc then dropWhile (\<lambda>c. c \<notin> set ''/?#'') (drop 2 rest) else rest);
          opening = (CHR ''['' \<in> set netloc);
          closing = (CHR '']'' \<in> set netloc) in
      if opening \<noteq> closing then Inl (ValueError ''Invalid IPv6 URL'')
      else if opening then Inl (IllTyped ''bracketed host'')
      else
        (let rest = (case split_at (CHR ''#'') rest of Some (a, _) \<Rightarrow> a | None \<Rightarrow> rest);
             (path, query) = (case split_at (CHR ''?'') rest of Some (a, b) \<Rightarrow> (a, b) | None \<Rightarrow> (rest, [])) in
         Inr \<lparr>sr_scheme = scheme, sr_netloc = netloc, sr_path = path, sr_query = query\<rparr>))"

definition hostinfo :: "split_result \<Rightarrow> string \<times> string option" where
  "hostinfo r =
     (let info = (case rsplit_at (CHR ''@'') (sr_netloc r) of Some (_, b) \<Rightarrow> b | None \<Rightarrow> sr_netloc r) in
      case split_at (CHR '':'') info of
        Some (h, p) \<Rightarrow> (h, if p = [] then None else Some p)
      | None \<Rightarrow> (info, None))"

text \<open>\<^verbatim>\<open>hostname\<close>: lower case up to a zone identifier.\<close>

definition url_hostname :: "split_result \<Rightarrow> string option" where
  "url_hostname r =
     (let h = fst (hostinfo r) in
      if h = [] then None
      else Some (case split_at (CHR ''%'') h of Some (a, zone) \<Rightarrow> py_lower a @ ''%'' @ zone | None \<Rightarrow> py_lower h))"

definition url_port :: "split_result \<Rightarrow> int option res" where
  "url_port r =
     (case snd (hostinfo r) of
        None \<Rightarrow> Inr None
      | Some p \<Rightarrow>
          if list_all is_digit p \<and> digits_val p \<le> 65535 then Inr (Some (int (digits_val p)))
          else Inl (ValueError ''port''))"

text \<open>User name and password.\<close>

definition userinfo :: "split_result \<Rightarrow> string option \<times> string option" where
  "userinfo r =
     (case rsplit_at (CHR ''@'') (sr_netloc r) of
        None \<Rightarrow> (None, None)
      | Some (info, _) \<Rightarrow>
          (case split_at (CHR '':'') info of Some (u, p) \<Rightarrow> (Some u, Some p) | None \<Rightarrow> (Some info, None)))"

section \<open>\<^verbatim>\<open>unquote(s).encode()\<close>\<close>

definition hex_byte :: "string \<Rightarrow> byte option" where
  "hex_byte s = (if length s = 2 then (case fromhex s of Inr [b] \<Rightarrow> Some b | _ \<Rightarrow> None) else None)"

function unquote_to_bytes :: "string \<Rightarrow> bytes" where
  "unquote_to_bytes [] = []"
| "unquote_to_bytes (c # s) =
     (case (if c = CHR ''%'' then hex_byte (take 2 s) else None) of
        Some b \<Rightarrow> b # unquote_to_bytes (drop 2 s)
      | None \<Rightarrow> word_of_nat (of_char c) # unquote_to_bytes s)"
  by pat_completeness auto
termination by (relation "measure length") auto

text \<open>ASCII runs are unquoted and have to decode; the characters between them stay.\<close>

function unquote_encode :: "string \<Rightarrow> bytes res" where
  "unquote_encode [] = Inr []"
| "unquote_encode (c # s) =
     (if is_ascii c then
        (let b = unquote_to_bytes (takeWhile is_ascii (c # s)) in
         if utf8_decode b = None then Inl (IllTyped ''percent escape'')
         else rbind (unquote_encode (dropWhile is_ascii s)) (\<lambda>r. Inr (b @ r)))
      else rbind (unquote_encode s) (\<lambda>r. Inr (utf8_char c @ r)))"
  by pat_completeness auto
termination by (relation "measure length") (auto simp: le_imp_less_Suc length_dropWhile_le)

section \<open>\<^verbatim>\<open>b64encode\<close>\<close>

definition base64_char :: "nat \<Rightarrow> char" where
  "base64_char n = char_of (if n < 26 then n + 65 else if n < 52 then n + 71 else if n < 62 then n - 4 else if n = 62 then 43 else 47)"

definition base64_group :: "nat \<Rightarrow> string" where
  "base64_group n = map (\<lambda>k. base64_char (n div 64 ^ k mod 64)) [3, 2, 1, 0]"

fun base64_encode :: "bytes \<Rightarrow> string" where
  "base64_encode (a # b # c # bs) = base64_group (unat a * 65536 + unat b * 256 + unat c) @ base64_encode bs"
| "base64_encode [a, b] = take 3 (base64_group (unat a * 65536 + unat b * 256)) @ ''=''"
| "base64_encode [a] = take 2 (base64_group (unat a * 65536)) @ ''==''"
| "base64_encode [] = []"

end
