(* ===== verification/PyNumber.thy ===== *)
theory PyNumber
  imports Url FloatText
begin

text \<open>
  \<^verbatim>\<open>int()\<close> and \<^verbatim>\<open>float()\<close> of a string, as the service uses them on its environment variables: surrounding white space,
  a sign, digit groups with underscores, the names of the infinities and of NaN. Both read back what Python prints.
\<close>

section \<open>The constructors\<close>

text \<open>White space here is narrower than that of \<^verbatim>\<open>str.strip\<close>: the separators 28 to 31 are not part of it.\<close>

definition num_space :: "char \<Rightarrow> bool" where
  "num_space c = (let n = of_char c :: nat in n = 32 \<or> (9 \<le> n \<and> n \<le> 13) \<or> n = 133 \<or> n = 160)"

definition num_strip :: "string \<Rightarrow> string" where
  "num_strip s = rev (dropWhile num_space (rev (dropWhile num_space s)))"

text \<open>Underscores are allowed between digits only.\<close>

fun drop_underscores :: "bool \<Rightarrow> string \<Rightarrow> string option" where
  "drop_underscores after_digit [] = Some []"
| "drop_underscores after_digit (c # s) =
     (if c = CHR ''_'' then (if after_digit \<and> s \<noteq> [] \<and> is_digit (hd s) then drop_underscores False s else None)
      else map_option (Cons c) (drop_underscores (is_digit c) s))"

definition split_sign :: "string \<Rightarrow> bool \<times> string" where
  "split_sign t = (take 1 t = ''-'', if take 1 t = ''-'' \<or> take 1 t = ''+'' then drop 1 t else t)"

definition int_literal :: "string \<Rightarrow> int res" where
  "int_literal t =
     (let (neg, ds) = split_sign t in
      if ds = [] \<or> \<not> list_all is_digit ds then Inl (ValueError ''invalid literal for int()'')
      else if 4300 < length ds then Inl (ValueError ''Exceeds the limit (4300 digits)'')
      else Inr (if neg then - int (digits_val ds) else int (digits_val ds)))"

definition py_int :: "string \<Rightarrow> int res" where
  "py_int s =
     (case drop_underscores False (num_strip s) of
        None \<Rightarrow> Inl (ValueError ''invalid literal for int()'') | Some t \<Rightarrow> int_literal t)"

definition float_fraction :: "string \<Rightarrow> string \<times> string" where
  "float_fraction r = (if take 1 r = ''.'' then (takeWhile is_digit (drop 1 r), dropWhile is_digit (drop 1 r)) else ([], r))"

definition float_digits :: "bool \<Rightarrow> string \<Rightarrow> pyfloat res" where
  "float_digits neg u =
     (let ip = takeWhile is_digit u;
          (fp, r2) = float_fraction (dropWhile is_digit u);
          (ep, r3) = scan_exponent r2 in
      if ip @ fp = [] \<or> r3 \<noteq> [] then Inl (ValueError ''could not convert string to float'')
      else Inr (read_float neg (ip @ fp) ((case ep of None \<Rightarrow> 0 | Some e \<Rightarrow> e) - int (length fp))))"

definition float_literal :: "string \<Rightarrow> pyfloat res" where
  "float_literal t =
     (let (neg, u) = split_sign t in
      if py_lower u = ''inf'' \<or> py_lower u = ''infinity'' then Inr (if neg then NInf else PInf)
      else if py_lower u = ''nan'' then Inr NaN
      else float_digits neg u)"

definition py_float :: "string \<Rightarrow> pyfloat res" where
  "py_float s =
     (case drop_underscores False (num_strip s) of
        None \<Rightarrow> Inl (ValueError ''could not convert string to float'') | Some t \<Rightarrow> float_literal t)"

section \<open>Texts of numbers\<close>

text \<open>The characters of a JSON number: none is white space or an underscore.\<close>

definition num_char :: "char \<Rightarrow> bool" where
  "num_char c = (is_digit c \<or> c \<in> {CHR ''.'', CHR ''e'', CHR ''E'', CHR ''+'', CHR ''-''})"

lemma num_char_plain: "num_char c \<Longrightarrow> \<not> num_space c" "num_char c \<Longrightarrow> c \<noteq> CHR ''_''"
  by (auto simp: num_char_def is_digit_def num_space_def Let_def)

lemma strip_plain: "list_all (\<lambda>c. \<not> num_space c) s \<Longrightarrow> num_strip s = s"
proof -
  have d: "list_all (\<lambda>c. \<not> num_space c) s \<Longrightarrow> dropWhile num_space s = s" for s by (cases s) simp_all
  show "list_all (\<lambda>c. \<not> num_space c) s \<Longrightarrow> ?thesis" by (simp add: num_strip_def d)
qed

lemma drop_underscores_plain: "CHR ''_'' \<notin> set s \<Longrightarrow> drop_underscores b s = Some s"
  by (induction s arbitrary: b) auto

lemma plain_number: "list_all num_char s \<Longrightarrow> drop_underscores False (num_strip s) = Some s"
  using num_char_plain by (subst strip_plain) (auto simp: list_all_iff intro: drop_underscores_plain)

lemma plain_int: "list_all num_char s \<Longrightarrow> py_int s = int_literal s"
  by (simp add: py_int_def plain_number)

lemma plain_float: "list_all num_char s \<Longrightarrow> py_float s = float_literal s"
  by (simp add: py_float_def plain_number)

lemma digits_num: "list_all is_digit s \<Longrightarrow> list_all num_char s"
  by (auto simp: list_all_iff num_char_def)

lemma py_int_str: "length (nat_str (nat \<bar>i\<bar>)) \<le> 4300 \<Longrightarrow> py_int (int_str i) = Inr i"
proof -
  have sign: "take 1 (nat_str n) \<noteq> ''-''" "take 1 (nat_str n) \<noteq> ''+''" for n
    using nat_str_digits [of n] by (cases "nat_str n"; auto simp: is_digit_def)+
  have num: "list_all num_char (int_str i)"
    using digits_num [OF nat_str_digits] by (simp add: int_str_def num_char_def)
  show "length (nat_str (nat \<bar>i\<bar>)) \<le> 4300 \<Longrightarrow> ?thesis"
    unfolding plain_int [OF num] int_literal_def split_sign_def
    using sign [of "nat i"] nat_str_digits by (cases "i < 0") (simp_all add: abs_if int_str_def)
qed

lemma scan_fraction_split:
  "scan_fraction s = (fp, r) \<Longrightarrow> (fp = [] \<and> r = s) \<or> (fp \<noteq> [] \<and> list_all is_digit fp \<and> s = CHR ''.'' # fp @ r \<and> float_fraction s = (fp, r))"
  by (cases s) (auto simp: scan_fraction_def float_fraction_def Let_def list_all_iff dest: set_takeWhileD split: if_splits)

lemma scan_exponent_chars: "scan_exponent s = (ep, []) \<Longrightarrow> list_all num_char s \<and> \<not> is_digit (hd (s @ ''e'')) \<and> take 1 s \<noteq> ''.''"
proof (cases s)
  case (Cons c t)
  assume e: "scan_exponent s = (ep, [])"
  then have c: "c = CHR ''e'' \<or> c = CHR ''E''" by (auto simp: Cons scan_exponent_def Let_def split: if_splits)
  define u where "u = (if take 1 t = ''+'' \<or> take 1 t = ''-'' then drop 1 t else t)"
  have "dropWhile is_digit u = []" using e c by (auto simp: Cons scan_exponent_def Let_def u_def split: if_splits)
  then have "list_all is_digit u" by (simp add: dropWhile_eq_Nil_conv list_all_iff)
  then have "list_all num_char t" using digits_num [of u] by (cases t) (auto simp: u_def num_char_def split: if_splits)
  with c show ?thesis by (auto simp: Cons num_char_def is_digit_def)
qed (simp add: is_digit_def)

text \<open>Every JSON number with a fraction or an exponent is a text that \<^verbatim>\<open>float()\<close> reads, with the same value.\<close>

lemma py_float_number:
  assumes "scan_number t = Inr (PFloat x, [])"
  shows "py_float t = Inr x"
proof -
  define neg where "neg = (take 1 t = ''-'')"
  define r where "r = (if neg then drop 1 t else t)"
  obtain fp r2 ep where f: "scan_fraction (drop (length (int_part r)) r) = (fp, r2)" "scan_exponent r2 = (ep, [])"
    "int_part r \<noteq> []" "x = read_float neg (int_part r @ fp) ((case ep of None \<Rightarrow> 0 | Some e \<Rightarrow> e) - int (length fp))"
    using assms by (auto simp: scan_number_def Let_def neg_def r_def number_val_def rbind_eq_Inr split: prod.splits if_splits)
  define rest where "rest = drop (length (int_part r)) r"
  have ip: "list_all is_digit (int_part r)"
    by (auto simp: int_part_def is_digit_def list_all_iff dest: set_takeWhileD)
  have r: "r = int_part r @ rest"
  proof (cases "take 1 r = ''0''")
    case True
    then show ?thesis by (cases r) (simp_all add: int_part_def rest_def)
  next
    case False
    then show ?thesis unfolding rest_def int_part_def by (simp add: dropWhile_eq_drop [symmetric])
  qed
  from scan_exponent_chars [OF f(2)] have e: "list_all num_char r2" "\<not> is_digit (hd (r2 @ ''e''))" "take 1 r2 \<noteq> ''.''" by auto
  have frac: "float_fraction rest = (fp, r2)" "list_all num_char rest" "\<not> is_digit (hd (rest @ ''e''))"
    using scan_fraction_split [OF f(1) [folded rest_def]] e digits_num [of fp]
    by (auto simp: float_fraction_def num_char_def is_digit_def)
  have span: "takeWhile is_digit r = int_part r" "dropWhile is_digit r = rest"
    using ip frac(3) by (subst r, cases rest, simp_all add: list_all_iff)+
  have num: "list_all num_char r" using r frac(2) digits_num [OF ip] by (metis list_all_append)
  have digits: "float_digits neg r = Inr x"
    by (simp add: float_digits_def span frac(1) f(2) f(3) f(4))
  obtain c r' where c: "r = c # r'" "is_digit c" using f(3) ip r by (cases "int_part r") auto
  have t: "list_all num_char t" "split_sign t = (neg, r)"
    using c num by (cases t; auto simp: r_def neg_def split_sign_def num_char_def is_digit_def split: if_splits)+
  have "lower_char c = c" using c(2) by (auto simp: lower_char_def is_digit_def Let_def)
  then have "py_lower r \<noteq> ''inf''" "py_lower r \<noteq> ''infinity''" "py_lower r \<noteq> ''nan''"
    using c by (auto simp: py_lower_def is_digit_def)
  with t digits show ?thesis by (simp add: plain_float float_literal_def)
qed

lemma py_float_str: "wf_float x \<Longrightarrow> py_float (json_float x) = Inr x"
proof -
  have "py_float ''Infinity'' = Inr PInf" "py_float ''-Infinity'' = Inr NInf" "py_float ''NaN'' = Inr NaN" by code_simp+
  then show "wf_float x \<Longrightarrow> ?thesis" using float_text_reads [of x] py_float_number by (auto simp: float_reads_def)
qed

end
