(* ===== verification/Events.thy ===== *)
theory Events
  imports MerkleAnchor
begin

text \<open>
  \<^verbatim>\<open>domain/events.py\<close>: the event classes as records, and the validation of a raw payload against a class (what Pydantic
  does with the declarations; coercions are the parameter \<open>pydantic\<close>). A class ignores undeclared fields. The bus
  handlers never validate: the properties say what a payload that conforms to its class is guaranteed, and that the
  payloads Core itself writes conform to theirs.
\<close>

section \<open>Fields\<close>

definition f_required :: "(pyval \<Rightarrow> 'a option) \<Rightarrow> pydict \<Rightarrow> string \<Rightarrow> 'a res" where
  "f_required v p k = (case Option.bind (map_of p k) v of None \<Rightarrow> Inl (ValidationError k) | Some x \<Rightarrow> Inr x)"

definition f_default :: "'a \<Rightarrow> (pyval \<Rightarrow> 'a option) \<Rightarrow> pydict \<Rightarrow> string \<Rightarrow> 'a res" where
  "f_default d v p k = (if map_of p k = None then Inr d else f_required v p k)"

definition v_optional :: "(pyval \<Rightarrow> 'a option) \<Rightarrow> pyval \<Rightarrow> 'a option option" where
  "v_optional v x = (if x = PNone then Some None else map_option Some (v x))"

definition v_unit_interval :: "pydantic \<Rightarrow> pyval \<Rightarrow> pyfloat option" where
  "v_unit_interval P v = (case v_float P v of Some x \<Rightarrow> if fle (Fin 0) x \<and> fle x (Fin 1) then Some x else None | None \<Rightarrow> None)"

text \<open>\<^verbatim>\<open>event_type: Literal[name] = name\<close>.\<close>

definition f_literal :: "pydict \<Rightarrow> string \<Rightarrow> string res" where
  "f_literal p name = f_default name (\<lambda>v. if v = PStr name then Some name else None) p ''event_type''"

definition f_runtime_context :: "pydict \<Rightarrow> pyval" where
  "f_runtime_context p = dict_get p ''runtime_context'' (PDict [])"

abbreviation "f_str P \<equiv> f_required (v_str P)"
abbreviation "f_any \<equiv> f_required Some"
abbreviation "f_int P \<equiv> f_required (v_int P)"
abbreviation "f_datetime P \<equiv> f_required (v_datetime P)"
abbreviation "f_str_list P \<equiv> f_required (v_str_list P)"
abbreviation "f_str_list_default P \<equiv> f_default [] (v_str_list P)"
abbreviation "f_severity P \<equiv> f_default (Fin 0) (v_unit_interval P)"
abbreviation "f_opt_float P \<equiv> f_required (v_optional (v_float P))"
abbreviation "f_opt_str P \<equiv> f_required (v_optional (v_str P))"

section \<open>Classes\<close>

record metric_proposed =
  ep_runtime_context :: pyval
  ep_decision_id :: string
  ep_metric_name :: string
  ep_value :: pyval
  ep_idempotency_key :: string
  ep_proposed_by :: string
  ep_occurred_at :: datetime

definition validate_metric_proposed :: "pydantic \<Rightarrow> pydict \<Rightarrow> metric_proposed res" where
  "validate_metric_proposed P p =
     rbind (f_literal p ''MetricProposed'') (\<lambda>_.
     rbind (f_str P p ''decision_id'') (\<lambda>x_decision_id.
     rbind (f_str P p ''metric_name'') (\<lambda>x_metric_name.
     rbind (f_any p ''value'') (\<lambda>x_value.
     rbind (f_str P p ''idempotency_key'') (\<lambda>x_idempotency_key.
     rbind (f_str P p ''proposed_by'') (\<lambda>x_proposed_by.
     rbind (f_datetime P p ''occurred_at'') (\<lambda>x_occurred_at.
       Inr \<lparr>ep_runtime_context = f_runtime_context p, ep_decision_id = x_decision_id,
            ep_metric_name = x_metric_name, ep_value = x_value, ep_idempotency_key = x_idempotency_key,
            ep_proposed_by = x_proposed_by, ep_occurred_at = x_occurred_at\<rparr>)))))))"

record debate_outcome =
  ed_runtime_context :: pyval
  ed_decision_id :: string
  ed_metric_name :: string
  ed_consensus_value :: pyval
  ed_dissent_refs :: "string list"
  ed_occurred_at :: datetime

definition validate_debate_outcome :: "pydantic \<Rightarrow> pydict \<Rightarrow> debate_outcome res" where
  "validate_debate_outcome P p =
     rbind (f_literal p ''DebateOutcome'') (\<lambda>_.
     rbind (f_str P p ''decision_id'') (\<lambda>x_decision_id.
     rbind (f_str P p ''metric_name'') (\<lambda>x_metric_name.
     rbind (f_any p ''consensus_value'') (\<lambda>x_consensus_value.
     rbind (f_str_list_default P p ''dissent_refs'') (\<lambda>x_dissent_refs.
     rbind (f_datetime P p ''occurred_at'') (\<lambda>x_occurred_at.
       Inr \<lparr>ed_runtime_context = f_runtime_context p, ed_decision_id = x_decision_id,
            ed_metric_name = x_metric_name, ed_consensus_value = x_consensus_value, ed_dissent_refs = x_dissent_refs,
            ed_occurred_at = x_occurred_at\<rparr>))))))"

record risk_signal =
  ek_runtime_context :: pyval
  ek_decision_id :: string
  ek_metric_name :: string
  ek_risk_level :: string
  ek_severity :: pyfloat
  ek_contradiction_flags :: "string list"
  ek_occurred_at :: datetime

definition validate_risk_signal :: "pydantic \<Rightarrow> pydict \<Rightarrow> risk_signal res" where
  "validate_risk_signal P p =
     rbind (f_literal p ''RiskSignal'') (\<lambda>_.
     rbind (f_str P p ''decision_id'') (\<lambda>x_decision_id.
     rbind (f_str P p ''metric_name'') (\<lambda>x_metric_name.
     rbind (f_str P p ''risk_level'') (\<lambda>x_risk_level.
     rbind (f_severity P p ''severity'') (\<lambda>x_severity.
     rbind (f_str_list_default P p ''contradiction_flags'') (\<lambda>x_contradiction_flags.
     rbind (f_datetime P p ''occurred_at'') (\<lambda>x_occurred_at.
       Inr \<lparr>ek_runtime_context = f_runtime_context p, ek_decision_id = x_decision_id,
            ek_metric_name = x_metric_name, ek_risk_level = x_risk_level, ek_severity = x_severity,
            ek_contradiction_flags = x_contradiction_flags, ek_occurred_at = x_occurred_at\<rparr>)))))))"

record reconciled_decision =
  ec_runtime_context :: pyval
  ec_decision_id :: string
  ec_metric_name :: string
  ec_final_value :: pyval
  ec_resolution_method :: string
  ec_evidence_refs :: "string list"
  ec_idempotency_key :: string
  ec_proposed_by :: string
  ec_occurred_at :: datetime

definition validate_reconciled_decision :: "pydantic \<Rightarrow> pydict \<Rightarrow> reconciled_decision res" where
  "validate_reconciled_decision P p =
     rbind (f_literal p ''ReconciledDecision'') (\<lambda>_.
     rbind (f_str P p ''decision_id'') (\<lambda>x_decision_id.
     rbind (f_str P p ''metric_name'') (\<lambda>x_metric_name.
     rbind (f_any p ''final_value'') (\<lambda>x_final_value.
     rbind (f_str P p ''resolution_method'') (\<lambda>x_resolution_method.
     rbind (f_str_list_default P p ''evidence_refs'') (\<lambda>x_evidence_refs.
     rbind (f_str P p ''idempotency_key'') (\<lambda>x_idempotency_key.
     rbind (f_str P p ''proposed_by'') (\<lambda>x_proposed_by.
     rbind (f_datetime P p ''occurred_at'') (\<lambda>x_occurred_at.
       Inr \<lparr>ec_runtime_context = f_runtime_context p, ec_decision_id = x_decision_id,
            ec_metric_name = x_metric_name, ec_final_value = x_final_value, ec_resolution_method = x_resolution_method,
            ec_evidence_refs = x_evidence_refs, ec_idempotency_key = x_idempotency_key, ec_proposed_by = x_proposed_by,
            ec_occurred_at = x_occurred_at\<rparr>)))))))))"

record metric_committed =
  em_decision_id :: string
  em_metric_name :: string
  em_value :: pyval
  em_evidence_refs :: "string list"
  em_idempotency_key :: string
  em_leaf_hash :: string
  em_committed_at :: datetime

definition validate_metric_committed :: "pydantic \<Rightarrow> pydict \<Rightarrow> metric_committed res" where
  "validate_metric_committed P p =
     rbind (f_literal p ''MetricCommitted'') (\<lambda>_.
     rbind (f_str P p ''decision_id'') (\<lambda>x_decision_id.
     rbind (f_str P p ''metric_name'') (\<lambda>x_metric_name.
     rbind (f_any p ''value'') (\<lambda>x_value.
     rbind (f_str_list P p ''evidence_refs'') (\<lambda>x_evidence_refs.
     rbind (f_str P p ''idempotency_key'') (\<lambda>x_idempotency_key.
     rbind (f_str P p ''leaf_hash'') (\<lambda>x_leaf_hash.
     rbind (f_datetime P p ''committed_at'') (\<lambda>x_committed_at.
       Inr \<lparr>em_decision_id = x_decision_id, em_metric_name = x_metric_name, em_value = x_value,
            em_evidence_refs = x_evidence_refs, em_idempotency_key = x_idempotency_key, em_leaf_hash = x_leaf_hash,
            em_committed_at = x_committed_at\<rparr>))))))))"

record metric_rejected =
  ej_decision_id :: string
  ej_metric_name :: string
  ej_idempotency_key :: string
  ej_reason :: string
  ej_occurred_at :: datetime

definition validate_metric_rejected :: "pydantic \<Rightarrow> pydict \<Rightarrow> metric_rejected res" where
  "validate_metric_rejected P p =
     rbind (f_literal p ''MetricRejected'') (\<lambda>_.
     rbind (f_str P p ''decision_id'') (\<lambda>x_decision_id.
     rbind (f_str P p ''metric_name'') (\<lambda>x_metric_name.
     rbind (f_str P p ''idempotency_key'') (\<lambda>x_idempotency_key.
     rbind (f_str P p ''reason'') (\<lambda>x_reason.
     rbind (f_datetime P p ''occurred_at'') (\<lambda>x_occurred_at.
       Inr \<lparr>ej_decision_id = x_decision_id, ej_metric_name = x_metric_name,
            ej_idempotency_key = x_idempotency_key, ej_reason = x_reason,
            ej_occurred_at = x_occurred_at\<rparr>))))))"

record metric_superseded =
  es_decision_id :: string
  es_metric_name :: string
  es_original_leaf_hash :: string
  es_new_risk_context :: string
  es_superseded_by_idempotency_key :: string
  es_occurred_at :: datetime

definition validate_metric_superseded :: "pydantic \<Rightarrow> pydict \<Rightarrow> metric_superseded res" where
  "validate_metric_superseded P p =
     rbind (f_literal p ''MetricSuperseded'') (\<lambda>_.
     rbind (f_str P p ''decision_id'') (\<lambda>x_decision_id.
     rbind (f_str P p ''metric_name'') (\<lambda>x_metric_name.
     rbind (f_str P p ''original_leaf_hash'') (\<lambda>x_original_leaf_hash.
     rbind (f_str P p ''new_risk_context'') (\<lambda>x_new_risk_context.
     rbind (f_str P p ''superseded_by_idempotency_key'') (\<lambda>x_superseded_by_idempotency_key.
     rbind (f_datetime P p ''occurred_at'') (\<lambda>x_occurred_at.
       Inr \<lparr>es_decision_id = x_decision_id, es_metric_name = x_metric_name,
            es_original_leaf_hash = x_original_leaf_hash, es_new_risk_context = x_new_risk_context,
            es_superseded_by_idempotency_key = x_superseded_by_idempotency_key,
            es_occurred_at = x_occurred_at\<rparr>)))))))"

record merkle_root_published =
  et_batch_id :: string
  et_root :: string
  et_leaf_count :: int
  et_anchor_signature :: string
  et_anchor_timestamp :: datetime

definition validate_merkle_root_published :: "pydantic \<Rightarrow> pydict \<Rightarrow> merkle_root_published res" where
  "validate_merkle_root_published P p =
     rbind (f_literal p ''MerkleRootPublished'') (\<lambda>_.
     rbind (f_str P p ''batch_id'') (\<lambda>x_batch_id.
     rbind (f_str P p ''root'') (\<lambda>x_root.
     rbind (f_int P p ''leaf_count'') (\<lambda>x_leaf_count.
     rbind (f_str P p ''anchor_signature'') (\<lambda>x_anchor_signature.
     rbind (f_datetime P p ''anchor_timestamp'') (\<lambda>x_anchor_timestamp.
       Inr \<lparr>et_batch_id = x_batch_id, et_root = x_root, et_leaf_count = x_leaf_count,
            et_anchor_signature = x_anchor_signature, et_anchor_timestamp = x_anchor_timestamp\<rparr>))))))"

record decision_ready =
  ey_decision_id :: string
  ey_trust_score :: "pyfloat option"
  ey_policy_verdict :: string
  ey_merkle_root :: "string option"
  ey_committed_metrics :: "string list"
  ey_occurred_at :: datetime

definition validate_decision_ready :: "pydantic \<Rightarrow> pydict \<Rightarrow> decision_ready res" where
  "validate_decision_ready P p =
     rbind (f_literal p ''DecisionReady'') (\<lambda>_.
     rbind (f_str P p ''decision_id'') (\<lambda>x_decision_id.
     rbind (f_opt_float P p ''trust_score'') (\<lambda>x_trust_score.
     rbind (f_str P p ''policy_verdict'') (\<lambda>x_policy_verdict.
     rbind (f_opt_str P p ''merkle_root'') (\<lambda>x_merkle_root.
     rbind (f_str_list P p ''committed_metrics'') (\<lambda>x_committed_metrics.
     rbind (f_datetime P p ''occurred_at'') (\<lambda>x_occurred_at.
       Inr \<lparr>ey_decision_id = x_decision_id, ey_trust_score = x_trust_score,
            ey_policy_verdict = x_policy_verdict, ey_merkle_root = x_merkle_root,
            ey_committed_metrics = x_committed_metrics, ey_occurred_at = x_occurred_at\<rparr>)))))))"

record evidence_attached =
  ea_runtime_context :: pyval
  ea_decision_id :: string
  ea_evidence_id :: string
  ea_source_type :: string
  ea_content_hash :: string
  ea_storage_ref :: string
  ea_fetched_at :: datetime

definition validate_evidence_attached :: "pydantic \<Rightarrow> pydict \<Rightarrow> evidence_attached res" where
  "validate_evidence_attached P p =
     rbind (f_literal p ''EvidenceAttached'') (\<lambda>_.
     rbind (f_str P p ''decision_id'') (\<lambda>x_decision_id.
     rbind (f_str P p ''evidence_id'') (\<lambda>x_evidence_id.
     rbind (f_str P p ''source_type'') (\<lambda>x_source_type.
     rbind (f_str P p ''content_hash'') (\<lambda>x_content_hash.
     rbind (f_str P p ''storage_ref'') (\<lambda>x_storage_ref.
     rbind (f_datetime P p ''fetched_at'') (\<lambda>x_fetched_at.
       Inr \<lparr>ea_runtime_context = f_runtime_context p, ea_decision_id = x_decision_id,
            ea_evidence_id = x_evidence_id, ea_source_type = x_source_type, ea_content_hash = x_content_hash,
            ea_storage_ref = x_storage_ref, ea_fetched_at = x_fetched_at\<rparr>)))))))"

record goal_created =
  eg_decision_id :: string
  eg_goal_id :: string
  eg_required_metrics :: "string list"
  eg_occurred_at :: datetime

definition validate_goal_created :: "pydantic \<Rightarrow> pydict \<Rightarrow> goal_created res" where
  "validate_goal_created P p =
     rbind (f_literal p ''GoalCreated'') (\<lambda>_.
     rbind (f_str P p ''decision_id'') (\<lambda>x_decision_id.
     rbind (f_str P p ''goal_id'') (\<lambda>x_goal_id.
     rbind (f_str_list P p ''required_metrics'') (\<lambda>x_required_metrics.
     rbind (f_datetime P p ''occurred_at'') (\<lambda>x_occurred_at.
       Inr \<lparr>eg_decision_id = x_decision_id, eg_goal_id = x_goal_id, eg_required_metrics = x_required_metrics,
            eg_occurred_at = x_occurred_at\<rparr>)))))"

record goal_cancelled =
  el_decision_id :: string
  el_reason :: string
  el_occurred_at :: datetime

definition validate_goal_cancelled :: "pydantic \<Rightarrow> pydict \<Rightarrow> goal_cancelled res" where
  "validate_goal_cancelled P p =
     rbind (f_literal p ''GoalCancelled'') (\<lambda>_.
     rbind (f_str P p ''decision_id'') (\<lambda>x_decision_id.
     rbind (f_str P p ''reason'') (\<lambda>x_reason.
     rbind (f_datetime P p ''occurred_at'') (\<lambda>x_occurred_at.
       Inr \<lparr>el_decision_id = x_decision_id, el_reason = x_reason, el_occurred_at = x_occurred_at\<rparr>))))"

record runtime_artifact_deployed =
  ra_runtime_context :: pyval
  ra_artifact_type :: string
  ra_artifact_id :: string
  ra_version :: string
  ra_content_hash :: string
  ra_deployed_at :: datetime

definition validate_runtime_artifact_deployed :: "pydantic \<Rightarrow> pydict \<Rightarrow> runtime_artifact_deployed res" where
  "validate_runtime_artifact_deployed P p =
     rbind (f_literal p ''RuntimeArtifactDeployed'') (\<lambda>_.
     rbind (f_str P p ''artifact_type'') (\<lambda>x_artifact_type.
     rbind (f_str P p ''artifact_id'') (\<lambda>x_artifact_id.
     rbind (f_str P p ''version'') (\<lambda>x_version.
     rbind (f_str P p ''content_hash'') (\<lambda>x_content_hash.
     rbind (f_datetime P p ''deployed_at'') (\<lambda>x_deployed_at.
       Inr \<lparr>ra_runtime_context = f_runtime_context p, ra_artifact_type = x_artifact_type,
            ra_artifact_id = x_artifact_id, ra_version = x_version, ra_content_hash = x_content_hash,
            ra_deployed_at = x_deployed_at\<rparr>))))))"

record runtime_config_updated =
  rc_runtime_context :: pyval
  rc_config_type :: string
  rc_config_id :: string
  rc_version :: string
  rc_content_hash :: string
  rc_occurred_at :: datetime

definition validate_runtime_config_updated :: "pydantic \<Rightarrow> pydict \<Rightarrow> runtime_config_updated res" where
  "validate_runtime_config_updated P p =
     rbind (f_literal p ''RuntimeConfigUpdated'') (\<lambda>_.
     rbind (f_str P p ''config_type'') (\<lambda>x_config_type.
     rbind (f_str P p ''config_id'') (\<lambda>x_config_id.
     rbind (f_str P p ''version'') (\<lambda>x_version.
     rbind (f_str P p ''content_hash'') (\<lambda>x_content_hash.
     rbind (f_datetime P p ''occurred_at'') (\<lambda>x_occurred_at.
       Inr \<lparr>rc_runtime_context = f_runtime_context p, rc_config_type = x_config_type,
            rc_config_id = x_config_id, rc_version = x_version, rc_content_hash = x_content_hash,
            rc_occurred_at = x_occurred_at\<rparr>))))))"

section \<open>The union of inbound events\<close>

datatype inbound_event =
    In_MetricProposed metric_proposed
  | In_DebateOutcome debate_outcome
  | In_RiskSignal risk_signal
  | In_ReconciledDecision reconciled_decision
  | In_EvidenceAttached evidence_attached
  | In_GoalCreated goal_created
  | In_GoalCancelled goal_cancelled
  | In_RuntimeArtifactDeployed runtime_artifact_deployed
  | In_RuntimeConfigUpdated runtime_config_updated

text \<open>The class whose events a topic of \<^verbatim>\<open>_register_event_routes\<close> carries.\<close>

definition as_inbound :: "('a \<Rightarrow> inbound_event) \<Rightarrow> (pydantic \<Rightarrow> pydict \<Rightarrow> 'a res) \<Rightarrow> pydantic \<Rightarrow> pydict \<Rightarrow> inbound_event res" where
  "as_inbound c v P p = rbind (v P p) (\<lambda>e. Inr (c e))"

definition topic_classes :: "(string \<times> (pydantic \<Rightarrow> pydict \<Rightarrow> inbound_event res)) list" where
  "topic_classes =
     [(''metrics.proposed'', as_inbound In_MetricProposed validate_metric_proposed),
      (''metrics.debate-outcome'', as_inbound In_DebateOutcome validate_debate_outcome),
      (''metrics.risk-signal'', as_inbound In_RiskSignal validate_risk_signal),
      (''metrics.reconciled'', as_inbound In_ReconciledDecision validate_reconciled_decision),
      (''evidence.attached'', as_inbound In_EvidenceAttached validate_evidence_attached),
      (''goal.created'', as_inbound In_GoalCreated validate_goal_created),
      (''goal.cancelled'', as_inbound In_GoalCancelled validate_goal_cancelled),
      (''runtime.artifact-deployed'', as_inbound In_RuntimeArtifactDeployed validate_runtime_artifact_deployed),
      (''runtime.config-updated'', as_inbound In_RuntimeConfigUpdated validate_runtime_config_updated)]"

text \<open>A payload that conforms to the class of its topic. The runtime classes declare no \<^verbatim>\<open>decision_id\<close>, but their handlers
  read one when it is there: it has to be a string.\<close>

definition conforms :: "pydantic \<Rightarrow> string \<Rightarrow> pydict \<Rightarrow> bool" where
  "conforms P topic payload =
     (distinct (map fst payload) \<and> (case map_of topic_classes topic of
        None \<Rightarrow> False
      | Some v \<Rightarrow> (case v P payload of Inl _ \<Rightarrow> False | Inr _ \<Rightarrow>
          (case map_of payload ''decision_id'' of None \<Rightarrow> True | Some d \<Rightarrow> (case d of PStr _ \<Rightarrow> True | _ \<Rightarrow> False)))))"

section \<open>Events as they are stored\<close>

definition valid :: "'a res \<Rightarrow> bool" where
  "valid r = (case r of Inl _ \<Rightarrow> False | Inr _ \<Rightarrow> True)"

definition event_classes :: "(string \<times> (pydantic \<Rightarrow> pydict \<Rightarrow> bool)) list" where
  "event_classes =
     [(''MetricProposed'', \<lambda>P p. valid (validate_metric_proposed P p)),
      (''DebateOutcome'', \<lambda>P p. valid (validate_debate_outcome P p)),
      (''RiskSignal'', \<lambda>P p. valid (validate_risk_signal P p)),
      (''ReconciledDecision'', \<lambda>P p. valid (validate_reconciled_decision P p)),
      (''MetricCommitted'', \<lambda>P p. valid (validate_metric_committed P p)),
      (''MetricRejected'', \<lambda>P p. valid (validate_metric_rejected P p)),
      (''MetricSuperseded'', \<lambda>P p. valid (validate_metric_superseded P p)),
      (''MerkleRootPublished'', \<lambda>P p. valid (validate_merkle_root_published P p)),
      (''DecisionReady'', \<lambda>P p. valid (validate_decision_ready P p)),
      (''EvidenceAttached'', \<lambda>P p. valid (validate_evidence_attached P p)),
      (''GoalCreated'', \<lambda>P p. valid (validate_goal_created P p)),
      (''GoalCancelled'', \<lambda>P p. valid (validate_goal_cancelled P p)),
      (''RuntimeArtifactDeployed'', \<lambda>P p. valid (validate_runtime_artifact_deployed P p)),
      (''RuntimeConfigUpdated'', \<lambda>P p. valid (validate_runtime_config_updated P p))]"

text \<open>A stored event conforms to the class its \<^verbatim>\<open>event_type\<close> names.\<close>

definition conforming :: "pydantic \<Rightarrow> pydict \<Rightarrow> bool" where
  "conforming P e = (\<exists>ty v. map_of e ''event_type'' = Some (PStr ty) \<and> map_of event_classes ty = Some v \<and> v P e)"

lemmas validate_defs =
  validate_metric_proposed_def validate_debate_outcome_def validate_risk_signal_def
  validate_reconciled_decision_def validate_metric_committed_def validate_metric_rejected_def
  validate_metric_superseded_def validate_merkle_root_published_def validate_decision_ready_def
  validate_evidence_attached_def validate_goal_created_def validate_goal_cancelled_def
  validate_runtime_artifact_deployed_def validate_runtime_config_updated_def

section \<open>Lemmas\<close>

lemma valid_simps [simp]: "valid (Inr x)" "\<not> valid (Inl e)"
  by (simp_all add: valid_def)

lemma valid_iff: "valid r \<longleftrightarrow> (\<exists>x. r = Inr x)"
  by (cases r) auto

lemma f_required_Inr: "f_required v p k = Inr x \<longleftrightarrow> (\<exists>y. map_of p k = Some y \<and> v y = Some x)"
  by (cases "map_of p k") (auto simp: f_required_def split: option.splits)

lemma f_default_Inr: "f_default d v p k = Inr x \<longleftrightarrow> (map_of p k = None \<and> x = d) \<or> (\<exists>y. map_of p k = Some y \<and> v y = Some x)"
  by (auto simp: f_default_def f_required_Inr)

lemma f_literal_Inr: "f_literal p n = Inr x \<longleftrightarrow> x = n \<and> (map_of p ''event_type'' = None \<or> map_of p ''event_type'' = Some (PStr n))"
  by (auto simp: f_literal_def f_default_Inr)

lemmas field_simps' = f_required_Inr f_default_Inr f_literal_Inr

text \<open>The envelope of a stored event.\<close>

lemma record_field:
  assumes "distinct (map fst p)"
  shows "map_of (memory_record i ty d p) k =
    (case map_of p k of Some v \<Rightarrow> Some v | None \<Rightarrow>
       map_of [(''event_id'', PStr i), (''event_type'', PStr ty), (''decision_id'', PStr d)] k)"
  using assms by (auto simp: memory_record_def map_of_dict_update map_add_def split: option.splits)

text \<open>A payload that validates still does inside the envelope of its own type.\<close>

lemma f_required_record: "distinct (map fst p) \<Longrightarrow> f_required v p k = Inr x \<Longrightarrow> f_required v (memory_record i ty d p) k = Inr x"
  by (auto simp: f_required_Inr record_field)

lemma f_default_record:
  "distinct (map fst p) \<Longrightarrow> k \<noteq> ''event_id'' \<and> k \<noteq> ''event_type'' \<and> k \<noteq> ''decision_id'' \<Longrightarrow> f_default e v p k = Inr x \<Longrightarrow>
   f_default e v (memory_record i ty d p) k = Inr x"
  by (auto simp: f_default_Inr record_field)

lemma f_literal_record: "distinct (map fst p) \<Longrightarrow> f_literal p ty = Inr x \<Longrightarrow> f_literal (memory_record i ty d p) ty = Inr x"
  by (auto simp: f_literal_Inr record_field)

lemma valid_rbind_mono:
  "valid (rbind a f) \<Longrightarrow> (\<And>x. a = Inr x \<Longrightarrow> b = Inr x) \<Longrightarrow> (\<And>x. valid (f x) \<Longrightarrow> valid (g x)) \<Longrightarrow> valid (rbind b g)"
  by (cases a) auto

lemma validate_record:
  assumes "distinct (map fst p)"
  shows "list_all (\<lambda>(ty, v). v P p \<longrightarrow> v P (memory_record i ty d p)) event_classes"
  unfolding event_classes_def list.pred_inject(2) prod.case validate_defs
  by (intro conjI impI list.pred_inject(1);
      ((erule valid_rbind_mono, (erule f_required_record [OF assms] f_literal_record [OF assms] | erule f_default_record [OF assms, rotated], simp))+, simp))

lemma valid_rbindD: "valid (rbind a f) \<Longrightarrow> valid a"
  by (cases a) auto

lemma validate_literal: "list_all (\<lambda>(ty, v). v P p \<longrightarrow> valid (f_literal p ty)) event_classes"
  unfolding event_classes_def list.pred_inject(2) prod.case validate_defs
  by (intro conjI impI list.pred_inject(1); erule valid_rbindD)

lemma stored_conforming:
  assumes "distinct (map fst p)" "map_of event_classes ty = Some v" "v P p"
  shows "conforming P (memory_record i ty d p)" "map_of (memory_record i ty d p) ''event_type'' = Some (PStr ty)"
proof -
  have in_set: "(ty, v) \<in> set event_classes" using assms(2) by (rule map_of_SomeD)
  then have "v P (memory_record i ty d p)" "valid (f_literal p ty)"
    using validate_record [OF assms(1), of P i d] validate_literal [of P p] assms(3) by (auto simp: list_all_iff)
  moreover from this(2) show "map_of (memory_record i ty d p) ''event_type'' = Some (PStr ty)"
    using assms(1) by (auto simp: valid_iff f_literal_Inr record_field)
  ultimately show "conforming P (memory_record i ty d p)" using assms(2) by (auto simp: conforming_def)
qed

end
