(* ===== verification/TypedRuns.thy ===== *)
theory TypedRuns
  imports SystemRuns Events
begin

text \<open>
  Type soundness of the event-sourced core. When every payload that arrives on the bus conforms to the class of its
  topic, every event of every stream conforms to its class and can be read back, so no handler raises and every scoreboard
  can be rebuilt, with an integer too large for a float as the only exception.
\<close>

section \<open>Readable events\<close>

text \<open>What the registries and the projector ask of an event of the decision \<open>d\<close>.\<close>

definition readable :: "pydantic \<Rightarrow> string \<Rightarrow> pydict \<Rightarrow> bool" where
  "readable P d e =
     ((has_type ''MetricCommitted'' e \<longrightarrow> (\<exists>m. map_of e ''metric_name'' = Some (PStr m)) \<and> valid (committed_record P d e)) \<and>
      (has_type ''MetricRejected'' e \<longrightarrow> (\<exists>m. map_of e ''metric_name'' = Some (PStr m)) \<and> valid (rejected_record P d e)) \<and>
      (has_type ''MetricSuperseded'' e \<longrightarrow>
         (\<exists>m. map_of e ''metric_name'' = Some (PStr m)) \<and> map_of e ''superseded_by_idempotency_key'' \<noteq> None) \<and>
      (has_type ''RiskSignal'' e \<longrightarrow> valid (risk_entry P d e)) \<and>
      (has_type ''MerkleRootPublished'' e \<longrightarrow>
         (\<exists>rt. map_of e ''root'' = Some (PStr rt)) \<and> valid (rbind (getitem e ''anchor_timestamp'') parse_dt)))"

definition sound_event :: "pydantic \<Rightarrow> string \<Rightarrow> pydict \<Rightarrow> bool" where
  "sound_event P d e = (conforming P e \<and> readable P d e)"

definition is_overflow :: "pyexc \<Rightarrow> bool" where
  "is_overflow e = (case e of OverflowError _ \<Rightarrow> True | _ \<Rightarrow> False)"

lemma metrics_loop_readable: "list_all (readable P d) es \<Longrightarrow> valid (metrics_loop P d es ms)"
proof (induction es arbitrary: ms)
  case (Cons e es)
  have r: "readable P d e" and IH: "\<And>ms. valid (metrics_loop P d es ms)" using Cons by simp_all
  consider "has_type ''MetricCommitted'' e" | "has_type ''MetricRejected'' e" | "has_type ''MetricSuperseded'' e"
    | "\<not> has_type ''MetricCommitted'' e" "\<not> has_type ''MetricRejected'' e" "\<not> has_type ''MetricSuperseded'' e" by blast
  then show ?case
    using r IH by cases (auto simp: readable_def has_type_def valid_iff getitem_Some as_key_def key_in_def)
qed simp

lemma risk_readable: "list_all (readable P d) es \<Longrightarrow> valid (risk_reconstruct P d es)"
proof (induction es)
  case (Cons e es)
  then show ?case by (cases "has_type ''RiskSignal'' e") (auto simp: readable_def risk_reconstruct_def valid_iff)
qed (simp add: risk_reconstruct_def)

lemma root_readable:
  assumes "list_all (readable P d) es"
  shows "\<exists>rt t. root_reference es = Inr (rt, t) \<and> (rt = PNone \<or> (\<exists>s. rt = PStr s))"
proof (cases "last_root_event es")
  case (Some e)
  then have "e \<in> set (rev es)" "has_type ''MerkleRootPublished'' e"
    unfolding last_root_event_def find_Some_iff by (metis nth_mem)+
  then have "(\<exists>rt. map_of e ''root'' = Some (PStr rt)) \<and> valid (rbind (getitem e ''anchor_timestamp'') parse_dt)"
    using assms by (auto simp: list_all_iff readable_def)
  then show ?thesis using Some by (auto simp: root_reference_def getitem_Some valid_iff)
qed (simp add: root_reference_def)

lemma score_loop_raises: "raises is_overflow (score_loop w com rest ts b)"
proof (induction rest arbitrary: ts b)
  case (Cons p rest)
  have "raises is_overflow (numeric_val v)" for v
    by (cases v) (simp_all add: numeric_val_def float_of_int_def is_overflow_def)
  then show ?case using Cons by (cases p) (auto simp: Let_def intro!: raises_rbind)
qed simp

lemma evaluate_policy_raises: "raises is_overflow (evaluate_policy now req ms rs w th)"
  by (auto simp: evaluate_policy_def Let_def intro!: raises_rbind score_loop_raises)

lemma build_state_readable:
  assumes "list_all (readable P d) es" "pydantic_ok P"
  shows "raises is_overflow (build_state P now1 now2 d req es)"
proof -
  obtain ms rs where "metrics_reconstruct P d es = Inr ms" "risk_reconstruct P d es = Inr rs"
    using metrics_loop_readable [OF assms(1), of "[]"] risk_readable [OF assms(1)] by (auto simp: metrics_reconstruct_def valid_iff)
  moreover obtain rt t where "root_reference es = Inr (rt, t)" "rt = PNone \<or> (\<exists>s. rt = PStr s)"
    using root_readable [OF assms(1)] by blast
  moreover from this(2) have "raises is_overflow (v_opt_str P rt)"
    by (auto simp: v_opt_str_def pydantic_okD(2) [OF assms(2)])
  ultimately show ?thesis
    by (auto simp: build_state_def intro!: raises_rbind evaluate_policy_raises)
qed

section \<open>Events that the core writes\<close>

lemma class_lookup [simp]:
  "map_of event_classes ''MetricCommitted'' = Some (\<lambda>P p. valid (validate_metric_committed P p))"
  "map_of event_classes ''MetricRejected'' = Some (\<lambda>P p. valid (validate_metric_rejected P p))"
  "map_of event_classes ''MetricSuperseded'' = Some (\<lambda>P p. valid (validate_metric_superseded P p))"
  "map_of event_classes ''MerkleRootPublished'' = Some (\<lambda>P p. valid (validate_merkle_root_published P p))"
  "map_of event_classes ''MetricProposed'' = Some (\<lambda>P p. valid (validate_metric_proposed P p))"
  "map_of event_classes ''DebateOutcome'' = Some (\<lambda>P p. valid (validate_debate_outcome P p))"
  "map_of event_classes ''RiskSignal'' = Some (\<lambda>P p. valid (validate_risk_signal P p))"
  "map_of event_classes ''ReconciledDecision'' = Some (\<lambda>P p. valid (validate_reconciled_decision P p))"
  "map_of event_classes ''EvidenceAttached'' = Some (\<lambda>P p. valid (validate_evidence_attached P p))"
  "map_of event_classes ''GoalCreated'' = Some (\<lambda>P p. valid (validate_goal_created P p))"
  "map_of event_classes ''GoalCancelled'' = Some (\<lambda>P p. valid (validate_goal_cancelled P p))"
  "map_of event_classes ''RuntimeArtifactDeployed'' = Some (\<lambda>P p. valid (validate_runtime_artifact_deployed P p))"
  "map_of event_classes ''RuntimeConfigUpdated'' = Some (\<lambda>P p. valid (validate_runtime_config_updated P p))"
  by (simp_all add: event_classes_def)

text \<open>An event is readable at once when its type is none of the five that are read back.\<close>

lemma readable_other:
  "map_of e ''event_type'' = Some (PStr ty) \<Longrightarrow>
   ty \<notin> {''MetricCommitted'', ''MetricRejected'', ''MetricSuperseded'', ''RiskSignal'', ''MerkleRootPublished''} \<Longrightarrow> readable P d e"
  by (simp add: readable_def has_type_def)

lemma sound_other:
  assumes "distinct (map fst p)" "map_of event_classes ty = Some v" "v P p"
    "ty \<notin> {''MetricCommitted'', ''MetricRejected'', ''MetricSuperseded'', ''RiskSignal'', ''MerkleRootPublished''}"
  shows "sound_event P d (memory_record i ty d' p)"
  unfolding sound_event_def by (intro conjI stored_conforming [OF assms(1-3)] readable_other [OF stored_conforming(2) [OF assms(1-3)] assms(4)])

lemma v_datetime_utc: "pydantic_ok P \<Longrightarrow> utc t \<Longrightarrow> \<exists>x. v_datetime P (PStr (isoformat_ms t)) = Some x"
  by (auto simp: pydantic_ok_def utc_def)

lemmas payload_simps = validate_defs rbind_eq_Inr valid_iff f_required_Inr f_literal_Inr f_default_Inr

lemma sound_committed:
  assumes "pydantic_ok P" "utc now" "length leaf = 32"
  shows "sound_event P d (memory_record i ''MetricCommitted'' d
    (committed_payload d m v refs k (to_hex leaf) (isoformat_ms now) (PStr b)))"
proof -
  let ?p = "committed_payload d m v refs k (to_hex leaf) (isoformat_ms now) (PStr b)"
  have "distinct (map fst ?p)" by (simp add: committed_payload_def)
  moreover have "valid (validate_metric_committed P ?p)"
    using v_datetime_utc [OF assms(1,2)] by (auto simp: committed_payload_def payload_simps pydantic_okD [OF assms(1)])
  ultimately have "conforming P (memory_record i ''MetricCommitted'' d ?p)" by (rule stored_conforming(1) [OF _ class_lookup(1)])
  then show ?thesis
    using committed_event_record [OF assms, of d i m v refs k b]
    by (simp add: sound_event_def readable_def) (simp add: committed_event has_type_def)
qed

lemma sound_rejected:
  assumes "pydantic_ok P" "utc now"
  shows "sound_event P d (memory_record i ''MetricRejected'' d (rejected_payload now d m (PStr k)))"
proof -
  let ?p = "rejected_payload now d m (PStr k)"
  have p: "distinct (map fst ?p)" by (simp add: rejected_payload_def)
  have "valid (validate_metric_rejected P ?p)"
    using v_datetime_utc [OF assms] by (simp add: rejected_payload_def payload_simps pydantic_okD [OF assms(1)])
  then have "conforming P (memory_record i ''MetricRejected'' d ?p)" by (rule stored_conforming(1) [OF p class_lookup(2)])
  moreover have "valid (rejected_record P d (memory_record i ''MetricRejected'' d ?p))"
    using parse_utc [OF assms(2)]
    by (simp add: rejected_record_def getitem_def record_field [OF p] mk_metric_record_def pydantic_okD [OF assms(1)] v_leaf_hash_def)
       (simp add: rejected_payload_def mk_metric_record_def pydantic_okD [OF assms(1)] v_leaf_hash_def)
  ultimately show ?thesis
    by (simp add: sound_event_def readable_def has_type_def record_field [OF p]) (simp add: rejected_payload_def)
qed

lemma sound_superseded:
  assumes "pydantic_ok P" "utc now"
  shows "sound_event P d (memory_record i ''MetricSuperseded'' d (superseded_payload now d m h ctx k))"
proof -
  let ?p = "superseded_payload now d m h ctx k"
  have p: "distinct (map fst ?p)" by (simp add: superseded_payload_def)
  have "valid (validate_metric_superseded P ?p)"
    using v_datetime_utc [OF assms] by (simp add: superseded_payload_def payload_simps pydantic_okD [OF assms(1)])
  then have "conforming P (memory_record i ''MetricSuperseded'' d ?p)" by (rule stored_conforming(1) [OF p class_lookup(3)])
  then show ?thesis
    by (simp add: sound_event_def readable_def has_type_def record_field [OF p]) (simp add: superseded_payload_def)
qed

lemma sound_root:
  assumes "pydantic_ok P" "utc t" "timestamp_iso tok = isoformat_ms t"
  shows "sound_event P d (memory_record i ''MerkleRootPublished'' d (root_payload b rt n sg tok))"
proof -
  let ?p = "root_payload b rt n sg tok"
  have p: "distinct (map fst ?p)" by (simp add: root_payload_def)
  have "v_int P (PInt (int n)) = Some (int n)" using assms(1) by (simp add: pydantic_ok_def)
  then have "valid (validate_merkle_root_published P ?p)"
    using v_datetime_utc [OF assms(1,2)] by (simp add: root_payload_def payload_simps pydantic_okD [OF assms(1)] assms(3))
  then have "conforming P (memory_record i ''MerkleRootPublished'' d ?p)" by (rule stored_conforming(1) [OF p class_lookup(4)])
  then show ?thesis
    using parse_utc [OF assms(2)] by (simp add: sound_event_def readable_def root_event has_type_def getitem_def assms(3))
qed

section \<open>Handlers\<close>

text \<open>Streams only gain sound events, and the call returns.\<close>

definition grows :: "pydantic \<Rightarrow> memory_audit \<Rightarrow> memory_audit \<Rightarrow> bool" where
  "grows P a a' = (\<forall>d. \<exists>es. memory_stream a' d = memory_stream a d @ es \<and> list_all (sound_event P d) es)"

definition fine :: "pydantic \<Rightarrow> memory_audit core \<Rightarrow> (memory_audit core, 'r) sres \<Rightarrow> bool" where
  "fine P c m = (grows P (co_audit c) (co_audit (fst m)) \<and> valid (snd m))"

lemma grows_refl [simp]: "grows P a a"
  by (simp add: grows_def)

lemma grows_trans: "grows P a b \<Longrightarrow> grows P b c \<Longrightarrow> grows P a c"
  unfolding grows_def by (metis append.assoc list_all_append)

lemma fine_same [simp]: "fine P c (c', Inr x) \<longleftrightarrow> grows P (co_audit c) (co_audit c')"
  by (simp add: fine_def)

lemma fine_sbind:
  assumes "fine P c m" "\<And>c' x. m = (c', Inr x) \<Longrightarrow> fine P c' (f c' x)"
  shows "fine P c (sbind m f (\<lambda>c. c))"
proof -
  obtain c' x where m: "m = (c', Inr x)" using assms(1) by (cases m) (auto simp: fine_def valid_iff)
  with assms show ?thesis by (auto simp: fine_def intro: grows_trans)
qed

lemma fine_done: "fine P c m \<Longrightarrow> fine P c (done_unit m)"
  unfolding done_unit_def by (rule fine_sbind) simp_all

lemma fine_append:
  assumes "sound_event P d (memory_record i ty d p)"
  shows "fine P c (audit_append memory_ops i c d ty p k)"
proof (cases "Option.bind k (memory_keys (co_audit c))")
  case None
  from memory_append_fresh [OF this, of i d ty p] assms show ?thesis
    by (auto simp: fine_def audit_append_def memory_ops_def grows_def)
next
  case (Some e)
  from memory_append_seen [OF this] show ?thesis by (simp add: fine_def audit_append_def memory_ops_def)
qed

lemma fine_staging: "fine P (c\<lparr>co_staging := st\<rparr>) m \<Longrightarrow> fine P c m"
  by (simp add: fine_def)

lemma fine_commit:
  assumes "pydantic_ok P" "utc now"
  shows "fine P c (commit memory_ops now i c d m v refs k (PStr b))"
  unfolding commit_def Let_def
  by (intro fine_sbind fine_append sound_committed [OF assms]) auto

lemma fine_update: "pydantic_ok P \<Longrightarrow> utc now \<Longrightarrow> fine P c (handle_update_metric memory_ops now i c cmd)"
  unfolding handle_update_metric_def by (auto intro!: fine_sbind fine_append fine_commit sound_rejected)

lemma fine_supersede: "pydantic_ok P \<Longrightarrow> utc now \<Longrightarrow> fine P c (supersede_metric memory_ops now i c d m h ctx k)"
  unfolding supersede_metric_def by (intro fine_done fine_append sound_superseded)

lemma fine_stage:
  assumes "staging_key p = Inr (d, m)" "sound_event P d (memory_record i ty d p)"
  shows "fine P c (stage_and_append memory_ops i c ty f p)"
  unfolding stage_and_append_def assms(1) Let_def
  by (auto intro!: fine_staging [OF fine_sbind] fine_append assms(2))

lemma stage_result: "stage_and_append ops i c ty f p = (c', Inr x) \<Longrightarrow> staging_key p = Inr x"
  by (auto simp: stage_and_append_def Let_def sbind_def split: sum.splits prod.splits)

lemma fine_under: "rbind dv str_arg = Inr d \<Longrightarrow> sound_event P d (memory_record i ty d p) \<Longrightarrow> fine P c (append_under memory_ops i c dv ty p)"
  unfolding append_under_def by (auto intro!: fine_done fine_append)

text \<open>The string fields of a validated payload.\<close>

lemma validated_keys:
  assumes "pydantic_ok P"
  shows "valid (validate_metric_proposed P p) \<Longrightarrow> \<exists>d m. staging_key p = Inr (d, m)"
    "valid (validate_debate_outcome P p) \<Longrightarrow> \<exists>d m. staging_key p = Inr (d, m)"
    "valid (validate_risk_signal P p) \<Longrightarrow> \<exists>d m. staging_key p = Inr (d, m)"
    "valid (validate_reconciled_decision P p) \<Longrightarrow> \<exists>d m. staging_key p = Inr (d, m)"
    "valid (validate_evidence_attached P p) \<Longrightarrow> \<exists>d. rbind (getitem p ''decision_id'') str_arg = Inr d"
    "valid (validate_goal_created P p) \<Longrightarrow> \<exists>d. rbind (getitem p ''decision_id'') str_arg = Inr d"
    "valid (validate_goal_cancelled P p) \<Longrightarrow> \<exists>d. rbind (getitem p ''decision_id'') str_arg = Inr d"
  by (auto simp: payload_simps pydantic_okD(1) [OF assms] staging_key_strs getitem_Some str_arg_def)

lemma default_field:
  assumes "f_default e v p k = Inr x" "v y = Some e" "distinct (map fst p)"
    and "k \<noteq> ''event_id'' \<and> k \<noteq> ''event_type'' \<and> k \<noteq> ''decision_id''"
  shows "v (dict_get (memory_record i ty d p) k y) = Some x"
  using assms by (cases "map_of p k") (auto simp: f_default_Inr dict_get_def record_field)

lemma sound_risk:
  assumes "pydantic_ok P" "distinct (map fst p)" "valid (validate_risk_signal P p)"
  shows "sound_event P d (memory_record i ''RiskSignal'' d' p)"
proof -
  let ?e = "memory_record i ''RiskSignal'' d' p"
  note stored = stored_conforming [OF assms(2) class_lookup(7), of P, OF assms(3), of i d']
  obtain m l where "map_of p ''metric_name'' = Some (PStr m)" "map_of p ''risk_level'' = Some (PStr l)"
    using assms(3) by (auto simp: payload_simps pydantic_okD(1) [OF assms(1)])
  then have f: "getitem ?e ''metric_name'' = Inr (PStr m)" "dict_get ?e ''risk_level'' x = PStr l" for x
    by (simp_all add: getitem_def dict_get_def record_field [OF assms(2)])
  obtain s fs where g: "f_severity P p ''severity'' = Inr s" "f_str_list_default P p ''contradiction_flags'' = Inr fs"
    using assms(3) by (auto simp: validate_risk_signal_def valid_iff rbind_eq_Inr)
  have "v_unit_interval P (dict_get ?e ''severity'' (PFloat (Fin 0))) = Some s"
    by (rule default_field [OF g(1) _ assms(2)]) (simp_all add: v_unit_interval_def pydantic_okD(3) [OF assms(1)])
  moreover have "v_str_list P (dict_get ?e ''contradiction_flags'' (PList [])) = Some fs"
    by (rule default_field [OF g(2) _ assms(2)]) (simp_all add: pydantic_okD(5) [OF assms(1)])
  ultimately have "v_float P (dict_get ?e ''severity'' (PFloat (Fin 0))) = Some s" "fle (Fin 0) s" "fle s (Fin 1)"
      "v_str_list P (dict_get ?e ''contradiction_flags'' (PList [])) = Some fs"
    by (simp_all add: v_unit_interval_def split: option.splits if_splits)
  with f have "valid (risk_entry P d ?e)"
    by (simp add: risk_entry_def mk_risk_signal_entry_def pydantic_okD(2) [OF assms(1)] getitem_Some)
  with stored show ?thesis by (simp add: sound_event_def readable_def has_type_def)
qed

lemma fine_reconciled:
  assumes "pydantic_ok P" "utc now" "distinct (map fst p)" "valid (validate_reconciled_decision P p)"
  shows "fine P c (on_reconciled_decision memory_ops now i j c p)"
proof -
  obtain d m where k: "staging_key p = Inr (d, m)" using validated_keys(4) [OF assms(1,4)] by blast
  obtain v k refs b where f: "map_of p ''final_value'' = Some v" "map_of p ''idempotency_key'' = Some (PStr k)"
      "map_of p ''proposed_by'' = Some (PStr b)" "dict_get p ''evidence_refs'' (PList []) = PList (map PStr refs)"
    using assms(4) by (auto simp: payload_simps pydantic_okD [OF assms(1)] dict_get_def)
  have "fine P c (stage_and_append memory_ops i c ''ReconciledDecision'' g p)" for g
    using sound_other [OF assms(3) class_lookup(8), of P, OF assms(4)] by (intro fine_stage [OF k]) simp
  moreover have "dict_get p ''proposed_by'' x = PStr b" for x using f(3) by (simp add: dict_get_def)
  ultimately show ?thesis
    unfolding on_reconciled_decision_def Let_def
    using f k by (intro fine_sbind)
      (auto simp: getitem_Some str_arg_def dest!: stage_result intro!: fine_done fine_append fine_commit sound_rejected assms(1,2))
qed

lemma valid_as_inbound [simp]: "valid (as_inbound c v P p) \<longleftrightarrow> valid (v P p)"
  by (cases "v P p") (simp_all add: as_inbound_def)

lemma conforms_cases:
  assumes "conforms P topic p"
  obtains "topic = ''metrics.proposed''" "valid (validate_metric_proposed P p)"
  | "topic = ''metrics.debate-outcome''" "valid (validate_debate_outcome P p)"
  | "topic = ''metrics.risk-signal''" "valid (validate_risk_signal P p)"
  | "topic = ''metrics.reconciled''" "valid (validate_reconciled_decision P p)"
  | "topic = ''evidence.attached''" "valid (validate_evidence_attached P p)"
  | "topic = ''goal.created''" "valid (validate_goal_created P p)"
  | "topic = ''goal.cancelled''" "valid (validate_goal_cancelled P p)"
  | "topic = ''runtime.artifact-deployed''" "valid (validate_runtime_artifact_deployed P p)"
  | "topic = ''runtime.config-updated''" "valid (validate_runtime_config_updated P p)"
proof -
  obtain v where "(topic, v) \<in> set topic_classes" "valid (v P p)"
    using assms by (auto simp: conforms_def valid_def dest: map_of_SomeD split: option.splits sum.splits)
  then show ?thesis using that by (auto simp: topic_classes_def)
qed

lemma conforms_distinct: "conforms P topic p \<Longrightarrow> distinct (map fst p)"
  by (simp add: conforms_def)

lemma conforms_decision: "conforms P topic p \<Longrightarrow> \<exists>d. rbind (Inr (dict_get p ''decision_id'' (PStr x))) str_arg = Inr d"
proof (cases "map_of p ''decision_id''")
  case (Some v)
  then show "conforms P topic p \<Longrightarrow> ?thesis"
    by (cases v) (auto simp: conforms_def dict_get_def str_arg_def split: option.splits sum.splits)
qed (simp add: dict_get_def str_arg_def)

lemma fine_route:
  assumes "pydantic_ok P" "utc now" "conforms P topic p"
  shows "\<exists>h. map_of (event_routes memory_ops now i j) topic = Some h \<and> fine P c (h c p)"
proof -
  have sound: "sound_event P d (memory_record i ty d p)"
    if "map_of event_classes ty = Some v" "v P p"
      "ty \<notin> {''MetricCommitted'', ''MetricRejected'', ''MetricSuperseded'', ''RiskSignal'', ''MerkleRootPublished''}" for d ty v
    using sound_other [OF conforms_distinct [OF assms(3)] that] .
  note keys = validated_keys [OF assms(1), of p]
  note routes = event_routes_def on_metric_proposed_def on_debate_outcome_def on_risk_signal_def on_evidence_attached_def
    on_goal_created_def on_goal_cancelled_def on_runtime_artifact_deployed_def on_runtime_config_updated_def
  from assms(3) show ?thesis
  proof (cases rule: conforms_cases)
    case 1
    with keys(1) sound [OF class_lookup(5)] show ?thesis by (auto simp: routes intro!: fine_done fine_stage)
  next
    case 2
    with keys(2) sound [OF class_lookup(6)] show ?thesis by (auto simp: routes intro!: fine_done fine_stage)
  next
    case 3
    with keys(3) sound_risk [OF assms(1) conforms_distinct [OF assms(3)]] show ?thesis
      by (auto simp: routes intro!: fine_done fine_stage)
  next
    case 4
    with fine_reconciled [OF assms(1,2) conforms_distinct [OF assms(3)]] show ?thesis by (simp add: event_routes_def)
  next
    case 5
    with keys(5) sound [OF class_lookup(9)] show ?thesis by (auto simp: routes intro!: fine_under)
  next
    case 6
    with keys(6) sound [OF class_lookup(10)] show ?thesis by (auto simp: routes intro!: fine_under)
  next
    case 7
    with keys(7) sound [OF class_lookup(11)] show ?thesis by (auto simp: routes intro!: fine_under)
  next
    case 8
    with conforms_decision [OF assms(3)] sound [OF class_lookup(12)] show ?thesis by (fastforce simp: routes intro!: fine_under)
  next
    case 9
    with conforms_decision [OF assms(3)] sound [OF class_lookup(13)] show ?thesis by (fastforce simp: routes intro!: fine_under)
  qed
qed

section \<open>Typed runs\<close>

text \<open>The steps of the service with UTC clocks and conforming bus payloads.\<close>

inductive typed_step :: "pydantic \<Rightarrow> (bytes \<Rightarrow> bytes) \<Rightarrow> app \<Rightarrow> app \<Rightarrow> bool" for P sign where
  post: "utc now \<Longrightarrow> typed_step P sign s (fst (post_metrics now i s body))"
| grpc_update: "utc now \<Longrightarrow> typed_step P sign s (fst (UpdateMetric (\<lambda>ctx. ctx) now i s request))"
| bus: "utc now \<Longrightarrow> conforms P topic payload \<Longrightarrow> typed_step P sign s (app_bus_event topic now i j payload s)"
| supersede: "utc now \<Longrightarrow> typed_step P sign s (app_supersede now i d m leaf ctx k s)"
| tick: "utc tsa_now \<Longrightarrow> typed_step P sign s (closer_tick sign auth now tsa_now uuid s)"
| flush: "utc tsa_now \<Longrightarrow> typed_step P sign s (shutdown_flush sign auth tsa_now uuid s)"
| scoreboard: "typed_step P sign s (fst (get_scoreboard P now1 now2 s d))"
| grpc_scoreboard: "typed_step P sign s (fst (GetScoreboard P now1 now2 s d))"
| proof_query: "typed_step P sign s (fst (get_merkle_proof P now1 now2 s d m))"

definition sound_app :: "pydantic \<Rightarrow> app \<Rightarrow> bool" where
  "sound_app P s = (\<forall>d. list_all (sound_event P d) (memory_stream (co_audit (ap_core s)) d))"

text \<open>Every typed step is a step of the service.\<close>

lemma typed_step_app_step: "typed_step P sign s t \<Longrightarrow> \<exists>ls. app_step P sign s ls t"
  by (cases rule: typed_step.cases) (blast intro: app_step.intros)+

abbreviation app_grows :: "pydantic \<Rightarrow> app \<Rightarrow> app \<Rightarrow> bool" where
  "app_grows P s t \<equiv> grows P (co_audit (ap_core s)) (co_audit (ap_core t))"

lemma rebuild_core [simp]: "ap_core (fst (app_rebuild P now1 now2 s d req)) = ap_core s"
  by (simp add: app_rebuild_def split: prod.splits)

lemma anchor_grows:
  assumes "pydantic_ok P" "utc t"
  shows "app_grows P s (closer_tick sign auth now t uuid s)" "app_grows P s (shutdown_flush sign auth t uuid s)"
proof -
  let ?close = "fst (close_and_anchor memory_ops memory_store_ops sign (\<lambda>g. Inr (memory_tsa_timestamp auth t g)) uuid (anchor_of s))"
  have close: "grows P (co_audit (ap_core s)) (an_audit ?close)" if "pending (co_merkle (ap_core s)) \<noteq> []"
  proof -
    have "\<exists>es. memory_stream (an_audit ?close) d = memory_stream (an_audit (anchor_of s)) d @ es \<and> list_all (sound_event P d) es" for d
      using memory_anchor_streams [of "anchor_of s" sign "memory_tsa_timestamp auth t" uuid d] that
        sound_root [OF assms memory_tsa_iso] by (fastforce simp: list_all_iff)
    then show ?thesis by (simp add: grows_def anchor_of_def)
  qed
  have same: "an_audit (anchor_of s) = co_audit (ap_core s)" by (simp add: anchor_of_def)
  show "app_grows P s (closer_tick sign auth now t uuid s)" "app_grows P s (shutdown_flush sign auth t uuid s)"
    using close by (auto simp: closer_tick_def shutdown_flush_def maybe_close_and_anchor_def force_close_def should_close_def
        has_pending_def put_anchor_def same)
qed

lemma post_core:
  "ap_core (fst (post_metrics now i s body)) = ap_core s \<or>
   ap_core (fst (post_metrics now i s body)) = fst (handle_update_metric memory_ops now i (ap_core s) (to_command body))"
  by (auto simp: post_metrics_eq split: prod.splits sum.splits)

lemma grpc_update_core:
  "ap_core (fst (UpdateMetric mtd now i s request)) = ap_core s \<or>
   (\<exists>cmd. ap_core (fst (UpdateMetric mtd now i s request)) = fst (handle_update_metric memory_ops now i (ap_core s) cmd))"
proof (cases "grpc_command mtd request")
  case (Inr cmd)
  then have "ap_core (fst (UpdateMetric mtd now i s request)) = fst (handle_update_metric memory_ops now i (ap_core s) cmd)"
    by (auto simp: UpdateMetric_def split: prod.splits sum.splits)
  then show ?thesis by blast
qed (simp add: UpdateMetric_def)

lemma query_core [simp]:
  "ap_core (fst (get_scoreboard P now1 now2 s d)) = ap_core s"
  "ap_core (fst (GetScoreboard P now1 now2 s d)) = ap_core s"
  "ap_core (fst (get_merkle_proof P now1 now2 s d m)) = ap_core s"
  unfolding get_scoreboard_def GetScoreboard_def get_merkle_proof_def
  by (subst fst_sbind_same; auto split: if_splits)+

lemma typed_step_grows:
  assumes "typed_step P sign s t" "pydantic_ok P"
  shows "app_grows P s t"
  using assms(1)
proof cases
  case (post now i body)
  then show ?thesis using post_core [of now i s body] fine_update [OF assms(2), of now] by (auto simp: fine_def)
next
  case (grpc_update now i request)
  then show ?thesis
    using grpc_update_core [of "\<lambda>ctx. ctx" now i s request] fine_update [OF assms(2), of now] by (auto simp: fine_def)
next
  case (bus now topic payload i j)
  then show ?thesis using fine_route [OF assms(2), of now topic payload i j "ap_core s"] by (auto simp: app_bus_event_def fine_def)
next
  case (supersede now i d m leaf ctx k)
  then show ?thesis using fine_supersede [OF assms(2), of now] by (simp add: app_supersede_def fine_def)
next
  case (tick tsa_now auth now uuid)
  then show ?thesis using anchor_grows(1) [OF assms(2)] by simp
next
  case (flush tsa_now auth uuid)
  then show ?thesis using anchor_grows(2) [OF assms(2)] by simp
qed simp_all

lemma sound_app_grows: "sound_app P s \<Longrightarrow> app_grows P s t \<Longrightarrow> sound_app P t"
  unfolding sound_app_def grows_def by (metis list_all_append)

lemma sound_app_new: "sound_app P (new_app n t req)"
  by (simp add: sound_app_def new_app_def new_core_def new_memory_audit_def memory_stream_def dict_get_def)

lemma typed_run_sound:
  "(typed_step P sign)\<^sup>*\<^sup>* s t \<Longrightarrow> pydantic_ok P \<Longrightarrow> sound_app P s \<Longrightarrow> sound_app P t"
  by (induction rule: rtranclp_induct) (blast intro: typed_step_grows sound_app_grows)+

section \<open>Properties\<close>


definition sample_signal :: pydict where
  "sample_signal = [(''decision_id'', PStr ''d''), (''metric_name'', PStr ''m''), (''risk_level'', PStr ''CRITICAL''),
     (''severity'', PFloat (Fin (1 / 2))), (''occurred_at'', PStr (isoformat_ms epoch))]"

lemma sample_signal_conforms: "conforms strict_pydantic ''metrics.risk-signal'' sample_signal"
proof -
  have "valid (validate_risk_signal strict_pydantic sample_signal)"
    using v_datetime_utc [OF strict_pydantic_ok utc_epoch]
    by (simp add: payload_simps sample_signal_def pydantic_okD [OF strict_pydantic_ok] v_unit_interval_def)
  then show ?thesis by (simp add: conforms_def topic_classes_def valid_iff sample_signal_def as_inbound_def) (auto)
qed


text \<open>C5: typed histories can always be read. After any run of the service with UTC clocks in which the bus payloads
  conform to the classes of their topics, every event in every stream conforms to the class it names, and the
  scoreboard of every decision can be rebuilt, with any list of required metrics: the only exception left is the
  \<^verbatim>\<open>OverflowError\<close> of an integer too large for a float.\<close>

theorem typed_runs_rebuild:
  assumes "(typed_step P sign)\<^sup>*\<^sup>* (new_app n t req) s" "pydantic_ok P"
  shows "(\<forall>e \<in> set (memory_stream (co_audit (ap_core s)) d). conforming P e) \<and>
    ((\<exists>sb. snd (app_rebuild P now1 now2 s d required) = Inr sb) \<or>
     (\<exists>msg. snd (app_rebuild P now1 now2 s d required) = Inl (OverflowError msg)))"
proof -
  have sound: "list_all (sound_event P d) (memory_stream (co_audit (ap_core s)) d)"
    using typed_run_sound [OF assms sound_app_new] by (simp add: sound_app_def)
  then have "list_all (readable P d) (memory_stream (co_audit (ap_core s)) d)"
    by (auto simp: list_all_iff sound_event_def)
  from build_state_readable [OF this assms(2), of now1 now2 required] sound show ?thesis
    by (auto simp: app_rebuild_def memory_rebuild list_all_iff sound_event_def raises_def is_overflow_def
        split: sum.splits pyexc.splits)
qed

theorem typed_runs_rebuild_witness:
  "\<exists>s sb. (typed_step strict_pydantic rev)\<^sup>*\<^sup>* (new_app 10 (Fin 5) []) s \<and>
     s = app_bus_event ''metrics.risk-signal'' epoch ''i'' ''j'' sample_signal (new_app 10 (Fin 5) []) \<and>
     (snd (app_rebuild strict_pydantic epoch epoch s ''d'' []) = Inr sb \<or>
      (\<exists>msg. snd (app_rebuild strict_pydantic epoch epoch s ''d'' []) = Inl (OverflowError msg)))"
proof -
  have "(typed_step strict_pydantic rev)\<^sup>*\<^sup>* (new_app 10 (Fin 5) [])
      (app_bus_event ''metrics.risk-signal'' epoch ''i'' ''j'' sample_signal (new_app 10 (Fin 5) []))"
    by (intro r_into_rtranclp typed_step.bus utc_epoch sample_signal_conforms)
  from typed_runs_rebuild [OF this strict_pydantic_ok, of "''d''" epoch epoch "[]"] this show ?thesis by blast
qed

end
