(* ===== verification/Asn1.thy ===== *)
theory Asn1
  imports Der
begin

text \<open>
  Values in ASN.1, as the specification of the DER codec: \<open>asn_encode\<close> builds a value with the encoders of
  \<^verbatim>\<open>infrastructure/rfc3161_client.py\<close>, \<open>represents\<close> says that a parsed node shows a value through the typed readers.
  Every valid value of bounded size is encoded and decoded back; the decoder returns on every input, fails only with
  \<^verbatim>\<open>DerError\<close>, and yields at most one node per two bytes.
\<close>

section \<open>Values\<close>

datatype asn1 =
    ABool bool
  | AInt int
  | AOctets bytes
  | ANull
  | AOid string
  | ATime string
  | ASeq "asn1 list"
  | ASet "asn1 list"
  | AExplicit nat asn1

fun asn_encode :: "asn1 \<Rightarrow> bytes res" where
  "asn_encode (ABool b) = der_boolean b"
| "asn_encode (AInt n) = der_integer n"
| "asn_encode (AOctets d) = der_octet_string d"
| "asn_encode ANull = der_null"
| "asn_encode (AOid s) = der_oid s"
| "asn_encode (ATime s) = der_generalized_time s"
| "asn_encode (ASeq vs) = rbind (rmap asn_encode vs) der_sequence"
| "asn_encode (ASet vs) = rbind (rmap asn_encode vs) der_set"
| "asn_encode (AExplicit t v) = rbind (asn_encode v) (der_explicit (int t))"

fun represents :: "der_node \<Rightarrow> asn1 \<Rightarrow> bool" where
  "represents node (ABool b) = (node = DerNode 0 1 False [if b then 255 else 0] [])"
| "represents node (AInt n) = (der_decode_integer node = Inr n)"
| "represents node (AOctets d) = (der_decode_octet_string node = Inr d)"
| "represents node ANull = (node = DerNode 0 5 False [] [])"
| "represents node (AOid s) = (der_decode_oid node = Inr s)"
| "represents node (ATime s) = (der_decode_generalized_time node = Inr s)"
| "represents node (ASeq vs) =
     (expect_universal node 16 = Inr node \<and> constructed node \<and> list_all2 represents (node_children node) vs)"
| "represents node (ASet vs) =
     (expect_universal node 17 = Inr node \<and> constructed node \<and> list_all2 represents (node_children node) vs)"
| "represents node (AExplicit t v) =
     (expect_context node t = Inr node \<and> (case node_children node of [child] \<Rightarrow> represents child v | _ \<Rightarrow> False))"

text \<open>The values the encoders are meant for, and a bound on the length of their encodings.\<close>

fun asn_valid :: "asn1 \<Rightarrow> bool" where
  "asn_valid (AInt n) = (0 \<le> n \<and> n < 256 ^ 126)"
| "asn_valid (AOid s) = (\<exists>arcs. s = oid_text arcs \<and> oid_ok arcs)"
| "asn_valid (ATime s) = list_all (\<lambda>c. (of_char c :: nat) < 128) s"
| "asn_valid (ASeq vs) = list_all asn_valid vs"
| "asn_valid (ASet vs) = list_all asn_valid vs"
| "asn_valid (AExplicit t v) = (t \<le> 30 \<and> asn_valid v)"
| "asn_valid _ = True"

fun asn_room :: "asn1 \<Rightarrow> nat" where
  "asn_room (ABool b) = 130"
| "asn_room (AInt n) = 256"
| "asn_room (AOctets d) = length d + 129"
| "asn_room ANull = 129"
| "asn_room (AOid s) = 10 * length s + 130"
| "asn_room (ATime s) = length s + 129"
| "asn_room (ASeq vs) = sum_list (map asn_room vs) + 129"
| "asn_room (ASet vs) = sum_list (map asn_room vs) + 129"
| "asn_room (AExplicit t v) = asn_room v + 129"

section \<open>Round trip\<close>

lemma context_tag_bits:
  assumes "k \<le> 30"
  shows "or 160 (int k) = 160 + int k" "(160 + k) mod 32 = k" "odd ((160 + k) div 32)" "(160 + k) div 64 = 2"
proof -
  have "list_all (\<lambda>k. or 160 (int k) = 160 + int k \<and> (160 + k) mod 32 = k \<and> odd ((160 + k) div 32) \<and>
      (160 + k) div 64 = 2) [0..<31]" by code_simp
  moreover have "k \<in> set [0..<31]" using assms by simp
  ultimately have "or 160 (int k) = 160 + int k \<and> (160 + k) mod 32 = k \<and> odd ((160 + k) div 32) \<and> (160 + k) div 64 = 2"
    unfolding list_all_iff by blast
  then show "or 160 (int k) = 160 + int k" "(160 + k) mod 32 = k" "odd ((160 + k) div 32)" "(160 + k) div 64 = 2"
    by blast+
qed

lemma encodes_group:
  assumes "list_all2 encodes bss nodes" "length (concat bss) < 256 ^ 127" "t < 256" "t mod 32 \<noteq> 31" "odd (t div 32)"
  shows "\<exists>bs. tlv (int t) (concat bss) = Inr bs \<and> length bs \<le> length (concat bss) + 129 \<and>
    encodes bs (DerNode (t div 64) (t mod 32) True (concat bss) nodes)"
proof -
  obtain bs where bs: "tlv (int t) (concat bss) = Inr bs" using tlv_total [of "int t" "concat bss"] assms(2,3) by auto
  have bits: "int t mod 32 = int (t mod 32)" "int t div 32 = int (t div 32)" by (simp_all add: zmod_int zdiv_int)
  then have "tag_ok (int t)" using assms(3,4) by (simp add: tag_ok_def)
  moreover have "odd (int t div 32)" using assms(5) by (simp add: bits(2))
  ultimately have "encodes bs (DerNode (nat (int t div 64)) (nat (int t mod 32)) True (concat bss) nodes)"
    by (intro encodes_constructed [OF bs _ _ assms(2,1)])
  with bs length_tlv [OF bs assms(2)] show ?thesis by (simp add: nat_div_distrib nat_mod_distrib)
qed

lemma encode_parts:
  assumes "\<And>v. v \<in> set vs \<Longrightarrow>
      \<exists>bs node. asn_encode v = Inr bs \<and> encodes bs node \<and> represents node v \<and> length bs \<le> asn_room v"
  shows "\<exists>bss nodes. rmap asn_encode vs = Inr bss \<and> list_all2 encodes bss nodes \<and> list_all2 represents nodes vs \<and>
    length (concat bss) \<le> sum_list (map asn_room vs)"
  using assms
proof (induction vs)
  case (Cons v vs)
  obtain bs node where v: "asn_encode v = Inr bs" "encodes bs node" "represents node v" "length bs \<le> asn_room v"
    using Cons.prems [of v] by auto
  obtain bss nodes where vs: "rmap asn_encode vs = Inr bss" "list_all2 encodes bss nodes" "list_all2 represents nodes vs"
      "length (concat bss) \<le> sum_list (map asn_room vs)"
    using Cons by auto
  from v vs show ?case by (intro exI [of _ "bs # bss"] exI [of _ "node # nodes"]) simp
qed simp

lemma room_part: "v \<in> set vs \<Longrightarrow> asn_room v \<le> sum_list (map asn_room vs)"
  by (simp add: member_le_sum_list)

lemma group_encoded:
  assumes "list_all asn_valid vs" "sum_list (map asn_room vs) + 129 < 256 ^ 127"
    and "\<And>v. v \<in> set vs \<Longrightarrow> asn_valid v \<Longrightarrow> asn_room v < 256 ^ 127 \<Longrightarrow>
      \<exists>bs node. asn_encode v = Inr bs \<and> encodes bs node \<and> represents node v \<and> length bs \<le> asn_room v"
    and "t < 256" "t mod 32 \<noteq> 31" "odd (t div 32)"
  shows "\<exists>bs c nodes. rbind (rmap asn_encode vs) (\<lambda>bss. tlv (int t) (concat bss)) = Inr bs \<and>
    encodes bs (DerNode (t div 64) (t mod 32) True c nodes) \<and> list_all2 represents nodes vs \<and>
    length bs \<le> sum_list (map asn_room vs) + 129"
proof -
  have "\<exists>bs node. asn_encode v = Inr bs \<and> encodes bs node \<and> represents node v \<and> length bs \<le> asn_room v"
    if "v \<in> set vs" for v
    using assms(1,2,3) room_part [OF that] that by (auto simp: list_all_iff)
  then obtain bss nodes where vs: "rmap asn_encode vs = Inr bss" "list_all2 encodes bss nodes"
      "list_all2 represents nodes vs" "length (concat bss) \<le> sum_list (map asn_room vs)"
    using encode_parts [of vs] by blast
  from encodes_group [OF vs(2) _ assms(4,5,6)] vs assms(2) show ?thesis by fastforce
qed

lemma asn_encoded:
  "asn_valid v \<Longrightarrow> asn_room v < 256 ^ 127 \<Longrightarrow>
    \<exists>bs node. asn_encode v = Inr bs \<and> encodes bs node \<and> represents node v \<and> length bs \<le> asn_room v"
proof (induction v)
  case (ABool b)
  show ?case using encodes_simple [of 1 "[if b then 255 else 0]"] by (auto simp: der_boolean_def)
next
  case (AInt n)
  then show ?case using der_int.encoded [of n] by simp
next
  case (AOctets d)
  then show ?case using der_octets.encoded [of d] by simp
next
  case ANull
  show ?case using encodes_simple [of 5 "[]"] by (auto simp: der_null_def)
next
  case (AOid s)
  then show ?case using der_oids.encoded [of s] by simp
next
  case (ATime s)
  then show ?case using der_time.encoded [of s] by simp
next
  case (ASeq vs)
  from group_encoded [of vs 48] ASeq show ?case
    by (fastforce simp: der_sequence_def [abs_def] expect_universal_def)
next
  case (ASet vs)
  from group_encoded [of vs 49] ASet show ?case
    by (fastforce simp: der_set_def [abs_def] expect_universal_def)
next
  case (AExplicit t v)
  from AExplicit obtain bs node where v: "asn_encode v = Inr bs" "encodes bs node" "represents node v" "length bs \<le> asn_room v"
    by auto
  have t: "t \<le> 30" using AExplicit.prems(1) by simp
  note bits = context_tag_bits [OF t]
  have "length bs < 256 ^ 127" using v(4) AExplicit.prems(2) by (simp only: asn_room.simps)
  then have "\<exists>c. tlv (int (160 + t)) (concat [bs]) = Inr c \<and> length c \<le> length (concat [bs]) + 129 \<and>
      encodes c (DerNode ((160 + t) div 64) ((160 + t) mod 32) True (concat [bs]) [node])"
    using t v(2) bits(2,3) by (intro encodes_group) simp_all
  then obtain c where c: "tlv (160 + int t) bs = Inr c" "length c \<le> length bs + 129" "encodes c (DerNode 2 t True bs [node])"
    unfolding bits(2,4) by (simp only: concat.simps append_Nil2 of_nat_add of_nat_numeral) blast
  then have "asn_encode (AExplicit t v) = Inr c" using v(1) t bits(1) by (simp add: der_explicit_def)
  moreover have "represents (DerNode 2 t True bs [node]) (AExplicit t v)" using v(3) by (simp add: expect_context_def)
  ultimately show ?case using c v(4) by (intro exI [of _ c] exI [of _ "DerNode 2 t True bs [node]"]) simp
qed

section \<open>The decoder returns\<close>

primrec node_count :: "der_node \<Rightarrow> nat" where
  "node_count (DerNode cls tag constr c children) = Suc (sum_list (map node_count children))"

definition is_der_error :: "pyexc \<Rightarrow> bool" where
  "is_der_error e = (case e of DerError _ \<Rightarrow> True | _ \<Rightarrow> False)"

lemma parse_header_error: "parse_header data off = Inl e \<Longrightarrow> is_der_error e"
  by (auto simp: parse_header_def parse_length_def is_der_error_def Let_def rbind_eq_Inl split: if_splits)

lemma parse_children_outcome:
  "case parse_children content pos of
     Inl e \<Rightarrow> is_der_error e
   | Inr nodes \<Rightarrow> 2 * sum_list (map node_count nodes) \<le> length content - pos"
proof (induction content pos rule: parse_children.induct)
  case (1 content pos)
  show ?case
  proof (cases "pos < length content")
    case True
    show ?thesis
    proof (cases "parse_header content pos")
      case (Inl e)
      with True show ?thesis using parse_header_error by (simp add: parse_children.simps [of content])
    next
      case (Inr h)
      obtain cls tag constr c pos' where h: "h = (cls, tag, constr, c, pos')" by (cases h)
      note b = parse_header_bounds [OF Inr [unfolded h]]
      have inner: "case if constr then parse_children c 0 else Inr [] of Inl e \<Rightarrow> is_der_error e
          | Inr nodes \<Rightarrow> 2 * sum_list (map node_count nodes) \<le> length c"
        using 1(1) [OF True Inr h [symmetric] HOL.refl HOL.refl HOL.refl] by (cases constr) (simp_all split: sum.splits)
      have rest: "case parse_children content pos' of Inl e \<Rightarrow> is_der_error e
          | Inr nodes \<Rightarrow> 2 * sum_list (map node_count nodes) \<le> length content - pos'"
        if "(if constr then parse_children c 0 else Inr []) = Inr ns" for ns
        using 1(2) [OF True Inr h [symmetric] HOL.refl HOL.refl HOL.refl that] .
      obtain r where r: "r = (if constr then parse_children c 0 else Inr [])" by blast
      have "parse_children content pos = rbind r (\<lambda>children. rbind (parse_children content pos') (\<lambda>rest.
          Inr (DerNode cls tag constr c children # rest)))"
        by (subst parse_children.simps) (simp add: True Inr h r)
      with inner rest b show ?thesis
        unfolding r [symmetric] by (cases r; cases "parse_children content pos'") auto
    qed
  qed (simp add: parse_children.simps [of content])
qed

lemma der_decode_total:
  "case der_decode data of Inl e \<Rightarrow> (\<exists>m. e = DerError m) | Inr node \<Rightarrow> 2 * node_count node \<le> length data"
proof (cases "parse_header data 0")
  case (Inl e)
  with parse_header_error [OF Inl] show ?thesis
    by (auto simp: der_decode_def parse_tlv_def is_der_error_def split: pyexc.splits)
next
  case (Inr h)
  obtain cls tag constr c off where h: "h = (cls, tag, constr, c, off)" by (cases h)
  from parse_header_bounds [OF Inr [unfolded h]] parse_children_outcome [of c 0] show ?thesis
    by (auto simp: der_decode_def parse_tlv_def Inr h rbind_def is_der_error_def split: sum.splits pyexc.splits)
qed


text \<open>C20: Encoding and decoding are inverse: every ASN.1 value of the supported types, nested in any way, is encoded
  without an error, and decoding the bytes gives a tree that shows exactly this value through the typed readers.\<close>

theorem der_roundtrip:
  assumes "asn_valid v" "asn_room v < 256 ^ 127"
  shows "\<exists>bs node. asn_encode v = Inr bs \<and> der_decode bs = Inr node \<and> represents node v"
  using asn_encoded [OF assms] encodes_decode by blast

theorem der_roundtrip_witness:
  "asn_valid (ASeq [AInt 300, AExplicit 1 (AOctets [7]), ATime ''20260101000000Z'']) \<and>
   (\<exists>bs node. asn_encode (ASeq [AInt 300, AExplicit 1 (AOctets [7]), ATime ''20260101000000Z'']) = Inr bs \<and>
     der_decode bs = Inr node \<and> represents node (ASeq [AInt 300, AExplicit 1 (AOctets [7]), ATime ''20260101000000Z'']))"
proof
  show v: "asn_valid (ASeq [AInt 300, AExplicit 1 (AOctets [7]), ATime ''20260101000000Z''])" by simp
  show "\<exists>bs node. asn_encode (ASeq [AInt 300, AExplicit 1 (AOctets [7]), ATime ''20260101000000Z'']) = Inr bs \<and>
     der_decode bs = Inr node \<and> represents node (ASeq [AInt 300, AExplicit 1 (AOctets [7]), ATime ''20260101000000Z''])"
    by (rule der_roundtrip [OF v]) simp
qed

end
