(* ===== verification/Rfc3161.thy ===== *)
theory Rfc3161
  imports Asn1 Adapters
begin

text \<open>
  The time-stamp client of \<^verbatim>\<open>infrastructure/rfc3161_client.py\<close> above its DER codec: building a request, reading a
  response, the checks of \<^verbatim>\<open>timestamp()\<close> and the offline \<^verbatim>\<open>verify()\<close>; and the stub of
  \<^verbatim>\<open>infrastructure/rfc3161_tsa.py\<close>. The HTTP exchange is a parameter \<open>post\<close> (request bytes to response bytes or an
  exception). The readings of \<^verbatim>\<open>secrets.randbits(64)\<close> are the argument \<open>draws\<close>; an operation that draws returns
  \<open>None\<close> when it is still drawing after the given readings.
\<close>

section \<open>Structures\<close>

definition hash_oids :: "(string \<times> string) list" where
  "hash_oids =
     [(''sha1'', ''1.3.14.3.2.26''), (''sha256'', ''2.16.840.1.101.3.4.2.1''),
      (''sha384'', ''2.16.840.1.101.3.4.2.2''), (''sha512'', ''2.16.840.1.101.3.4.2.3'')]"

definition oid_signed_data :: string where
  "oid_signed_data = ''1.2.840.113549.1.7.2''"

definition oid_tst_info :: string where
  "oid_tst_info = ''1.2.840.113549.1.9.16.1.4''"

definition pki_status_names :: "(int \<times> string) list" where
  "pki_status_names =
     [(0, ''granted''), (1, ''grantedWithMods''), (2, ''rejection''), (3, ''waiting''),
      (4, ''revocationWarning''), (5, ''revocationNotification'')]"

definition algorithm_identifier :: "string \<Rightarrow> bytes res" where
  "algorithm_identifier hash_oid =
     rbind (der_oid hash_oid) (\<lambda>oid. rbind der_null (\<lambda>null. der_sequence [oid, null]))"

definition message_imprint :: "string \<Rightarrow> bytes \<Rightarrow> bytes res" where
  "message_imprint hash_oid digest =
     rbind (algorithm_identifier hash_oid) (\<lambda>alg. rbind (der_octet_string digest) (\<lambda>d. der_sequence [alg, d]))"

definition build_timestamp_req :: "string \<Rightarrow> bytes \<Rightarrow> int \<Rightarrow> bytes res" where
  "build_timestamp_req hash_oid digest nonce =
     rbind (der_integer 1) (\<lambda>version.
     rbind (message_imprint hash_oid digest) (\<lambda>imprint.
     rbind (der_integer nonce) (\<lambda>n.
     rbind (der_boolean False) (\<lambda>cert_req.
       der_sequence [version, imprint, n, cert_req]))))"

record tst_info =
  gen_time :: string
  hashed_message :: bytes
  ti_nonce :: "int option"

text \<open>The loop over the optional fields: the first universal INTEGER is the nonce.\<close>

fun find_nonce :: "der_node list \<Rightarrow> int option res" where
  "find_nonce [] = Inr None"
| "find_nonce (extra # rest) =
     (if tag_class extra = 0 \<and> tag_number extra = 2 then rbind (der_decode_integer extra) (\<lambda>n. Inr (Some n))
      else find_nonce rest)"

definition parse_tst_info :: "der_node \<Rightarrow> tst_info res" where
  "parse_tst_info node =
     rbind (expect_universal node 16) (\<lambda>_.
       let ch = node_children node in
       if length ch < 5 then Inl (DerError ''TSTInfo too short'')
       else rbind (expect_universal (ch ! 1) 6) (\<lambda>_.
            rbind (expect_universal (ch ! 2) 16) (\<lambda>mi.
              if length (node_children mi) \<noteq> 2 then Inl (DerError ''bad MessageImprint'')
              else rbind (expect_universal (node_children mi ! 0) 16) (\<lambda>_.
                   rbind (der_decode_octet_string (node_children mi ! 1)) (\<lambda>hashed.
                   rbind (expect_universal (ch ! 4) 24) (\<lambda>g.
                   rbind (der_decode_generalized_time g) (\<lambda>gen.
                   rbind (find_nonce (drop 5 ch)) (\<lambda>nonce.
                     Inr \<lparr>gen_time = gen, hashed_message = hashed, ti_nonce = nonce\<rparr>))))))))"

text \<open>Text is a list of code points here: a status string may hold any character.\<close>

type_synonym codepoints = "nat list"

definition points :: "string \<Rightarrow> codepoints" where
  "points s = map of_char s"

text \<open>\<^verbatim>\<open>repr\<close> of a byte string.\<close>

definition bytes_repr :: "bytes \<Rightarrow> codepoints" where
  "bytes_repr bs =
     (let quote = (if (39 \<in> set bs \<and> 34 \<notin> set bs) then 34 else 39 :: byte);
          esc = (\<lambda>b. if b = quote \<or> b = 92 then [92, unat b]
                     else if b = 9 then [92] @ points ''t'' else if b = 10 then [92] @ points ''n'' else if b = 13 then [92] @ points ''r''
                     else if unat b < 32 \<or> 127 \<le> unat b then [92, 120] @ points (hex_byte b)
                     else [unat b]) in
      [98, unat quote] @ concat (map esc bs) @ [unat quote])"

definition parse_pki_status_info :: "der_node \<Rightarrow> (int \<times> codepoints) res" where
  "parse_pki_status_info node =
     rbind (expect_universal node 16) (\<lambda>_.
       let ch = node_children node in
       if ch = [] then Inl (DerError ''empty PKIStatusInfo'')
       else rbind (expect_universal (ch ! 0) 2) (\<lambda>s.
            rbind (der_decode_integer s) (\<lambda>status.
              Inr (status,
                if 1 < length ch \<and> tag_class (ch ! 1) = 0 \<and> tag_number (ch ! 1) = 16
                then join (points ''; '') (map (\<lambda>s.
                       case utf8_decode (node_content s) of Some t \<Rightarrow> t | None \<Rightarrow> bytes_repr (node_content s))
                     (node_children (ch ! 1)))
                else []))))"

record parsed_response =
  pr_status :: int
  status_text :: codepoints
  pr_tst_info :: "tst_info option"

text \<open>The ContentInfo of a response, down to the TSTInfo.\<close>

definition parse_content_info :: "der_node \<Rightarrow> tst_info res" where
  "parse_content_info node =
     rbind (expect_universal node 16) (\<lambda>ci.
     if length (node_children ci) \<noteq> 2 then Inl (DerError ''bad ContentInfo'')
     else rbind (expect_universal (node_children ci ! 0) 6) (\<lambda>t.
     rbind (der_decode_oid t) (\<lambda>ctype.
     if ctype \<noteq> oid_signed_data then Inl (DerError ''unexpected ContentInfo type'')
     else rbind (expect_context (node_children ci ! 1) 0) (\<lambda>content.
     if node_children content = [] then Inl (DerError ''empty ContentInfo.content'')
     else rbind (expect_universal (node_children content ! 0) 16) (\<lambda>signed_data.
     let sd = node_children signed_data in
     if length sd < 3 then Inl (DerError ''SignedData too short'')
     else rbind (expect_universal (sd ! 2) 16) (\<lambda>eci.
     if length (node_children eci) \<noteq> 2 then Inl (DerError ''bad EncapsulatedContentInfo'')
     else rbind (expect_universal (node_children eci ! 0) 6) (\<lambda>t.
     rbind (der_decode_oid t) (\<lambda>econtent_type.
     if econtent_type \<noteq> oid_tst_info then Inl (DerError ''unexpected eContentType'')
     else rbind (expect_context (node_children eci ! 1) 0) (\<lambda>econtent.
     if node_children econtent = [] then Inl (DerError ''empty eContent'')
     else rbind (der_decode_octet_string (node_children econtent ! 0)) (\<lambda>tst_der.
     rbind (der_decode tst_der) (\<lambda>tst.
     rbind (expect_universal tst 16) parse_tst_info)))))))))))"

definition parse_timestamp_resp :: "bytes \<Rightarrow> parsed_response res" where
  "parse_timestamp_resp data =
     rbind (der_decode data) (\<lambda>node.
     rbind (expect_universal node 16) (\<lambda>top.
       let ch = node_children top in
       if ch = [] then Inl (DerError ''empty TimeStampResp'')
       else rbind (parse_pki_status_info (ch ! 0)) (\<lambda>(status, detail).
            rbind (if 1 < length ch then rbind (parse_content_info (ch ! 1)) (\<lambda>i. Inr (Some i)) else Inr None) (\<lambda>info.
            rbind (int_to_str status) (\<lambda>digits.
              let name = dict_get pki_status_names status (''unknown('' @ digits @ '')'') in
              Inr \<lparr>pr_status = status,
                   status_text = points (''PKIStatus='' @ digits @ '' ('' @ name @ '')'') @
                     (if detail = [] then [] else points '': '' @ detail),
                   pr_tst_info = info\<rparr>)))))"

section \<open>Client\<close>

record tsa_client =
  cl_endpoint_url :: string
  cl_authority_id :: string
  cl_hash_name :: string
  cl_hash_oid :: string
  cl_digest_size :: nat

text \<open>\<^verbatim>\<open>hashlib.new(name).digest_size\<close> for the names of the table.\<close>

definition digest_sizes :: "(string \<times> nat) list" where
  "digest_sizes = [(''sha1'', 20), (''sha256'', 32), (''sha384'', 48), (''sha512'', 64)]"

text \<open>The constructor. A name that \<^verbatim>\<open>hashlib\<close> does not know and one that the table does not know raise the
  same exception class. The time-out only concerns the transport.\<close>

definition new_tsa_client :: "string \<Rightarrow> string \<Rightarrow> string \<Rightarrow> tsa_client res" where
  "new_tsa_client endpoint_url auth hash_name =
     (case (map_of hash_oids hash_name, map_of digest_sizes hash_name) of
        (Some oid, Some n) \<Rightarrow>
          Inr \<lparr>cl_endpoint_url = endpoint_url, cl_authority_id = auth, cl_hash_name = hash_name,
               cl_hash_oid = oid, cl_digest_size = n\<rparr>
      | _ \<Rightarrow> Inl (ValueError ''unsupported hash_name''))"

text \<open>The loop that redraws a zero nonce.\<close>

fun draw_nonce :: "64 word list \<Rightarrow> int option" where
  "draw_nonce [] = None"
| "draw_nonce (r # rs) = (if r = 0 then draw_nonce rs else Some (uint r))"

definition build_request :: "tsa_client \<Rightarrow> 64 word list \<Rightarrow> bytes \<Rightarrow> (bytes \<times> int) res option" where
  "build_request cl draws digest =
     (if length digest \<noteq> cl_digest_size cl then Some (Inl (ValueError ''digest size''))
      else map_option (\<lambda>nonce. rbind (build_timestamp_req (cl_hash_oid cl) digest nonce) (\<lambda>req. Inr (req, nonce)))
             (draw_nonce draws))"

text \<open>\<^verbatim>\<open>except DerError as e: raise TsaError(...)\<close>; other exceptions pass.\<close>

definition der_to_tsa :: "string \<Rightarrow> 'a res \<Rightarrow> 'a res" where
  "der_to_tsa msg r = (case r of Inl (DerError m) \<Rightarrow> Inl (TsaError msg) | _ \<Rightarrow> r)"

text \<open>\<^verbatim>\<open>timestamp()\<close> after the request was sent.\<close>

definition check_response :: "tsa_client \<Rightarrow> bytes \<Rightarrow> int \<Rightarrow> bytes \<Rightarrow> tsa_token res" where
  "check_response cl digest nonce raw =
     rbind (der_to_tsa ''malformed TimeStampResp'' (parse_timestamp_resp raw)) (\<lambda>parsed.
     if pr_status parsed \<notin> {0, 1} then Inl (TsaError ''TSA did not grant timestamp'')
     else case pr_tst_info parsed of
       None \<Rightarrow> Inl (TsaError ''granted TimeStampResp carries no TimeStampToken'')
     | Some info \<Rightarrow>
         if hashed_message info \<noteq> digest then Inl (TsaError ''response messageImprint does not match request digest'')
         else (case ti_nonce info of
           None \<Rightarrow> Inl (TsaError ''response TSTInfo is missing the requested nonce'')
         | Some n \<Rightarrow>
             if n \<noteq> nonce then Inl (TsaError ''response nonce does not match request nonce'')
             else rbind (der_to_tsa ''bad genTime in TSTInfo'' (generalized_time_to_iso (gen_time info))) (\<lambda>iso.
                    Inr \<lparr>token_bytes = raw, timestamp_iso = iso, authority_id = cl_authority_id cl\<rparr>)))"

definition client_timestamp ::
  "tsa_client \<Rightarrow> (bytes \<Rightarrow> bytes res) \<Rightarrow> 64 word list \<Rightarrow> bytes \<Rightarrow> tsa_token res option" where
  "client_timestamp cl post draws digest =
     map_option (\<lambda>r. rbind r (\<lambda>(req, nonce). rbind (post req) (check_response cl digest nonce)))
       (build_request cl draws digest)"

definition client_verify :: "bytes \<Rightarrow> tsa_token \<Rightarrow> bool" where
  "client_verify digest token =
     (case parse_timestamp_resp (token_bytes token) of
        Inl _ \<Rightarrow> False
      | Inr parsed \<Rightarrow>
          if pr_status parsed \<notin> {0, 1} then False
          else (case pr_tst_info parsed of None \<Rightarrow> False | Some info \<Rightarrow> hashed_message info = digest))"

section \<open>HTTP stub\<close>

text \<open>\<^verbatim>\<open>Rfc3161HttpTsa\<close>: what it posts is the digest itself.\<close>

definition http_tsa_timestamp :: "string \<Rightarrow> (bytes \<Rightarrow> bytes res) \<Rightarrow> datetime \<Rightarrow> bytes \<Rightarrow> tsa_token res" where
  "http_tsa_timestamp auth post now digest =
     rbind (post digest) (\<lambda>raw.
       Inr \<lparr>token_bytes = raw, timestamp_iso = isoformat_ms now, authority_id = auth\<rparr>)"

definition http_tsa_verify :: "bytes \<Rightarrow> tsa_token \<Rightarrow> bool res" where
  "http_tsa_verify digest token = Inl (NotImplementedError ''TimeStampResp verification'')"

section \<open>Reading a response\<close>

text \<open>The response of a TSA in the shape the repository's own test authority builds
  (\<^verbatim>\<open>tests/test_rfc3161_client.py\<close>), as ASN.1 values.\<close>

definition sha256_algorithm :: asn1 where
  "sha256_algorithm = ASeq [AOid ''2.16.840.1.101.3.4.2.1'', ANull]"

definition tst_value :: "bytes \<Rightarrow> int \<Rightarrow> string \<Rightarrow> asn1" where
  "tst_value digest nonce gen =
     ASeq [AInt 1, AOid ''1.2.3.4'', ASeq [sha256_algorithm, AOctets digest], AInt 42, ATime gen, AInt nonce]"

definition resp_value :: "int \<Rightarrow> bytes \<Rightarrow> asn1" where
  "resp_value status tst =
     ASeq [ASeq [AInt status],
       ASeq [AOid oid_signed_data, AExplicit 0 (ASeq [AInt 1, ASet [sha256_algorithm],
         ASeq [AOid oid_tst_info, AExplicit 0 (AOctets tst)], ASet []])]]"

definition request_value :: "string \<Rightarrow> bytes \<Rightarrow> int \<Rightarrow> asn1" where
  "request_value oid digest nonce = ASeq [AInt 1, ASeq [ASeq [AOid oid, ANull], AOctets digest], AInt nonce, ABool False]"

lemma build_timestamp_req_value: "build_timestamp_req oid digest nonce = asn_encode (request_value oid digest nonce)"
  by (simp add: build_timestamp_req_def request_value_def message_imprint_def algorithm_identifier_def rbind_assoc)

lemma reader_tags:
  "der_decode_oid n = Inr s \<Longrightarrow> expect_universal n 6 = Inr n"
  "der_decode_integer n = Inr i \<Longrightarrow> expect_universal n 2 = Inr n"
  "der_decode_generalized_time n = Inr t \<Longrightarrow> expect_universal n 24 = Inr n"
  by (auto simp: der_decode_oid_def der_decode_integer_def der_decode_generalized_time_def expect_universal_def
      split: if_splits)

lemma parse_tst_value:
  assumes "represents node (tst_value digest nonce gen)"
  shows "parse_tst_info node = Inr \<lparr>gen_time = gen, hashed_message = digest, ti_nonce = Some nonce\<rparr>"
    "expect_universal node 16 = Inr node"
proof -
  from assms obtain v p mi serial g n where ch: "node_children node = [v, p, mi, serial, g, n]"
      and r: "der_decode_oid p = Inr ''1.2.3.4''" "represents mi (ASeq [sha256_algorithm, AOctets digest])"
        "der_decode_generalized_time g = Inr gen" "der_decode_integer n = Inr nonce"
      and top: "expect_universal node 16 = Inr node"
    by (auto simp: tst_value_def list_all2_Cons2)
  from r(2) obtain a d where mi: "node_children mi = [a, d]" "expect_universal a 16 = Inr a"
      "der_decode_octet_string d = Inr digest" "expect_universal mi 16 = Inr mi"
    by (auto simp: list_all2_Cons2 sha256_algorithm_def)
  have "tag_class n = 0" "tag_number n = 2" using reader_tags(2) [OF r(4)] by (auto simp: expect_universal_def split: if_splits)
  then show "parse_tst_info node = Inr \<lparr>gen_time = gen, hashed_message = digest, ti_nonce = Some nonce\<rparr>"
    using mi r reader_tags(1) [OF r(1)] reader_tags(3) [OF r(3)] by (simp add: parse_tst_info_def top ch Let_def)
  show "expect_universal node 16 = Inr node" by (rule top)
qed

lemma parse_content_value:
  assumes "represents node (ASeq [AOid oid_signed_data, AExplicit 0 (ASeq [AInt 1, ASet [sha256_algorithm],
         ASeq [AOid oid_tst_info, AExplicit 0 (AOctets tst)], ASet []])])"
    and "der_decode tst = Inr tn" "represents tn (tst_value digest nonce gen)"
  shows "parse_content_info node = Inr \<lparr>gen_time = gen, hashed_message = digest, ti_nonce = Some nonce\<rparr>"
proof -
  from assms(1) obtain t c where ci: "node_children node = [t, c]" "expect_universal node 16 = Inr node"
      and t: "der_decode_oid t = Inr oid_signed_data"
      and c: "represents c (AExplicit 0 (ASeq [AInt 1, ASet [sha256_algorithm],
         ASeq [AOid oid_tst_info, AExplicit 0 (AOctets tst)], ASet []]))"
    by (auto simp: list_all2_Cons2 simp del: represents.simps(9))
  from c obtain s where cs: "node_children c = [s]" "expect_context c 0 = Inr c"
      and s: "represents s (ASeq [AInt 1, ASet [sha256_algorithm], ASeq [AOid oid_tst_info, AExplicit 0 (AOctets tst)], ASet []])"
    by (auto split: list.splits simp del: represents.simps(7))
  from s obtain v a e i where sd: "node_children s = [v, a, e, i]" "expect_universal s 16 = Inr s"
      and e: "represents e (ASeq [AOid oid_tst_info, AExplicit 0 (AOctets tst)])"
    by (auto simp: list_all2_Cons2 simp del: represents.simps(8,9))
  from e obtain t2 c2 where eci: "node_children e = [t2, c2]" "expect_universal e 16 = Inr e"
      "der_decode_oid t2 = Inr oid_tst_info" and c2: "represents c2 (AExplicit 0 (AOctets tst))"
    by (auto simp: list_all2_Cons2 simp del: represents.simps(9))
  from c2 obtain o2 where "node_children c2 = [o2]" "expect_context c2 0 = Inr c2" "der_decode_octet_string o2 = Inr tst"
    by (auto split: list.splits)
  with ci t cs sd eci parse_tst_value [OF assms(3)] assms(2) show ?thesis
    by (simp add: parse_content_info_def reader_tags Let_def)
qed

lemma parse_resp_value:
  assumes "der_decode raw = Inr node" "represents node (resp_value status tst)"
    and "der_decode tst = Inr tn" "represents tn (tst_value digest nonce gen)" "int_to_str status = Inr ds"
  shows "\<exists>p. parse_timestamp_resp raw = Inr p \<and> pr_status p = status \<and>
    pr_tst_info p = Some \<lparr>gen_time = gen, hashed_message = digest, ti_nonce = Some nonce\<rparr>"
proof -
  from assms(2) obtain s c where ch: "node_children node = [s, c]" "expect_universal node 16 = Inr node"
      and s: "represents s (ASeq [AInt status])"
      and c: "represents c (ASeq [AOid oid_signed_data, AExplicit 0 (ASeq [AInt 1, ASet [sha256_algorithm],
         ASeq [AOid oid_tst_info, AExplicit 0 (AOctets tst)], ASet []])])"
    by (auto simp: resp_value_def list_all2_Cons2 simp del: represents.simps(9))
  from s obtain n where n: "node_children s = [n]" "der_decode_integer n = Inr status" "expect_universal s 16 = Inr s"
    by (auto simp: list_all2_Cons2)
  then have "parse_pki_status_info s = Inr (status, [])" by (simp add: parse_pki_status_info_def reader_tags Let_def)
  with parse_content_value [OF c assms(3,4)] ch assms(1,5) show ?thesis
    by (simp add: parse_timestamp_resp_def Let_def)
qed

section \<open>The test authority\<close>

text \<open>The stub server of the repository's tests: it reads digest and nonce out of the request and answers with a
  synthetic response.\<close>

definition stub_post :: "int \<Rightarrow> string \<Rightarrow> bytes \<Rightarrow> bytes res" where
  "stub_post status gen req =
     rbind (der_decode req) (\<lambda>node.
       let ch = node_children node in
       if length ch < 3 \<or> length (node_children (ch ! 1)) < 2 then Inl (IndexError 0)
       else rbind (der_decode_octet_string (node_children (ch ! 1) ! 1)) (\<lambda>digest.
            rbind (der_decode_integer (ch ! 2)) (\<lambda>nonce.
            rbind (asn_encode (tst_value digest nonce gen)) (\<lambda>tst.
              asn_encode (resp_value status tst)))))"

lemma oid_texts:
  "''1.2.3.4'' = oid_text [1, 2, 3, 4]" "oid_signed_data = oid_text [1, 2, 840, 113549, 1, 7, 2]"
  "oid_tst_info = oid_text [1, 2, 840, 113549, 1, 9, 16, 1, 4]"
  "''1.3.14.3.2.26'' = oid_text [1, 3, 14, 3, 2, 26]"
  "''2.16.840.1.101.3.4.2.1'' = oid_text [2, 16, 840, 1, 101, 3, 4, 2, 1]"
  "''2.16.840.1.101.3.4.2.2'' = oid_text [2, 16, 840, 1, 101, 3, 4, 2, 2]"
  "''2.16.840.1.101.3.4.2.3'' = oid_text [2, 16, 840, 1, 101, 3, 4, 2, 3]"
  by (simp_all add: oid_text_def oid_signed_data_def oid_tst_info_def nat_str.simps digit_char_def char_of_def bit_0)

lemma oid_validI: "oid_ok arcs \<Longrightarrow> asn_valid (AOid (oid_text arcs))"
  by auto

lemma oid_valid:
  "asn_valid (AOid ''1.2.3.4'')" "asn_valid (AOid oid_signed_data)" "asn_valid (AOid oid_tst_info)"
  "asn_valid (AOid ''2.16.840.1.101.3.4.2.1'')"
  unfolding oid_texts by (rule oid_validI, simp add: oid_ok_def)+

lemma new_tsa_client_cases:
  assumes "new_tsa_client url auth name = Inr cl"
  shows "(name, cl_hash_oid cl) \<in> set hash_oids" "cl_digest_size cl \<le> 64" "cl_authority_id cl = auth"
    "asn_valid (AOid (cl_hash_oid cl))" "length (cl_hash_oid cl) \<le> 30"
proof -
  obtain oid n where cl: "map_of hash_oids name = Some oid" "map_of digest_sizes name = Some n"
      "cl_hash_oid cl = oid" "cl_digest_size cl = n" "cl_authority_id cl = auth"
    using assms by (auto simp: new_tsa_client_def split: option.splits)
  from map_of_SomeD [OF cl(1)] show mem: "(name, cl_hash_oid cl) \<in> set hash_oids" by (simp add: cl(3))
  from map_of_SomeD [OF cl(2)] show "cl_digest_size cl \<le> 64" by (auto simp: cl(4) digest_sizes_def)
  show "cl_authority_id cl = auth" by (rule cl(5))
  have "list_all (\<lambda>(_, oid). length oid \<le> 30) hash_oids" by code_simp
  with mem show "length (cl_hash_oid cl) \<le> 30" by (auto simp: list_all_iff)
  have "asn_valid (AOid ''1.3.14.3.2.26'')" "asn_valid (AOid ''2.16.840.1.101.3.4.2.2'')"
      "asn_valid (AOid ''2.16.840.1.101.3.4.2.3'')"
    unfolding oid_texts by (rule oid_validI, simp add: oid_ok_def)+
  with oid_valid(4) mem show "asn_valid (AOid (cl_hash_oid cl))" by (auto simp: hash_oids_def simp del: asn_valid.simps(2))
qed

lemma draw_nonce_range: "draw_nonce draws = Some n \<Longrightarrow> 0 < n \<and> n < 2 ^ 64 \<and> word_of_int n \<in> set draws"
proof (induction draws)
  case (Cons r rs)
  have "r \<noteq> 0 \<Longrightarrow> 0 < uint r" using uint_ge_0 [of r] by (simp add: order_less_le uint_0_iff)
  moreover have "uint r < 2 ^ 64" using uint_lt2p [of r] by simp
  ultimately show ?case using Cons by (auto split: if_splits)
qed simp

lemma draw_nonce_returns: "draw_nonce draws = None \<longleftrightarrow> (\<forall>r \<in> set draws. r = 0)"
  by (induction draws) auto

text \<open>What the authority reads back from a request is what the client put in.\<close>

lemma request_understood:
  assumes "new_tsa_client url auth name = Inr cl" "length digest = cl_digest_size cl" "0 < nonce" "nonce < 2 ^ 64"
  shows "\<exists>req node. build_timestamp_req (cl_hash_oid cl) digest nonce = Inr req \<and> der_decode req = Inr node \<and>
    represents node (request_value (cl_hash_oid cl) digest nonce)"
proof -
  note cl = new_tsa_client_cases [OF assms(1)]
  have "(2 :: int) ^ 64 < 256 ^ 126" by simp
  with assms(4) have "nonce < 256 ^ 126" by linarith
  then have v: "asn_valid (request_value (cl_hash_oid cl) digest nonce)"
    using assms(3) cl(4) by (simp add: request_value_def del: asn_valid.simps(2))
  have "asn_room (request_value (cl_hash_oid cl) digest nonce) \<le> 10000"
    using cl(2,5) assms(2) by (simp add: request_value_def)
  also have "(10000 :: nat) < 256 ^ 127" by simp
  finally have "asn_room (request_value (cl_hash_oid cl) digest nonce) < 256 ^ 127" .
  from asn_encoded [OF v this] encodes_decode show ?thesis unfolding build_timestamp_req_value by blast
qed

text \<open>Every response the authority builds is read back by the client's parser.\<close>

lemma response_understood:
  assumes "length digest \<le> 64" "0 \<le> nonce" "nonce < 2 ^ 64" "status \<in> {0..5}"
    and "list_all (\<lambda>c. (of_char c :: nat) < 128) gen" "length gen \<le> 1000"
  shows "\<exists>tst raw p. asn_encode (tst_value digest nonce gen) = Inr tst \<and> asn_encode (resp_value status tst) = Inr raw \<and>
    parse_timestamp_resp raw = Inr p \<and> pr_status p = status \<and>
    pr_tst_info p = Some \<lparr>gen_time = gen, hashed_message = digest, ti_nonce = Some nonce\<rparr>"
proof -
  have "(2 :: int) ^ 64 < 256 ^ 126" by simp
  with assms(3) have "nonce < 256 ^ 126" by linarith
  with assms(2,5) have v1: "asn_valid (tst_value digest nonce gen)"
    by (simp add: tst_value_def sha256_algorithm_def oid_valid del: asn_valid.simps(2))
  have r1: "asn_room (tst_value digest nonce gen) \<le> 10000"
    using assms(1,6) by (simp add: tst_value_def sha256_algorithm_def)
  have big: "(20000 :: nat) < 256 ^ 127" by simp
  with r1 have "asn_room (tst_value digest nonce gen) < 256 ^ 127" by linarith
  from asn_encoded [OF v1 this] obtain tst tn where tst: "asn_encode (tst_value digest nonce gen) = Inr tst"
      "encodes tst tn" "represents tn (tst_value digest nonce gen)" "length tst \<le> asn_room (tst_value digest nonce gen)"
    by blast
  have v2: "asn_valid (resp_value status tst)"
    using assms(4) by (simp add: resp_value_def sha256_algorithm_def oid_valid del: asn_valid.simps(2))
  have "asn_room (resp_value status tst) \<le> 20000"
    using r1 tst(4) by (simp add: resp_value_def sha256_algorithm_def oid_signed_data_def oid_tst_info_def)
  with big have "asn_room (resp_value status tst) < 256 ^ 127" by linarith
  from asn_encoded [OF v2 this] obtain raw node where raw: "asn_encode (resp_value status tst) = Inr raw"
      "encodes raw node" "represents node (resp_value status tst)"
    by blast
  have "nat \<bar>status\<bar> < 10 ^ 1" using assms(4) by auto
  from length_nat_str_le [OF this] have "\<exists>ds. int_to_str status = Inr ds" by (simp add: int_to_str_def)
  with parse_resp_value [OF encodes_decode [OF raw(2)] raw(3) encodes_decode [OF tst(2)] tst(3)] tst(1) raw(1)
  show ?thesis by blast
qed

section \<open>What the client guarantees\<close>

lemma stub_answers:
  assumes "new_tsa_client url auth name = Inr cl" "length digest = cl_digest_size cl" "draw_nonce draws = Some nonce"
    and "status \<in> {0..5}" "list_all (\<lambda>c. (of_char c :: nat) < 128) gen" "length gen \<le> 1000"
  shows "\<exists>req raw p. build_request cl draws digest = Some (Inr (req, nonce)) \<and> stub_post status gen req = Inr raw \<and>
    parse_timestamp_resp raw = Inr p \<and> pr_status p = status \<and>
    pr_tst_info p = Some \<lparr>gen_time = gen, hashed_message = digest, ti_nonce = Some nonce\<rparr>"
proof -
  have n: "0 < nonce" "nonce < 2 ^ 64" using draw_nonce_range [OF assms(3)] by simp_all
  obtain req node where req: "build_timestamp_req (cl_hash_oid cl) digest nonce = Inr req" "der_decode req = Inr node"
      "represents node (request_value (cl_hash_oid cl) digest nonce)"
    using request_understood [OF assms(1,2) n] by blast
  from req(3) obtain v m i c a d where "node_children node = [v, m, i, c]" "node_children m = [a, d]"
      "der_decode_octet_string d = Inr digest" "der_decode_integer i = Inr nonce"
    by (auto simp: request_value_def list_all2_Cons2)
  then have post: "stub_post status gen req = rbind (asn_encode (tst_value digest nonce gen)) (\<lambda>tst. asn_encode (resp_value status tst))"
    by (simp add: stub_post_def req(2) Let_def)
  have "length digest \<le> 64" "0 \<le> nonce" using new_tsa_client_cases(2) [OF assms(1)] assms(2) n by simp_all
  from response_understood [OF this n(2) assms(4,5,6)] req(1) assms(2,3) show ?thesis
    by (auto simp: build_request_def post)
qed

lemma stub_session:
  assumes "new_tsa_client url auth name = Inr cl" "length digest = cl_digest_size cl" "draw_nonce draws = Some nonce"
    and "status \<in> {0, 1}" "list_all (\<lambda>c. (of_char c :: nat) < 128) gen" "length gen \<le> 1000"
  shows "\<exists>raw. client_timestamp cl (stub_post status gen) draws digest =
      Some (rbind (der_to_tsa ''bad genTime in TSTInfo'' (generalized_time_to_iso gen)) (\<lambda>iso.
        Inr \<lparr>token_bytes = raw, timestamp_iso = iso, authority_id = auth\<rparr>)) \<and>
    (\<forall>d iso. client_verify d \<lparr>token_bytes = raw, timestamp_iso = iso, authority_id = auth\<rparr> \<longleftrightarrow> d = digest)"
proof -
  have st: "status \<in> {0..5}" using assms(4) by auto
  obtain req raw p where r: "build_request cl draws digest = Some (Inr (req, nonce))" "stub_post status gen req = Inr raw"
    "parse_timestamp_resp raw = Inr p" "pr_status p = status"
    "pr_tst_info p = Some \<lparr>gen_time = gen, hashed_message = digest, ti_nonce = Some nonce\<rparr>"
    using stub_answers [OF assms(1,2,3) st assms(5,6)] by blast
  then show ?thesis
    using assms(4) new_tsa_client_cases(3) [OF assms(1)]
    by (intro exI [of _ raw]) (auto simp: client_timestamp_def check_response_def der_to_tsa_def client_verify_def)
qed

text \<open>A client for the samples below.\<close>

definition sample_client :: tsa_client where
  "sample_client = \<lparr>cl_endpoint_url = ''http://tsa'', cl_authority_id = ''t'', cl_hash_name = ''sha1'',
     cl_hash_oid = ''1.3.14.3.2.26'', cl_digest_size = 20\<rparr>"

lemma sample_client_new: "new_tsa_client ''http://tsa'' ''t'' ''sha1'' = Inr sample_client"
  by (simp add: new_tsa_client_def hash_oids_def digest_sizes_def sample_client_def)

lemma session_at:
  assumes "new_tsa_client url auth name = Inr cl" "length digest = cl_digest_size cl" "\<exists>r \<in> set draws. r \<noteq> 0"
    and "status \<in> {0, 1}" "gt_fields t" "dt_offset t = Some 0"
  shows "\<exists>raw. client_timestamp cl (stub_post status (gt_text t)) draws digest =
      Some (rbind (mk_datetime t) (\<lambda>t. Inr \<lparr>token_bytes = raw, timestamp_iso = isoformat t, authority_id = auth\<rparr>)) \<and>
    (\<forall>d ts. client_verify d \<lparr>token_bytes = raw, timestamp_iso = ts, authority_id = auth\<rparr> \<longleftrightarrow> d = digest)"
proof -
  obtain nonce where n: "draw_nonce draws = Some nonce" using assms(3) draw_nonce_returns [of draws] by (cases "draw_nonce draws") auto
  have "der_to_tsa m (generalized_time_to_iso (gt_text t)) = generalized_time_to_iso (gt_text t)" for m
    by (simp add: generalized_time_text [OF assms(5,6)] mk_datetime_def der_to_tsa_def)
  with stub_session [OF assms(1,2) n assms(4) gt_text_ascii [OF assms(5)]] show ?thesis
    by (simp add: generalized_time_text [OF assms(5,6)] rbind_assoc)
qed

lemma session_returns:
  assumes "new_tsa_client url auth name = Inr cl" "length digest = cl_digest_size cl" "\<exists>r \<in> set draws. r \<noteq> 0"
    and "status \<in> {0, 1}" "valid_datetime t" "dt_offset t = Some 0"
  shows "\<exists>tok. client_timestamp cl (stub_post status (gt_text t)) draws digest = Some (Inr tok) \<and>
    timestamp_iso tok = isoformat t \<and> (\<forall>d. client_verify d tok \<longleftrightarrow> d = digest)"
proof -
  have "mk_datetime t = Inr t" using assms(5,6) by (simp add: mk_datetime_def day_us_def)
  with session_at [OF assms(1-4) valid_gt_fields [OF assms(5)] assms(6)] show ?thesis by auto
qed

text \<open>C21: Whatever the network delivers: when the client returns a token, the request it sent carries the digest's
  imprint and a fresh non-zero nonce, and the response it accepted has status granted or grantedWithMods, an imprint
  equal to the digest and the same nonce; the token is that response, its time the response's time, and it verifies
  for exactly this digest.\<close>

theorem timestamp_accepts_only_matching:
  assumes "client_timestamp cl post draws digest = Some (Inr tok)"
  shows "length digest = cl_digest_size cl \<and>
    (\<exists>nonce req info p. draw_nonce draws = Some nonce \<and> nonce \<noteq> 0 \<and>
      build_timestamp_req (cl_hash_oid cl) digest nonce = Inr req \<and> post req = Inr (token_bytes tok) \<and>
      parse_timestamp_resp (token_bytes tok) = Inr p \<and> pr_status p \<in> {0, 1} \<and> pr_tst_info p = Some info \<and>
      hashed_message info = digest \<and> ti_nonce info = Some nonce \<and>
      generalized_time_to_iso (gen_time info) = Inr (timestamp_iso tok)) \<and>
    (\<forall>d. client_verify d tok \<longleftrightarrow> d = digest)"
proof -
  from assms obtain req nonce raw where b: "length digest = cl_digest_size cl" "draw_nonce draws = Some nonce"
      "build_timestamp_req (cl_hash_oid cl) digest nonce = Inr req" "post req = Inr raw"
      "check_response cl digest nonce raw = Inr tok"
    by (auto simp: client_timestamp_def build_request_def rbind_eq_Inr split: if_splits)
  from b(5) obtain p where p: "der_to_tsa ''malformed TimeStampResp'' (parse_timestamp_resp raw) = Inr p"
    by (auto simp: check_response_def rbind_eq_Inr)
  then have parsed: "parse_timestamp_resp raw = Inr p" by (auto simp: der_to_tsa_def split: sum.splits pyexc.splits)
  from b(5) obtain info where i: "pr_status p \<in> {0, 1}" "pr_tst_info p = Some info" "hashed_message info = digest"
      "ti_nonce info = Some nonce" "der_to_tsa ''bad genTime in TSTInfo'' (generalized_time_to_iso (gen_time info)) = Inr (timestamp_iso tok)"
      "token_bytes tok = raw"
    by (auto simp: check_response_def p rbind_eq_Inr split: if_splits option.splits)
  then have "generalized_time_to_iso (gen_time info) = Inr (timestamp_iso tok)"
    by (auto simp: der_to_tsa_def split: sum.splits pyexc.splits)
  moreover have "nonce \<noteq> 0" using draw_nonce_range [OF b(2)] by simp
  moreover have "\<forall>d. client_verify d tok \<longleftrightarrow> d = digest" using i parsed by (auto simp: client_verify_def)
  ultimately show ?thesis using b i parsed by blast
qed

theorem timestamp_accepts_only_matching_witness:
  "\<exists>tok nonce req p info. client_timestamp sample_client (stub_post 0 (gt_text epoch)) [0, 7] (replicate 20 9) = Some (Inr tok) \<and>
    draw_nonce [0, 7] = Some nonce \<and> stub_post 0 (gt_text epoch) req = Inr (token_bytes tok) \<and>
    parse_timestamp_resp (token_bytes tok) = Inr p \<and> pr_tst_info p = Some info \<and>
    hashed_message info = replicate 20 9 \<and> ti_nonce info = Some nonce \<and> client_verify (replicate 20 9) tok"
proof -
  have "\<exists>tok. client_timestamp sample_client (stub_post 0 (gt_text epoch)) [0, 7] (replicate 20 9) = Some (Inr tok) \<and>
      timestamp_iso tok = isoformat epoch \<and> (\<forall>d. client_verify d tok \<longleftrightarrow> d = replicate 20 9)"
    by (rule session_returns [OF sample_client_new]) (simp_all add: sample_client_def)
  then obtain tok where tok: "client_timestamp sample_client (stub_post 0 (gt_text epoch)) [0, 7] (replicate 20 9) = Some (Inr tok)"
    by blast
  note m = timestamp_accepts_only_matching [OF tok, THEN conjunct2]
  have "client_verify (replicate 20 9) tok" using m [THEN conjunct2] by simp
  moreover obtain nonce req info p where "draw_nonce [0, 7] = Some nonce" "stub_post 0 (gt_text epoch) req = Inr (token_bytes tok)"
      "parse_timestamp_resp (token_bytes tok) = Inr p" "pr_tst_info p = Some info" "hashed_message info = replicate 20 9"
      "ti_nonce info = Some nonce"
    using m [THEN conjunct1] by (elim exE conjE)
  ultimately show ?thesis
    using tok by (intro exI [of _ tok] exI [of _ nonce] exI [of _ req] exI [of _ p] exI [of _ info] conjI)
qed

text \<open>A response that is well-formed but carries a calendar date that does not exist passes every check, and then a plain
  \<^verbatim>\<open>ValueError\<close> leaves \<^verbatim>\<open>timestamp()\<close>: only \<^verbatim>\<open>DerError\<close> is turned into \<^verbatim>\<open>TsaError\<close>. \<^verbatim>\<open>verify()\<close> accepts the same response.\<close>

theorem impossible_date_escapes:
  assumes "new_tsa_client url auth name = Inr cl" "length digest = cl_digest_size cl" "\<exists>r \<in> set draws. r \<noteq> 0"
    and "gt_fields t" "dt_offset t = Some 0" "\<not> valid_datetime t"
  shows "(\<exists>m. client_timestamp cl (stub_post 0 (gt_text t)) draws digest = Some (Inl (ValueError m))) \<and>
    (\<exists>req nonce raw. build_request cl draws digest = Some (Inr (req, nonce)) \<and> stub_post 0 (gt_text t) req = Inr raw \<and>
      (\<forall>ts. client_verify digest \<lparr>token_bytes = raw, timestamp_iso = ts, authority_id = auth\<rparr>))"
proof
  have "mk_datetime t = Inl (ValueError ''datetime'')" using assms(6) by (simp add: mk_datetime_def)
  with session_at [OF assms(1,2,3) _ assms(4,5), of 0]
  show "\<exists>m. client_timestamp cl (stub_post 0 (gt_text t)) draws digest = Some (Inl (ValueError m))" by auto
  obtain nonce where n: "draw_nonce draws = Some nonce" using assms(3) draw_nonce_returns [of draws] by (cases "draw_nonce draws") auto
  from stub_answers [OF assms(1,2) n _ gt_text_ascii [OF assms(4)], of 0]
  show "\<exists>req nonce raw. build_request cl draws digest = Some (Inr (req, nonce)) \<and> stub_post 0 (gt_text t) req = Inr raw \<and>
      (\<forall>ts. client_verify digest \<lparr>token_bytes = raw, timestamp_iso = ts, authority_id = auth\<rparr>)"
    by (auto simp: client_verify_def)
qed

theorem impossible_date_escapes_witness:
  "\<exists>m. client_timestamp sample_client (stub_post 0 (gt_text (epoch\<lparr>dt_month := 13\<rparr>))) [7] (replicate 20 9) = Some (Inl (ValueError m))"
  using impossible_date_escapes [OF sample_client_new, of "replicate 20 9" "[7]" "epoch\<lparr>dt_month := 13\<rparr>"]
  by (simp add: sample_client_def epoch_def gt_fields_def valid_datetime_def)

section \<open>Exceptions\<close>

definition der_or_value :: "pyexc \<Rightarrow> bool" where
  "der_or_value e = (case e of DerError _ \<Rightarrow> True | ValueError _ \<Rightarrow> True | _ \<Rightarrow> False)"

definition tsa_or_value :: "pyexc \<Rightarrow> bool" where
  "tsa_or_value e = (case e of TsaError _ \<Rightarrow> True | ValueError _ \<Rightarrow> True | _ \<Rightarrow> False)"

lemma der_or_value_simps [simp]: "der_or_value (DerError m)" "der_or_value (ValueError m)"
  by (simp_all add: der_or_value_def)

lemma tsa_or_value_simps [simp]: "tsa_or_value (TsaError m)" "tsa_or_value (ValueError m)"
  by (simp_all add: tsa_or_value_def)

lemma raises_readers:
  "raises der_or_value (expect_universal n t)" "raises der_or_value (expect_context n t)"
  "raises der_or_value (der_decode_integer n)" "raises der_or_value (der_decode_octet_string n)"
  "raises der_or_value (der_decode_generalized_time n)"
  by (auto simp: expect_universal_def expect_context_def der_decode_integer_def der_decode_octet_string_def
      der_decode_generalized_time_def Let_def intro!: raises_rbind split: option.splits)

lemma raises_int_to_str: "raises der_or_value (int_to_str i)"
  by (simp add: int_to_str_def)

lemma raises_rmap: "(\<And>x. raises E (f x)) \<Longrightarrow> raises E (rmap f xs)"
  by (induction xs) (auto intro!: raises_rbind)

lemma raises_decode_oid: "raises der_or_value (der_decode_oid n)"
  unfolding der_decode_oid_def
  by (intro raises_rbind raises_readers)
    (auto simp: raises_readers intro!: raises_rbind raises_rmap raises_int_to_str split: list.splits prod.splits)

lemma raises_der_decode: "raises der_or_value (der_decode data)"
  using der_decode_total [of data] by (auto simp: raises_def split: sum.splits)

lemma raises_find_nonce: "raises der_or_value (find_nonce ns)"
  by (induction ns) (auto intro!: raises_rbind raises_readers)

lemmas raises_parts = raises_readers raises_int_to_str raises_decode_oid raises_der_decode raises_find_nonce

lemma raises_tst_info: "raises der_or_value (parse_tst_info n)"
  unfolding parse_tst_info_def Let_def by (intro raises_rbind raises_if raises_parts) simp_all

lemma raises_content_info: "raises der_or_value (parse_content_info n)"
  unfolding parse_content_info_def Let_def
  by (intro raises_rbind raises_if raises_parts raises_tst_info) simp_all

lemma raises_parse_resp: "raises der_or_value (parse_timestamp_resp raw)"
proof -
  have pki: "raises der_or_value (parse_pki_status_info n)" for n
    unfolding parse_pki_status_info_def Let_def by (intro raises_rbind raises_if raises_parts) simp_all
  show ?thesis
    unfolding parse_timestamp_resp_def Let_def case_prod_beta
    by (intro raises_rbind raises_if raises_parts raises_content_info pki) simp_all
qed

lemma raises_to_tsa: "raises der_or_value r \<Longrightarrow> raises tsa_or_value (der_to_tsa m r)"
  by (auto simp: raises_def der_to_tsa_def der_or_value_def tsa_or_value_def split: sum.splits pyexc.splits)

lemma raises_check_response: "raises tsa_or_value (check_response cl digest nonce raw)"
proof -
  have gt: "raises der_or_value (generalized_time_to_iso g)" for g
    unfolding generalized_time_to_iso_def Let_def mk_datetime_def
    by (auto intro!: raises_rbind split: option.splits)
  show ?thesis
    unfolding check_response_def
    by (intro raises_rbind raises_to_tsa raises_parse_resp) (auto intro!: raises_rbind raises_to_tsa gt split: option.splits)
qed



section \<open>The client as a timestamp authority\<close>

text \<open>Against the test authority with its clock at \<open>t\<close>, the client satisfies the contract of a timestamp authority on the
  digests of its size.\<close>

definition session_token :: "tsa_client \<Rightarrow> int \<Rightarrow> datetime \<Rightarrow> 64 word list \<Rightarrow> bytes \<Rightarrow> tsa_token res option" where
  "session_token cl status t draws digest = client_timestamp cl (stub_post status (gt_text t)) draws digest"

definition token_check :: "bytes \<Rightarrow> tsa_token res option \<Rightarrow> bool" where
  "token_check digest r = (case r of Some (Inr tok) \<Rightarrow> client_verify digest tok | _ \<Rightarrow> False)"

definition session_ok :: "tsa_client \<Rightarrow> int \<Rightarrow> datetime \<Rightarrow> 64 word list \<Rightarrow> bytes \<Rightarrow> bool" where
  "session_ok cl status t draws digest =
     (new_tsa_client (cl_endpoint_url cl) (cl_authority_id cl) (cl_hash_name cl) = Inr cl \<and>
      length digest = cl_digest_size cl \<and> (\<exists>r \<in> set draws. r \<noteq> 0) \<and> status \<in> {0, 1} \<and>
      valid_datetime t \<and> dt_offset t = Some 0)"

lemma session_outcome:
  assumes "session_ok cl status t draws digest"
  shows "\<exists>tok. session_token cl status t draws digest = Some (Inr tok) \<and> timestamp_iso tok = isoformat t \<and>
    (\<forall>d. client_verify d tok \<longleftrightarrow> d = digest)"
  unfolding session_token_def
  by (rule session_returns) (use assms in \<open>unfold session_ok_def, blast\<close>)+

interpretation client_tsa: tsa_roundtrip "session_token cl status t draws" token_check "session_ok cl status t draws"
  for cl status t draws
proof unfold_locales
  fix g h :: bytes
  have check: "token_check d (session_token cl status t draws g) \<longleftrightarrow> d = g" if ok: "session_ok cl status t draws g" for d g
  proof -
    obtain tok where "session_token cl status t draws g = Some (Inr tok)" "\<forall>d. client_verify d tok \<longleftrightarrow> d = g"
      using session_outcome [OF ok] by blast
    then show ?thesis by (simp add: token_check_def)
  qed
  show "session_ok cl status t draws g \<Longrightarrow> token_check g (session_token cl status t draws g)" using check by simp
  show "session_ok cl status t draws h \<Longrightarrow> token_check g (session_token cl status t draws h) \<Longrightarrow> g = h" using check by simp
qed

text \<open>A whole session with the test authority, whose clock shows the UTC instant \<open>t\<close>: for each supported hash, a digest of
  the right size and a source of randomness that is not stuck at zero, the client obtains a token that carries \<open>t\<close> in ISO
  format; the token verifies for that digest and for no other.\<close>

theorem stub_session_stamps:
  assumes "session_ok cl status t draws digest"
  shows "\<exists>tok. client_timestamp cl (stub_post status (gt_text t)) draws digest = Some (Inr tok) \<and>
    timestamp_iso tok = isoformat t \<and> (\<forall>d. client_verify d tok \<longleftrightarrow> d = digest)"
proof -
  obtain tok where "session_token cl status t draws digest = Some (Inr tok)" "timestamp_iso tok = isoformat t"
    using session_outcome [OF assms] by blast
  with client_tsa.check_iff [OF assms] show ?thesis by (simp add: session_token_def token_check_def)
qed

theorem stub_session_stamps_witness:
  "session_ok sample_client 0 epoch [0, 7] (replicate 20 9) \<and>
   (\<exists>tok. client_timestamp sample_client (stub_post 0 (gt_text epoch)) [0, 7] (replicate 20 9) = Some (Inr tok) \<and>
    timestamp_iso tok = isoformat epoch \<and> (\<forall>d. client_verify d tok \<longleftrightarrow> d = replicate 20 9))"
proof
  show s: "session_ok sample_client 0 epoch [0, 7] (replicate 20 9)"
    using sample_client_new by (simp add: session_ok_def sample_client_def)
  show "\<exists>tok. client_timestamp sample_client (stub_post 0 (gt_text epoch)) [0, 7] (replicate 20 9) = Some (Inr tok) \<and>
    timestamp_iso tok = isoformat epoch \<and> (\<forall>d. client_verify d tok \<longleftrightarrow> d = replicate 20 9)"
    by (rule stub_session_stamps [OF s])
qed

end
