(* ===== verification/TsaHttp.thy ===== *)
theory TsaHttp
  imports Rfc3161 Url
begin

text \<open>
  The transport of the RFC 3161 client (\<^verbatim>\<open>_proxy_for\<close> and \<^verbatim>\<open>_post\<close> of \<^verbatim>\<open>infrastructure/rfc3161_client.py\<close>): which connection
  a request opens, what it sends over it, and what becomes of the answer. The exchange itself (\<^verbatim>\<open>http.client\<close> on a socket)
  is a parameter; an \<open>ExternalError\<close> of it stands for the time-outs, socket and protocol errors that the code catches.
  The environment is an association list.
\<close>

section \<open>Choosing the proxy\<close>

text \<open>\<^verbatim>\<open>os.environ.get(a) or os.environ.get(b) or ""\<close>.\<close>

definition env_or :: "(string \<times> string) list \<Rightarrow> string \<Rightarrow> string \<Rightarrow> string" where
  "env_or env a b = (let x = dict_get env a [] in if x \<noteq> [] then x else dict_get env b [])"

definition lstrip_dots :: "string \<Rightarrow> string" where
  "lstrip_dots s = dropWhile (\<lambda>c. c = CHR ''.'') s"

definition no_proxy_match :: "(string \<times> string) list \<Rightarrow> string \<Rightarrow> bool" where
  "no_proxy_match env host =
     (let host_l = lstrip_dots (py_lower host) in
      list_ex (\<lambda>e. let entry = lstrip_dots (py_lower (strip e)) in
                 entry \<noteq> [] \<and> (host_l = entry \<or> suffix (''.'' @ entry) host_l))
        (split_on (CHR '','') (env_or env ''no_proxy'' ''NO_PROXY'')))"

definition basic_auth :: "split_result \<Rightarrow> string option res" where
  "basic_auth parts =
     (case userinfo parts of
        (Some (u # us), password) \<Rightarrow>
          rbind (unquote_encode (u # us)) (\<lambda>creds.
          rbind (case password of Some (p # ps) \<Rightarrow> rbind (unquote_encode (p # ps)) (\<lambda>w. Inr (creds @ utf8_encode '':'' @ w))
                 | _ \<Rightarrow> Inr creds) (\<lambda>creds.
            Inr (Some (''Basic '' @ base64_encode creds))))
      | _ \<Rightarrow> Inr None)"

definition proxy_for :: "(string \<times> string) list \<Rightarrow> string \<Rightarrow> string \<Rightarrow> (string \<times> int \<times> string option) option res" where
  "proxy_for env scheme host =
     (let proxy_url = env_or env (scheme @ ''_proxy'') (ascii_upper scheme @ ''_PROXY'') in
      if proxy_url = [] then Inr None
      else if no_proxy_match env host then Inr None
      else rbind (urlsplit proxy_url) (\<lambda>parts.
        case url_hostname parts of
          None \<Rightarrow> Inr None
        | Some h \<Rightarrow>
            rbind (basic_auth parts) (\<lambda>auth.
            rbind (url_port parts) (\<lambda>port.
              Inr (Some (h, (case port of Some n \<Rightarrow> if n = 0 then 8080 else n | None \<Rightarrow> 8080), auth))))))"

section \<open>The request\<close>

text \<open>A connection with TLS or without, to a host and port, possibly tunnelled by \<^verbatim>\<open>CONNECT\<close> with headers for the proxy;
  and the POST on it: target, headers, body.\<close>

record http_call =
  hc_tls :: bool
  hc_host :: string
  hc_port :: int
  hc_tunnel :: "(string \<times> int \<times> (string \<times> string) list) option"
  hc_target :: string
  hc_headers :: "(string \<times> string) list"
  hc_body :: bytes

definition post_headers :: "(string \<times> string) list" where
  "post_headers = [(''Content-Type'', ''application/timestamp-query''), (''Accept'', ''application/timestamp-reply'')]"

definition auth_header :: "string option \<Rightarrow> (string \<times> string) list" where
  "auth_header auth = (case auth of Some a \<Rightarrow> [(''Proxy-Authorization'', a)] | None \<Rightarrow> [])"

text \<open>Scheme, host, port and path of the authority.\<close>

definition endpoint :: "string \<Rightarrow> (string \<times> string \<times> int \<times> string) res" where
  "endpoint url =
     rbind (urlsplit url) (\<lambda>parts.
       if sr_scheme parts \<notin> {''http'', ''https''} then Inl (TsaError ''unsupported TSA URL scheme'')
       else rbind (url_port parts) (\<lambda>port.
         let standard = (if sr_scheme parts = ''https'' then 443 else 80);
             path = (if sr_path parts = [] then ''/'' else sr_path parts) in
         Inr (sr_scheme parts, (case url_hostname parts of Some h \<Rightarrow> h | None \<Rightarrow> []),
              (case port of Some n \<Rightarrow> if n = 0 then standard else n | None \<Rightarrow> standard),
              (if sr_query parts = [] then path else path @ ''?'' @ sr_query parts))))"

definition post_call :: "(string \<times> string) list \<Rightarrow> string \<Rightarrow> bytes \<Rightarrow> http_call res" where
  "post_call env url body =
     rbind (endpoint url) (\<lambda>(scheme, host, port, path).
     rbind (proxy_for env scheme host) (\<lambda>proxy.
       Inr (case proxy of
         Some (proxy_host, proxy_port, auth) \<Rightarrow>
           if scheme = ''https'' then
             \<lparr>hc_tls = True, hc_host = proxy_host, hc_port = proxy_port,
              hc_tunnel = Some (host, port,
                (''Host'', if port = 443 then host else host @ '':'' @ int_str port) # auth_header auth),
              hc_target = path, hc_headers = post_headers, hc_body = body\<rparr>
           else
             \<lparr>hc_tls = False, hc_host = proxy_host, hc_port = proxy_port, hc_tunnel = None,
              hc_target = url, hc_headers = post_headers @ auth_header auth, hc_body = body\<rparr>
       | None \<Rightarrow>
           \<lparr>hc_tls = (scheme = ''https''), hc_host = host, hc_port = port, hc_tunnel = None,
            hc_target = path, hc_headers = post_headers, hc_body = body\<rparr>)))"

definition tsa_post ::
    "(string \<times> string) list \<Rightarrow> (http_call \<Rightarrow> (int \<times> bytes) res) \<Rightarrow> string \<Rightarrow> bytes \<Rightarrow> bytes res" where
  "tsa_post env exchange url body =
     rbind (post_call env url body) (\<lambda>call.
       case exchange call of
         Inl (ExternalError _) \<Rightarrow> Inl (TsaError ''TSA transport error'')
       | Inl e \<Rightarrow> Inl e
       | Inr (status, raw) \<Rightarrow> if status \<noteq> 200 then Inl (TsaError ''TSA HTTP error'') else Inr raw)"

section \<open>Lemmas\<close>

lemma no_auth_in_post_headers: "''Proxy-Authorization'' \<notin> fst ` set post_headers"
  by (simp add: post_headers_def)

lemma bypassed: "no_proxy_match env host \<Longrightarrow> proxy_for env scheme host = Inr None"
  by (simp add: proxy_for_def Let_def)

lemma endpoint_scheme: "endpoint url = Inr (scheme, host, port, path) \<Longrightarrow> scheme = ''http'' \<or> scheme = ''https''"
  by (auto simp: endpoint_def rbind_eq_Inr Let_def split: if_splits)

text \<open>The body travels in the call and nowhere else.\<close>

lemma post_call_body: "post_call env url body = rbind (post_call env url []) (\<lambda>c. Inr (c\<lparr>hc_body := body\<rparr>))"
  unfolding post_call_def by (cases "endpoint url") (auto simp: rbind_def split: sum.splits option.splits)

lemma tsa_post_delivers:
  assumes "post_call env url [] = Inr c0" "exchange (c0\<lparr>hc_body := req\<rparr>) = Inr (200, raw)"
  shows "tsa_post env exchange url req = Inr raw"
  using assms by (simp add: tsa_post_def post_call_body [of env url req])

text \<open>The client only depends on what the transport answers to the one request it sends.\<close>

lemma client_timestamp_post:
  assumes "client_timestamp cl post draws digest = Some (Inr tok)"
    and "\<And>req raw. post req = Inr raw \<Longrightarrow> post' req = Inr raw"
  shows "client_timestamp cl post' draws digest = Some (Inr tok)"
  using assms by (auto simp: client_timestamp_def rbind_eq_Inr split: prod.splits)

section \<open>Properties\<close>


definition sample_env :: "(string \<times> string) list" where
  "sample_env = [(''https_proxy'', ''http://proxy''), (''no_proxy'', ''internal'')]"

definition sample_call :: http_call where
  "sample_call = \<lparr>hc_tls = True, hc_host = ''proxy'', hc_port = 8080,
     hc_tunnel = Some (''tsa'', 443, [(''Host'', ''tsa'')]),
     hc_target = ''/'', hc_headers = post_headers, hc_body = [1]\<rparr>"

lemma sample_post: "endpoint ''https://tsa'' = Inr (''https'', ''tsa'', 443, ''/'')" "post_call sample_env ''https://tsa'' [1] = Inr sample_call"
  by code_simp+




end
