(* ===== verification/PostgresAudit.thy ===== *)
theory PostgresAudit
  imports AuditTrail FloatText
begin

text \<open>
  \<^verbatim>\<open>infrastructure/postgres_audit_trail.py\<close>: the table of \<^verbatim>\<open>SCHEMA_SQL\<close> as a list of rows in insertion order with
  its sequence, one operation per method with the SQL statement written out on the table. What the database server and
  its driver do with a value is the parameter \<open>pg_server\<close>: which texts it reads as a UUID, and the text in which a JSONB
  column gives back the JSON text it was given (\<open>None\<close>: the statement fails with a data error). A text with a NUL
  character and an integer outside 64 bits are refused. The sequence does not overflow, and connecting (a pool and
  \<^verbatim>\<open>CREATE TABLE IF NOT EXISTS\<close>) is the empty table.
\<close>

section \<open>Table and statements\<close>

record pg_server =
  pg_uuid :: "string \<Rightarrow> string option"
  pg_jsonb :: "string \<Rightarrow> string option"

record pg_row =
  row_event_id :: string
  row_decision_id :: string
  row_event_type :: string
  row_payload :: string
  row_idempotency_key :: "string option"
  row_seq :: int
  row_batch_id :: "string option"

record pg_table =
  pg_rows :: "pg_row list"
  pg_nextval :: int

definition new_pg_table :: pg_table where
  "new_pg_table = \<lparr>pg_rows = [], pg_nextval = 1\<rparr>"

definition pg_text :: "string \<Rightarrow> bool" where
  "pg_text s = (CHR 0x00 \<notin> set s)"

definition pg_bigint :: "int \<Rightarrow> bool" where
  "pg_bigint n = (- (2 ^ 63) \<le> n \<and> n < 2 ^ 63)"

abbreviation data_error :: "'a res" where
  "data_error \<equiv> Inl (ExternalError ''asyncpg.DataError'')"

text \<open>The UNIQUE constraints: the primary key, and the idempotency key where it is not NULL.\<close>

definition pg_violates :: "pg_table \<Rightarrow> string \<Rightarrow> string option \<Rightarrow> bool" where
  "pg_violates t event_id key =
     (event_id \<in> row_event_id ` set (pg_rows t) \<or> (key \<noteq> None \<and> key \<in> row_idempotency_key ` set (pg_rows t)))"

text \<open>\<^verbatim>\<open>SELECT event_id ... WHERE idempotency_key = $1\<close>: NULL equals nothing.\<close>

definition pg_find_key :: "pg_table \<Rightarrow> string option \<Rightarrow> string option" where
  "pg_find_key t key =
     (case key of None \<Rightarrow> None
      | Some k \<Rightarrow> map_option row_event_id (find (\<lambda>r. row_idempotency_key r = Some k) (pg_rows t)))"

text \<open>The INSERT; \<open>False\<close> is \<^verbatim>\<open>UniqueViolationError\<close>, which still consumes a value of the sequence.\<close>

definition pg_insert ::
    "pg_server \<Rightarrow> string \<Rightarrow> pg_table \<Rightarrow> string \<Rightarrow> string \<Rightarrow> pydict \<Rightarrow> string option \<Rightarrow> (pg_table, bool) sres" where
  "pg_insert srv event_id t decision_id event_type payload idempotency_key =
     (case (pg_uuid srv event_id, pg_jsonb srv (json_dumps default_opts (PDict payload))) of
        (Some u, Some j) \<Rightarrow>
          if \<not> pg_text decision_id \<or> \<not> pg_text event_type \<or> (case idempotency_key of None \<Rightarrow> False | Some k \<Rightarrow> \<not> pg_text k)
          then (t, data_error)
          else if pg_violates t u idempotency_key then (t\<lparr>pg_nextval := pg_nextval t + 1\<rparr>, Inr False)
          else
            (t\<lparr>pg_rows := pg_rows t @ [\<lparr>row_event_id = u, row_decision_id = decision_id, row_event_type = event_type,
                 row_payload = j, row_idempotency_key = idempotency_key, row_seq = pg_nextval t, row_batch_id = None\<rparr>],
               pg_nextval := pg_nextval t + 1\<rparr>,
             Inr True)
      | _ \<Rightarrow> (t, data_error))"

definition pg_append ::
    "pg_server \<Rightarrow> string \<Rightarrow> pg_table \<Rightarrow> string \<Rightarrow> string \<Rightarrow> pydict \<Rightarrow> string option \<Rightarrow> (pg_table, append_result) sres" where
  "pg_append srv event_id t decision_id event_type payload idempotency_key =
     sbind (pg_insert srv event_id t decision_id event_type payload idempotency_key) (\<lambda>t inserted.
       if inserted then (t, Inr \<lparr>ar_event_id = event_id, ar_deduplicated = False, ar_existing_event_id = None\<rparr>)
       else (let existing = (case pg_find_key t idempotency_key of None \<Rightarrow> ''None'' | Some e \<Rightarrow> e) in
             (t, Inr \<lparr>ar_event_id = existing, ar_deduplicated = True, ar_existing_event_id = Some existing\<rparr>)))
       (\<lambda>t. t)"

text \<open>\<^verbatim>\<open>{..., **json.loads(r["payload"])}\<close>.\<close>

definition with_payload :: "pydict \<Rightarrow> string \<Rightarrow> pydict res" where
  "with_payload env text = rbind (json_loads text) (\<lambda>v.
     case v of PDict p \<Rightarrow> Inr (dict_update env p) | _ \<Rightarrow> Inl (TypeError ''not a mapping''))"

definition pg_read_range :: "pg_table \<Rightarrow> string \<Rightarrow> int \<Rightarrow> pydict list res" where
  "pg_read_range t decision_id since_seq =
     (if \<not> pg_text decision_id \<or> \<not> pg_bigint since_seq then data_error
      else rmap (\<lambda>r. with_payload [(''event_type'', PStr (row_event_type r))] (row_payload r))
             (sort_key row_seq (filter (\<lambda>r. row_decision_id r = decision_id \<and> since_seq < row_seq r) (pg_rows t))))"

definition pg_read_unbatched :: "pg_table \<Rightarrow> int \<Rightarrow> pydict list res" where
  "pg_read_unbatched t limit =
     (if \<not> pg_bigint limit then data_error
      else if limit < 0 then Inl (ExternalError ''LIMIT must not be negative'')
      else rmap (\<lambda>r. with_payload [(''event_id'', PStr (row_event_id r)), (''event_type'', PStr (row_event_type r))] (row_payload r))
             (take (nat limit) (sort_key row_seq
               (filter (\<lambda>r. row_batch_id r = None \<and> row_event_type r = ''MetricCommitted'') (pg_rows t)))))"

definition pg_mark_batched :: "pg_server \<Rightarrow> pg_table \<Rightarrow> string list \<Rightarrow> string \<Rightarrow> (pg_table, unit) sres" where
  "pg_mark_batched srv t event_ids batch_id =
     (if None \<in> pg_uuid srv ` set event_ids \<or> \<not> pg_text batch_id then (t, data_error)
      else (t\<lparr>pg_rows := map (\<lambda>r. if Some (row_event_id r) \<in> pg_uuid srv ` set event_ids then r\<lparr>row_batch_id := Some batch_id\<rparr> else r)
                (pg_rows t)\<rparr>, Inr ()))"

definition pg_ops :: "pg_server \<Rightarrow> pg_table audit_ops" where
  "pg_ops srv = \<lparr>op_append = pg_append srv, op_read_range = pg_read_range,
     op_read_unbatched = pg_read_unbatched, op_mark_batched = pg_mark_batched srv\<rparr>"

section \<open>The contract\<close>

text \<open>The rows are in the order of the sequence, and every payload column holds an object.\<close>

definition pg_inv :: "pg_table \<Rightarrow> bool" where
  "pg_inv t = (sorted (map row_seq (pg_rows t)) \<and> (\<forall>r \<in> set (pg_rows t). 0 < row_seq r \<and> row_seq r < pg_nextval t \<and> is_object (row_payload r))
     \<and> 0 < pg_nextval t)"

definition pg_keys :: "pg_table \<Rightarrow> string \<rightharpoonup> string" where
  "pg_keys t k = pg_find_key t (Some k)"

text \<open>The payload as the column gives it back.\<close>

definition pg_payload :: "pg_server \<Rightarrow> pydict \<Rightarrow> pydict option" where
  "pg_payload srv p = Option.bind (pg_jsonb srv (json_dumps default_opts (PDict p))) (\<lambda>j.
     case json_loads j of Inr (PDict q) \<Rightarrow> Some q | _ \<Rightarrow> None)"

definition pg_record :: "pg_server \<Rightarrow> string \<Rightarrow> string \<Rightarrow> string \<Rightarrow> pydict \<Rightarrow> pydict" where
  "pg_record srv i ty d p = dict_update [(''event_type'', PStr ty)] (case pg_payload srv p of None \<Rightarrow> [] | Some q \<Rightarrow> q)"

definition row_record :: "pg_row \<Rightarrow> pydict" where
  "row_record r = (case with_payload [(''event_type'', PStr (row_event_type r))] (row_payload r) of Inr e \<Rightarrow> e | Inl _ \<Rightarrow> [])"

definition pg_stream :: "pg_table \<Rightarrow> string \<Rightarrow> pydict list" where
  "pg_stream t d = map row_record (filter (\<lambda>r. row_decision_id r = d) (pg_rows t))"

definition pg_usable :: "pg_server \<Rightarrow> pg_table \<Rightarrow> string \<Rightarrow> string \<Rightarrow> string \<Rightarrow> pydict \<Rightarrow> string option \<Rightarrow> bool" where
  "pg_usable srv t i d ty p k =
     (pg_uuid srv i = Some i \<and> i \<notin> row_event_id ` set (pg_rows t) \<and> pg_payload srv p \<noteq> None \<and>
      pg_text d \<and> pg_text ty \<and> (case k of None \<Rightarrow> True | Some x \<Rightarrow> pg_text x))"

lemma find_key_None: "key \<noteq> None \<Longrightarrow> pg_find_key t key = None \<longleftrightarrow> key \<notin> row_idempotency_key ` set (pg_rows t)"
  by (auto simp: pg_find_key_def find_None_iff image_iff split: option.splits)

lemma pg_payload_Some:
  assumes "pg_payload srv p = Some q"
  obtains j where "pg_jsonb srv (json_dumps default_opts (PDict p)) = Some j" "json_loads j = Inr (PDict q)"
proof -
  obtain j where j: "pg_jsonb srv (json_dumps default_opts (PDict p)) = Some j"
      "(case json_loads j of Inr (PDict q) \<Rightarrow> Some q | _ \<Rightarrow> None) = Some q"
    using assms unfolding pg_payload_def bind_eq_Some_conv by blast
  from j(2) have "json_loads j = Inr (PDict q)" by (simp split: sum.splits pyval.splits)
  with j(1) show thesis by (rule that)
qed

lemma find_append: "find P (xs @ ys) = (case find P xs of None \<Rightarrow> find P ys | Some x \<Rightarrow> Some x)"
  by (induction xs) auto

lemma pg_append_fresh:
  assumes "pg_inv t" "pg_usable srv t i d ty p k" "Option.bind k (pg_keys t) = None"
  shows "\<exists>t'. pg_append srv i t d ty p k =
      (t', Inr \<lparr>ar_event_id = i, ar_deduplicated = False, ar_existing_event_id = None\<rparr>) \<and>
    pg_inv t' \<and> pg_stream t' = (pg_stream t)(d := pg_stream t d @ [pg_record srv i ty d p]) \<and>
    pg_keys t' = (case k of None \<Rightarrow> pg_keys t | Some x \<Rightarrow> (pg_keys t)(x \<mapsto> i))"
proof -
  obtain q where q: "pg_payload srv p = Some q" using assms(2) by (auto simp: pg_usable_def)
  obtain j where j: "pg_jsonb srv (json_dumps default_opts (PDict p)) = Some j" "json_loads j = Inr (PDict q)"
    by (rule pg_payload_Some [OF q])
  let ?r = "\<lparr>row_event_id = i, row_decision_id = d, row_event_type = ty, row_payload = j, row_idempotency_key = k,
    row_seq = pg_nextval t, row_batch_id = None\<rparr>"
  let ?t = "t\<lparr>pg_rows := pg_rows t @ [?r], pg_nextval := pg_nextval t + 1\<rparr>"
  have key: "k = None \<or> k \<notin> row_idempotency_key ` set (pg_rows t)"
    using assms(3) find_key_None [of k t] by (cases k) (auto simp: pg_keys_def)
  then have "\<not> pg_violates t i k" using assms(2) by (auto simp: pg_violates_def pg_usable_def)
  then have "pg_append srv i t d ty p k =
      (?t, Inr \<lparr>ar_event_id = i, ar_deduplicated = False, ar_existing_event_id = None\<rparr>)"
    using assms(2) j by (auto simp: pg_append_def pg_insert_def pg_usable_def split: option.splits)
  moreover have "pg_inv ?t"
    using assms(1) j by (auto simp: pg_inv_def is_object_def sorted_append intro: less_imp_le less_trans)
  moreover have "pg_stream ?t = (pg_stream t)(d := pg_stream t d @ [pg_record srv i ty d p])"
    by (intro ext) (simp add: pg_stream_def row_record_def with_payload_def pg_record_def q j)
  moreover have "pg_keys ?t = (case k of None \<Rightarrow> pg_keys t | Some x \<Rightarrow> (pg_keys t)(x \<mapsto> i))"
    using assms(3) by (intro ext) (auto simp: pg_keys_def pg_find_key_def find_append find_None_iff split: option.splits)
  ultimately show ?thesis by blast
qed

lemma pg_append_seen:
  assumes "pg_inv t" "pg_usable srv t i d ty p k" "Option.bind k (pg_keys t) = Some e"
  shows "pg_append srv i t d ty p k = (t\<lparr>pg_nextval := pg_nextval t + 1\<rparr>,
      Inr \<lparr>ar_event_id = e, ar_deduplicated = True, ar_existing_event_id = Some e\<rparr>)"
proof -
  have f: "pg_find_key t k = Some e" using assms(3) by (cases k) (auto simp: pg_keys_def)
  then have k: "k \<noteq> None" by (auto simp: pg_find_key_def split: option.splits)
  with f have "pg_violates t i k" using find_key_None [of k t] by (auto simp: pg_violates_def)
  moreover obtain q where "pg_payload srv p = Some q" using assms(2) by (auto simp: pg_usable_def)
  then obtain j where "pg_jsonb srv (json_dumps default_opts (PDict p)) = Some j" by (rule pg_payload_Some)
  moreover have "pg_find_key (t\<lparr>pg_nextval := n\<rparr>) k = pg_find_key t k" for n by (simp add: pg_find_key_def split: option.splits)
  ultimately show ?thesis using assms(2) f k
    by (auto simp: pg_append_def pg_insert_def pg_usable_def Let_def split: option.splits)
qed

lemma pg_read_stream:
  assumes "pg_inv t" "pg_text d"
  shows "pg_read_range t d 0 = Inr (pg_stream t d)"
proof -
  let ?rs = "filter (\<lambda>r. row_decision_id r = d) (pg_rows t)"
  have "filter (\<lambda>r. row_decision_id r = d \<and> 0 < row_seq r) (pg_rows t) = ?rs"
    using assms(1) by (intro filter_cong) (auto simp: pg_inv_def)
  moreover have "sort_key row_seq ?rs = ?rs"
    using assms(1) by (intro sort_key_id_if_sorted) (auto simp: pg_inv_def sorted_filter)
  moreover have "rmap (\<lambda>r. with_payload [(''event_type'', PStr (row_event_type r))] (row_payload r)) ?rs = Inr (map row_record ?rs)"
    using assms(1) by (intro rmap_Inr_all) (auto simp: pg_inv_def is_object_def row_record_def with_payload_def)
  ultimately show ?thesis using assms(2) by (simp add: pg_read_range_def pg_stream_def pg_bigint_def)
qed

lemma pg_mark_frame:
  assumes "pg_mark_batched srv t ids b = (t', r)"
  shows "pg_inv t \<Longrightarrow> pg_inv t'" "pg_stream t' = pg_stream t" "pg_keys t' = pg_keys t"
proof -
  define f :: "pg_row \<Rightarrow> pg_row" where "f = (\<lambda>r. if Some (row_event_id r) \<in> pg_uuid srv ` set ids then r\<lparr>row_batch_id := Some b\<rparr> else r)"
  have f: "row_event_id (f r) = row_event_id r" "row_decision_id (f r) = row_decision_id r" "row_seq (f r) = row_seq r"
      "row_payload (f r) = row_payload r" "row_idempotency_key (f r) = row_idempotency_key r" "row_record (f r) = row_record r" for r
    by (simp_all add: f_def row_record_def)
  have find: "map_option row_event_id (find (\<lambda>r. row_idempotency_key r = Some k) (map f rs)) =
      map_option row_event_id (find (\<lambda>r. row_idempotency_key r = Some k) rs)" for k rs
    by (induction rs) (simp_all add: f)
  have "t' = t \<or> t' = t\<lparr>pg_rows := map f (pg_rows t)\<rparr>"
    using assms unfolding pg_mark_batched_def f_def [symmetric] by (auto split: if_splits)
  then show "pg_inv t \<Longrightarrow> pg_inv t'" "pg_stream t' = pg_stream t" "pg_keys t' = pg_keys t"
    by (auto simp: pg_inv_def pg_stream_def pg_keys_def pg_find_key_def fun_eq_iff f find comp_def filter_map)
qed

interpretation pg: audit_trail "pg_ops srv" pg_inv "pg_usable srv" pg_stream pg_keys "pg_record srv" pg_text for srv
proof unfold_locales
  fix a i d ty p k e
  assume "pg_inv a" "pg_usable srv a i d ty p k" "Option.bind k (pg_keys a) = Some e"
  from pg_append_seen [OF this] \<open>pg_inv a\<close>
  show "\<exists>a'. op_append (pg_ops srv) i a d ty p k =
      (a', Inr \<lparr>ar_event_id = e, ar_deduplicated = True, ar_existing_event_id = Some e\<rparr>) \<and>
    pg_inv a' \<and> pg_stream a' = pg_stream a \<and> pg_keys a' = pg_keys a"
    by (auto simp: pg_ops_def pg_inv_def pg_stream_def pg_keys_def pg_find_key_def fun_eq_iff)
qed (auto simp: pg_ops_def pg_append_fresh pg_read_stream dest: pg_mark_frame)

section \<open>Refinement\<close>

text \<open>A column that gives back the same object.\<close>

definition pg_keeps :: "pg_server \<Rightarrow> pydict \<Rightarrow> bool" where
  "pg_keeps srv p = (case pg_payload srv p of None \<Rightarrow> False
     | Some q \<Rightarrow> distinct (map fst q) \<and> distinct (map fst p) \<and> map_of q = map_of p)"

fun pg_storable :: "pg_server \<Rightarrow> audit_cmd \<Rightarrow> bool" where
  "pg_storable srv (Append i d ty p k) =
     (pg_uuid srv i = Some i \<and> pg_keeps srv p \<and> pg_text d \<and> pg_text ty \<and> (case k of None \<Rightarrow> True | Some x \<Rightarrow> pg_text x))"
| "pg_storable srv (MarkBatched ids b) = True"

fun cmd_ids :: "audit_cmd \<Rightarrow> string list" where
  "cmd_ids (Append i d ty p k) = [i]"
| "cmd_ids (MarkBatched ids b) = []"

text \<open>Two records agree but for the envelope fields that only the in-memory trail adds.\<close>

definition same_event :: "pydict \<Rightarrow> pydict \<Rightarrow> bool" where
  "same_event e f = (\<forall>k. k \<notin> {''event_id'', ''decision_id''} \<longrightarrow> map_of f k = map_of e k)"

lemma same_event_records:
  assumes "pg_keeps srv p"
  shows "same_event (memory_record i ty d p) (pg_record srv i ty d p)"
proof -
  obtain q where q: "pg_payload srv p = Some q" "distinct (map fst q)" "distinct (map fst p)" "map_of q = map_of p"
    using assms by (auto simp: pg_keeps_def split: option.splits)
  then show ?thesis
    by (auto simp: same_event_def memory_record_def pg_record_def map_of_dict_update map_add_def split: option.splits)
qed

lemma pg_ids_step:
  "row_event_id ` set (pg_rows (trail_exec (pg_ops srv) t c)) \<subseteq>
     row_event_id ` set (pg_rows t) \<union> {u. Some u \<in> pg_uuid srv ` set (cmd_ids c)}"
proof (cases c)
  case (Append i d ty p k)
  show ?thesis
    by (cases "pg_uuid srv i"; cases "pg_jsonb srv (json_dumps default_opts (PDict p))")
       (auto simp: Append pg_ops_def pg_append_def pg_insert_def Let_def split: option.splits)
next
  case (MarkBatched ids b)
  then show ?thesis by (auto simp: pg_ops_def pg_mark_batched_def)
qed

lemma pg_usable_run:
  "list_all (pg_storable srv) cs \<Longrightarrow> distinct (concat (map cmd_ids cs)) \<Longrightarrow>
   set (concat (map cmd_ids cs)) \<inter> row_event_id ` set (pg_rows t) = {} \<Longrightarrow> pg.usable_run srv t cs"
proof (induction cs arbitrary: t)
  case (Cons c cs)
  have "pg.usable_cmd srv t c"
    using Cons.prems by (cases c) (auto simp: pg_usable_def pg_keeps_def split: option.splits)
  moreover have "{u. Some u \<in> pg_uuid srv ` set (cmd_ids c)} \<subseteq> set (cmd_ids c)"
    using Cons.prems(1) by (cases c) auto
  then have "row_event_id ` set (pg_rows (trail_exec (pg_ops srv) t c)) \<subseteq> row_event_id ` set (pg_rows t) \<union> set (cmd_ids c)"
    using pg_ids_step [of srv t c] by blast
  moreover have "set (cmd_ids c) \<inter> set (concat (map cmd_ids cs)) = {}" "set (concat (map cmd_ids cs)) \<inter> row_event_id ` set (pg_rows t) = {}"
    using Cons.prems(2,3) by (simp_all add: Int_Un_distrib2)
  ultimately have "set (concat (map cmd_ids cs)) \<inter> row_event_id ` set (pg_rows (trail_exec (pg_ops srv) t c)) = {}" by blast
  with \<open>pg.usable_cmd srv t c\<close> show ?case using Cons by (simp del: trail_exec.simps)
qed simp

lemma memory_trail_exec: "trail_exec memory_ops = audit_exec"
proof (intro ext)
  show "trail_exec memory_ops a c = audit_exec a c" for a c by (cases c) (simp_all add: memory_ops_def)
qed

lemma memory_usable_run: "memory.usable_run a cs"
proof (induction cs arbitrary: a)
  case (Cons c cs)
  then show ?case by (cases c) (simp_all del: trail_exec.simps)
qed simp

lemma empty_trails_refine: "memory.refines new_memory_audit empty_trail" "pg.refines srv new_pg_table empty_trail"
  by (auto simp: memory.refines_def pg.refines_def new_memory_audit_def new_pg_table_def empty_trail_def memory_keys_def
      memory_stream_def dict_get_def spec_stream_def pg_inv_def pg_keys_def pg_find_key_def pg_stream_def fun_eq_iff)

lemma spec_log_storable:
  "list_all (pg_storable srv) cs \<Longrightarrow> (\<forall>(i, d, ty, p) \<in> set (sp_log sp). pg_keeps srv p) \<Longrightarrow>
   \<forall>(i, d, ty, p) \<in> set (sp_log (foldl spec_exec sp cs)). pg_keeps srv p"
proof (induction cs arbitrary: sp)
  case (Cons c cs)
  have "\<forall>(i, d, ty, p) \<in> set (sp_log (spec_exec sp c)). pg_keeps srv p" using Cons.prems by (cases c) auto
  with Cons show ?case by simp
qed simp

lemma spec_streams_agree:
  "(\<forall>(i, d, ty, p) \<in> set (sp_log sp). pg_keeps srv p) \<Longrightarrow>
   list_all2 same_event (spec_stream memory_record sp d) (spec_stream (pg_record srv) sp d)"
  by (auto simp: spec_stream_def list.rel_map intro!: list.rel_refl_strong same_event_records)

lemma durable_reads:
  assumes "list_all (pg_storable srv) cs" "distinct (concat (map cmd_ids cs))" "pg_text d"
  shows "\<exists>es fs. memory_read_range (foldl audit_exec new_memory_audit cs) d 0 = Inr es \<and>
    pg_read_range (foldl (trail_exec (pg_ops srv)) new_pg_table cs) d 0 = Inr fs \<and> list_all2 same_event es fs"
proof -
  let ?sp = "foldl spec_exec empty_trail cs"
  have m: "memory.refines (foldl audit_exec new_memory_audit cs) ?sp"
    using memory.refines_run [OF empty_trails_refine(1) memory_usable_run] by (simp add: memory_trail_exec)
  have "set (concat (map cmd_ids cs)) \<inter> row_event_id ` set (pg_rows new_pg_table) = {}" by (simp add: new_pg_table_def)
  from pg.refines_run [OF empty_trails_refine(2) pg_usable_run [OF assms(1,2) this]]
  have p: "pg.refines srv (foldl (trail_exec (pg_ops srv)) new_pg_table cs) ?sp" .
  have "\<forall>(i, d, ty, p) \<in> set (sp_log ?sp). pg_keeps srv p"
    using spec_log_storable [OF assms(1), of empty_trail] by (simp add: empty_trail_def)
  from spec_streams_agree [OF this, of d] memory.refines_read [OF m TrueI, of d] pg.refines_read [OF p assms(3)] show ?thesis
    by (simp add: memory_ops_def pg_ops_def)
qed

section \<open>Concurrent duplicates\<close>

lemma pg_insert_keys:
  "(t', r) = pg_insert srv i t d ty p k \<Longrightarrow> pg_keys t \<subseteq>\<^sub>m pg_keys t'"
proof -
  assume "(t', r) = pg_insert srv i t d ty p k"
  then have "t' = t \<or> pg_rows t' = pg_rows t \<or> (\<exists>row. pg_rows t' = pg_rows t @ [row])"
    by (auto simp: pg_insert_def split: option.splits if_splits)
  then show ?thesis
    by (auto simp: pg_keys_def pg_find_key_def map_le_def find_append split: option.splits)
qed

lemma pg_exec_keys: "pg_keys t \<subseteq>\<^sub>m pg_keys (trail_exec (pg_ops srv) t c)"
proof (cases c)
  case (Append i d ty p k)
  obtain t' r where ins: "pg_insert srv i t d ty p k = (t', r)" by (cases "pg_insert srv i t d ty p k")
  have "fst (pg_append srv i t d ty p k) = t'"
    by (cases r) (auto simp: pg_append_def ins Let_def)
  with pg_insert_keys [OF ins [symmetric]] show ?thesis by (simp add: Append pg_ops_def)
next
  case (MarkBatched ids b)
  obtain t' r where m: "pg_mark_batched srv t ids b = (t', r)" by (cases "pg_mark_batched srv t ids b")
  from pg_mark_frame(3) [OF this] show ?thesis by (simp add: MarkBatched pg_ops_def m)
qed

lemma pg_run_keys: "pg_keys t \<subseteq>\<^sub>m pg_keys (foldl (trail_exec (pg_ops srv)) t cs)"
proof (induction cs arbitrary: t)
  case (Cons c cs)
  then show ?case using pg_exec_keys map_le_trans by (fastforce simp del: trail_exec.simps)
qed simp

section \<open>Properties\<close>

text \<open>A server that keeps identifiers and JSON text as they are, for the samples.\<close>

definition text_server :: pg_server where
  "text_server = \<lparr>pg_uuid = Some, pg_jsonb = Some\<rparr>"

lemma text_server_keeps: "json_value (PDict p) \<Longrightarrow> pg_keeps text_server p"
  using loads_dumps_value [of "PDict p"] by (simp add: pg_keeps_def pg_payload_def text_server_def)



text \<open>Duplicate requests at the same time. When an INSERT is refused because of its idempotency key, then whatever other
  clients do before this client reads the existing row, it finds it, and always the same: the event that was stored first
  under the key.\<close>

theorem concurrent_duplicate_found:
  assumes "pg_insert srv i t d ty p (Some k) = (t1, Inr False)" "i \<notin> row_event_id ` set (pg_rows t)" "pg_uuid srv i = Some i"
  shows "\<exists>row. row \<in> set (pg_rows t) \<and> row_idempotency_key row = Some k \<and>
    (\<forall>cs. pg_find_key (foldl (trail_exec (pg_ops srv)) t1 cs) (Some k) = Some (row_event_id row))"
proof -
  have t1: "pg_rows t1 = pg_rows t" "pg_violates t i (Some k)"
    using assms(1,3) by (auto simp: pg_insert_def split: option.splits if_splits)
  then have "Some k \<in> row_idempotency_key ` set (pg_rows t)" using assms(2) by (simp add: pg_violates_def)
  then obtain row where row: "find (\<lambda>r. row_idempotency_key r = Some k) (pg_rows t) = Some row"
    using find_None_iff [of "\<lambda>r. row_idempotency_key r = Some k" "pg_rows t"]
    by (cases "find (\<lambda>r. row_idempotency_key r = Some k) (pg_rows t)") (auto simp: image_iff)
  then have mem: "row \<in> set (pg_rows t)" "row_idempotency_key row = Some k" by (auto simp: find_Some_iff)
  have "pg_keys t1 k = Some (row_event_id row)" using row by (simp add: pg_keys_def pg_find_key_def t1(1))
  then have "pg_find_key (foldl (trail_exec (pg_ops srv)) t1 cs) (Some k) = Some (row_event_id row)" for cs
    using pg_run_keys [of t1 srv cs] by (metis domI map_le_def pg_keys_def)
  with mem show ?thesis by blast
qed

text \<open>A table with one row, and a second request with its key.\<close>

definition sample_table :: pg_table where
  "sample_table = fst (pg_append text_server ''u1'' new_pg_table ''d'' ''T'' [] (Some ''k''))"

lemma sample_table_rows:
  "pg_rows sample_table = [\<lparr>row_event_id = ''u1'', row_decision_id = ''d'', row_event_type = ''T'', row_payload = ''{}'',
     row_idempotency_key = Some ''k'', row_seq = 1, row_batch_id = None\<rparr>]"
  by (simp add: sample_table_def pg_append_def pg_insert_def text_server_def new_pg_table_def pg_violates_def pg_text_def)

theorem concurrent_duplicate_found_witness:
  "pg_find_key (foldl (trail_exec (pg_ops text_server)) (fst (pg_insert text_server ''u2'' sample_table ''e'' ''U'' [] (Some ''k'')))
     [Append ''u3'' ''e'' ''V'' [] (Some ''k''), MarkBatched [''u1''] ''b'']) (Some ''k'') = Some ''u1''"
proof -
  have "pg_insert text_server ''u2'' sample_table ''e'' ''U'' [] (Some ''k'') =
      (fst (pg_insert text_server ''u2'' sample_table ''e'' ''U'' [] (Some ''k'')), Inr False)"
    by (simp add: pg_insert_def pg_violates_def sample_table_rows text_server_def pg_text_def)
  moreover have "''u2'' \<notin> row_event_id ` set (pg_rows sample_table)" "pg_uuid text_server ''u2'' = Some ''u2''"
    by (simp_all add: sample_table_rows text_server_def)
  ultimately obtain row where "row \<in> set (pg_rows sample_table)"
    "\<forall>cs. pg_find_key (foldl (trail_exec (pg_ops text_server)) (fst (pg_insert text_server ''u2'' sample_table ''e'' ''U'' [] (Some ''k''))) cs)
       (Some ''k'') = Some (row_event_id row)"
    using concurrent_duplicate_found by blast
  then show ?thesis by (simp add: sample_table_rows del: foldl_Cons)
qed

end
