(* ===== verification/RedisStore.thy ===== *)
theory RedisStore
  imports Adapters FloatText
begin

text \<open>
  \<^verbatim>\<open>infrastructure/redis_adapter.py\<close>: the projection store that keeps each row as JSON text under its key. The Redis
  server is a parameter with its documented behaviour as the locale \<open>redis_server\<close>; over any such server the adapter is
  a projection store in the sense of \<open>kv_store\<close>.
\<close>

section \<open>Adapter\<close>

record 's redis =
  rd_get :: "'s \<Rightarrow> string \<Rightarrow> string option res"
  rd_set :: "'s \<Rightarrow> string \<Rightarrow> string \<Rightarrow> ('s, unit) sres"
  rd_scan :: "'s \<Rightarrow> string \<Rightarrow> string list res"

text \<open>\<^verbatim>\<open>json.loads(raw)\<close>, declared to be a dictionary.\<close>

definition loads_dict :: "string \<Rightarrow> pydict res" where
  "loads_dict raw = rbind (json_loads raw) (\<lambda>v. case v of PDict d \<Rightarrow> Inr d | _ \<Rightarrow> Inl (IllTyped ''row''))"

definition redis_get :: "'s redis \<Rightarrow> 's \<Rightarrow> string \<Rightarrow> pydict option res" where
  "redis_get srv s key =
     rbind (rd_get srv s key) (\<lambda>raw. case raw of None \<Rightarrow> Inr None | Some t \<Rightarrow> rbind (loads_dict t) (\<lambda>d. Inr (Some d)))"

definition redis_set :: "'s redis \<Rightarrow> 's \<Rightarrow> string \<Rightarrow> pydict \<Rightarrow> ('s, unit) sres" where
  "redis_set srv s key val = rd_set srv s key (json_dumps default_opts (PDict val))"

definition redis_get_many :: "'s redis \<Rightarrow> 's \<Rightarrow> string \<Rightarrow> (string \<times> pydict) list res" where
  "redis_get_many srv s pre =
     rbind (rd_scan srv s (pre @ ''*'')) (\<lambda>keys.
       rfold (\<lambda>key out. rbind (rd_get srv s key) (\<lambda>raw.
           case raw of None \<Rightarrow> Inr out | Some t \<Rightarrow> rbind (loads_dict t) (\<lambda>d. Inr (AList.update key d out)))) keys [])"

definition redis_store_ops :: "'s redis \<Rightarrow> 's store_ops" where
  "redis_store_ops srv = \<lparr>st_get = redis_get srv, st_set = redis_set srv, st_get_many = redis_get_many srv\<rparr>"

section \<open>The server's contract and the adapter's\<close>

text \<open>\<open>content\<close> is the server's key space; \<open>up\<close> holds while the server answers.\<close>

locale redis_server =
  fixes srv :: "'s redis" and content :: "'s \<Rightarrow> string \<rightharpoonup> string" and up :: "'s \<Rightarrow> bool"
  assumes rd_get_content: "up s \<Longrightarrow> rd_get srv s k = Inr (content s k)"
    and rd_set_content: "up s \<Longrightarrow> \<exists>s'. rd_set srv s k t = (s', Inr ()) \<and> up s' \<and> content s' = (content s)(k \<mapsto> t)"

definition rows_of :: "(string \<rightharpoonup> string) \<Rightarrow> string \<rightharpoonup> pydict" where
  "rows_of m k = Option.bind (m k) object_of"

definition all_objects :: "(string \<rightharpoonup> string) \<Rightarrow> bool" where
  "all_objects m = (\<forall>k t. m k = Some t \<longrightarrow> is_object t)"

lemma loads_dict_object: "is_object t \<Longrightarrow> \<exists>d. loads_dict t = Inr d \<and> object_of t = Some d"
  by (auto simp: is_object_def loads_dict_def object_of_def)

sublocale redis_server \<subseteq> kv_store "redis_store_ops srv" "\<lambda>s. rows_of (content s)" "\<lambda>v. json_value (PDict v)"
  "\<lambda>s. up s \<and> all_objects (content s)"
proof unfold_locales
  fix s k
  assume s: "up s \<and> all_objects (content s)"
  show "st_get (redis_store_ops srv) s k = Inr (rows_of (content s) k)"
  proof (cases "content s k")
    case (Some t)
    then have "is_object t" using s by (simp add: all_objects_def)
    with loads_dict_object [of t] Some s show ?thesis
      by (auto simp: redis_store_ops_def redis_get_def rd_get_content rows_of_def)
  qed (use s in \<open>simp add: redis_store_ops_def redis_get_def rd_get_content rows_of_def\<close>)
next
  fix s v k
  assume s: "up s \<and> all_objects (content s)" and v: "json_value (PDict v)"
  from rd_set_content [of s k "dumps (PDict v)"] s obtain s' where
    s': "rd_set srv s k (dumps (PDict v)) = (s', Inr ())" "up s'" "content s' = (content s)(k \<mapsto> dumps (PDict v))" by blast
  have "all_objects (content s')" using s object_of_dumps(2) [OF v] by (auto simp: all_objects_def s')
  moreover have "rows_of (content s') = (rows_of (content s))(k \<mapsto> v)"
    using object_of_dumps(1) [OF v] by (auto simp: rows_of_def s' fun_eq_iff)
  ultimately show "\<exists>s'. st_set (redis_store_ops srv) s k v = (s', Inr ()) \<and> (up s' \<and> all_objects (content s')) \<and>
      rows_of (content s') = (rows_of (content s))(k \<mapsto> v)"
    using s' by (auto simp: redis_store_ops_def redis_set_def simp del: json_dumps.simps)
qed

context redis_server
begin

lemma set_then_get:
  assumes "up s" "all_objects (content s)" "json_value (PDict v)"
  shows "\<exists>s'. redis_set srv s k v = (s', Inr ()) \<and> up s' \<and> all_objects (content s') \<and> redis_get srv s' k = Inr (Some v) \<and>
    (\<forall>x. x \<noteq> k \<longrightarrow> redis_get srv s' x = redis_get srv s x)"
  using get_set [of s v k] assms by (simp add: redis_store_ops_def)

end

section \<open>An executable server\<close>

definition dict_redis :: "(string \<times> string) list redis" where
  "dict_redis = \<lparr>rd_get = (\<lambda>s k. Inr (map_of s k)), rd_set = (\<lambda>s k t. (AList.update k t s, Inr ())),
     rd_scan = (\<lambda>s pat. Inr (filter (prefix (butlast pat)) (map fst s)))\<rparr>"

interpretation dict_redis: redis_server dict_redis map_of "\<lambda>_. True"
  by unfold_locales (simp_all add: dict_redis_def map_of_AList_update)

section \<open>Properties\<close>

text \<open>What is written to Redis is what is read: on every server that behaves as documented, storing a row of JSON values
  (doubles, integers, text, nested lists and objects) succeeds, reading its key returns exactly this row, and no other
  key reads differently.\<close>

theorem redis_roundtrip:
  assumes "redis_server srv content up" "up s" "all_objects (content s)" "json_value (PDict v)"
  shows "\<exists>s'. redis_set srv s key v = (s', Inr ()) \<and> redis_get srv s' key = Inr (Some v) \<and>
    (\<forall>k. k \<noteq> key \<longrightarrow> redis_get srv s' k = redis_get srv s k) \<and> all_objects (content s')"
  using redis_server.set_then_get [OF assms] by blast

theorem redis_roundtrip_witness:
  "\<exists>s'. redis_set dict_redis [(''a'', ''{}'')] ''b'' [(''score'', PFloat (Fin (1 / 2))), (''n'', PNone)] = (s', Inr ()) \<and>
    redis_get dict_redis s' ''b'' = Inr (Some [(''score'', PFloat (Fin (1 / 2))), (''n'', PNone)]) \<and>
    (\<forall>k. k \<noteq> ''b'' \<longrightarrow> redis_get dict_redis s' k = redis_get dict_redis [(''a'', ''{}'')] k) \<and> all_objects (map_of s')"
proof (rule redis_roundtrip)
  show "redis_server dict_redis map_of (\<lambda>_. True)" by (rule dict_redis.redis_server_axioms)
  have "is_object ''{}''" using object_of_dumps(2) [of "[]"] by simp
  then show "all_objects (map_of [(''a'', ''{}'')])" by (simp add: all_objects_def)
  have "rnd (1 / 2) = 1 / 2" by (rule rnd_exact [of 1 "-1"]) (simp_all add: power_int_minus)
  then show "json_value (PDict [(''score'', PFloat (Fin (1 / 2))), (''n'', PNone)])" by (simp add: wf_float_def b64_def)
qed simp

end
