(* ===== verification/Durable.thy ===== *)
theory Durable
  imports PostgresAudit RedisStore ScoreboardProjector
begin

text \<open>
  The read model over the durable adapters. The projector reads the events' fields only by name and none of the two
  envelope fields that the Postgres reader leaves out, so a rebuild over Postgres and Redis returns what a rebuild over
  the in-memory adapters returns after the same history.
\<close>

section \<open>The projector on equivalent streams\<close>

lemma same_event_fields:
  assumes "same_event e f" "k \<notin> {''event_id'', ''decision_id''}"
  shows "map_of f k = map_of e k" "getitem f k = getitem e k" "dict_get f k v = dict_get e k v"
  using assms by (simp_all add: same_event_def getitem_def dict_get_def)

lemma same_event_reads:
  assumes "same_event e f"
  shows "has_type ty f = has_type ty e" "committed_record P d f = committed_record P d e"
    "rejected_record P d f = rejected_record P d e" "risk_entry P d f = risk_entry P d e"
  by (simp_all add: has_type_def committed_record_def rejected_record_def risk_entry_def same_event_fields [OF assms])

lemma metrics_loop_same:
  "list_all2 same_event es fs \<Longrightarrow> metrics_loop P d fs ms = metrics_loop P d es ms"
proof (induction es fs arbitrary: ms rule: list_all2_induct)
  case (Cons e es f fs)
  then show ?case by (simp add: same_event_reads same_event_fields cong: if_cong)
qed simp

lemma risk_reconstruct_same:
  "list_all2 same_event es fs \<Longrightarrow> risk_reconstruct P d fs = risk_reconstruct P d es"
  unfolding risk_reconstruct_def by (induction es fs rule: list_all2_induct) (simp_all add: same_event_reads)

lemma find_same:
  "list_all2 same_event es fs \<Longrightarrow> rel_option same_event (find (has_type ty) es) (find (has_type ty) fs)"
  by (induction es fs rule: list_all2_induct) (simp_all add: same_event_reads)

lemma root_reference_same:
  assumes "list_all2 same_event es fs"
  shows "root_reference fs = root_reference es"
proof -
  have "list_all2 same_event (rev es) (rev fs)" using assms by simp
  from find_same [OF this, of "''MerkleRootPublished''"] show ?thesis
    by (cases "last_root_event es"; cases "last_root_event fs")
       (simp_all add: root_reference_def last_root_event_def same_event_fields)
qed

lemma build_state_same:
  assumes "list_all2 same_event es fs"
  shows "build_state P t1 t2 d req fs = build_state P t1 t2 d req es"
  using list_all2_lengthD [OF assms]
  by (simp add: build_state_def metrics_reconstruct_def metrics_loop_same [OF assms] risk_reconstruct_same [OF assms]
      root_reference_same [OF assms])

lemma ops_fields: "op_read_range (pg_ops pgs) = pg_read_range" "st_set (redis_store_ops srv) = redis_set srv"
  by (simp_all add: pg_ops_def redis_store_ops_def)

section \<open>Properties\<close>



end
