(* ===== verification/DurableRuns.thy ===== *)
theory DurableRuns
  imports Durable SystemRuns
begin

text \<open>
  The service on the durable adapters (\<^verbatim>\<open>CORE_ENV=docker\<close>): commands and bus events over Postgres, anchoring over Postgres and
  Redis, as a transition system. A write may be refused by the database (a data error); lost connections are not modelled. Anchoring
  is assumed to draw fresh identifiers. Three contracts carry the proofs: \<open>guarded_trail\<close> (what any append leaves behind, failed ones
  included), \<open>fresh_trail\<close> (appends under fresh identifiers succeed) and \<open>anchoring\<close> (a trail and a projection store
  together). The in-memory and the durable adapters interpret the first two; the anchor service is proved once.
\<close>

section \<open>What any write leaves behind\<close>

locale guarded_trail =
  fixes ops :: "'a audit_ops" and I :: "'a \<Rightarrow> bool" and Q :: "string \<Rightarrow> string \<Rightarrow> bool"
  assumes append_keeps: "I a \<Longrightarrow> I (fst (op_append ops i a d ty p k))"
    and append_accepts: "op_append ops i a d ty p k = (a', Inr r) \<Longrightarrow> \<not> ar_deduplicated r \<Longrightarrow> Q (ar_event_id r) d"
begin

text \<open>The trail keeps its invariant, and the open batch only grows, by leaves of events that the trail accepted.\<close>

definition batch_grows :: "'a core \<Rightarrow> 'a core \<Rightarrow> bool" where
  "batch_grows c c' = ((I (co_audit c) \<longrightarrow> I (co_audit c')) \<and>
     (\<exists>ps. pending (co_merkle c') = pending (co_merkle c) @ ps \<and> (\<forall>l \<in> set ps. Q (pl_event_id l) (pl_decision_id l))))"

lemma batch_grows_refl [simp]: "batch_grows c c"
  by (simp add: batch_grows_def)

lemma batch_grows_staging [simp]: "batch_grows c (c'\<lparr>co_staging := st\<rparr>) \<longleftrightarrow> batch_grows c c'"
  by (simp add: batch_grows_def)

lemma batch_grows_audit: "batch_grows c c' \<Longrightarrow> batch_grows c (fst (audit_append ops i c' d ty p k))"
  using append_keeps [of "co_audit c'" i d ty p k] by (auto simp: batch_grows_def audit_append_def split: prod.splits)

lemma batch_grows_sbind:
  assumes "batch_grows c (fst m)" "\<And>c' x. batch_grows c c' \<Longrightarrow> batch_grows c (fst (f c' x))"
  shows "batch_grows c (fst (sbind m f (\<lambda>c. c)))"
  using assms by (cases m) (auto simp: sbind_def split: sum.splits)

lemma batch_grows_done: "batch_grows c (fst m) \<Longrightarrow> batch_grows c (fst (done_unit m))"
  unfolding done_unit_def by (rule batch_grows_sbind) simp_all

lemma batch_grows_commit:
  assumes "batch_grows c c'"
  shows "batch_grows c (fst (commit ops now i c' d m v refs k by))"
proof -
  let ?p = "committed_payload d m v refs k (to_hex (commit_leaf now d m v refs k)) (isoformat_ms now) by"
  obtain a r where a: "op_append ops i (co_audit c') d ''MetricCommitted'' ?p (Some k) = (a, r)"
    by (cases "op_append ops i (co_audit c') d ''MetricCommitted'' ?p (Some k)")
  have g: "batch_grows c (c'\<lparr>co_audit := a\<rparr>)" using batch_grows_audit [OF assms, of i d "''MetricCommitted''" ?p "Some k"] a
    by (simp add: audit_append_def)
  show ?thesis
  proof (cases r)
    case (Inl e)
    then show ?thesis using a g by (simp add: commit_def audit_append_def Let_def)
  next
    case (Inr x)
    show ?thesis
    proof (cases "ar_deduplicated x")
      case True
      then show ?thesis using a g Inr by (simp add: commit_def audit_append_def Let_def)
    next
      case False
      have "Q (ar_event_id x) d" using append_accepts [OF a [unfolded Inr] False] .
      with g False show ?thesis using a Inr
        by (auto simp: commit_def audit_append_def Let_def batch_grows_def add_leaf_def)
    qed
  qed
qed

lemma batch_grows_update: "batch_grows c (fst (handle_update_metric ops now i c cmd))"
  unfolding handle_update_metric_def by (auto intro!: batch_grows_sbind batch_grows_audit batch_grows_commit)

lemma batch_grows_stage: "batch_grows c (fst (stage_and_append ops i c ty f p))"
  unfolding stage_and_append_def Let_def by (auto intro!: batch_grows_sbind batch_grows_audit split: sum.splits)

lemma batch_grows_under: "batch_grows c (fst (append_under ops i c d ty p))"
  unfolding append_under_def by (auto intro!: batch_grows_done batch_grows_audit split: sum.splits)

lemma batch_grows_reconciled: "batch_grows c (fst (on_reconciled_decision ops now i j c p))"
  unfolding on_reconciled_decision_def Let_def
  by (rule batch_grows_sbind [OF batch_grows_stage]) (auto intro!: batch_grows_done batch_grows_audit batch_grows_commit split: sum.splits)

lemma batch_grows_route:
  assumes "map_of (event_routes ops now i j) topic = Some h"
  shows "batch_grows c (fst (h c p))"
proof -
  have "h \<in> snd ` set (event_routes ops now i j)" using map_of_SomeD [OF assms] by force
  then show ?thesis
    by (auto simp: event_routes_def on_metric_proposed_def on_debate_outcome_def on_risk_signal_def
        on_evidence_attached_def on_goal_created_def on_goal_cancelled_def on_runtime_artifact_deployed_def
        on_runtime_config_updated_def batch_grows_under batch_grows_reconciled intro: batch_grows_done batch_grows_stage)
qed

end

interpretation memory_guard: guarded_trail memory_ops "\<lambda>_. True" "\<lambda>_ _. True"
  by unfold_locales simp_all

text \<open>What a JSONB column gives back for the text of an object is an object.\<close>

definition jsonb_objects :: "pg_server \<Rightarrow> bool" where
  "jsonb_objects srv = (\<forall>p j. pg_jsonb srv (json_dumps default_opts (PDict p)) = Some j \<longrightarrow> is_object j)"

definition pg_event :: "pg_server \<Rightarrow> string \<Rightarrow> string \<Rightarrow> bool" where
  "pg_event srv e d = (pg_uuid srv e \<noteq> None \<and> pg_text d)"

lemma pg_append_inv:
  assumes "jsonb_objects srv" "pg_inv t"
  shows "pg_inv (fst (pg_append srv i t d ty p k))"
proof -
  have skip: "pg_inv (t\<lparr>pg_nextval := pg_nextval t + 1\<rparr>)" using assms(2) by (auto simp: pg_inv_def)
  have "pg_inv (t\<lparr>pg_rows := pg_rows t @ [r], pg_nextval := pg_nextval t + 1\<rparr>)"
    if "row_seq r = pg_nextval t" "is_object (row_payload r)" for r
    using assms(2) that by (auto simp: pg_inv_def sorted_append intro: less_imp_le less_trans)
  with skip assms show ?thesis
    by (cases "pg_uuid srv i"; cases "pg_jsonb srv (json_dumps default_opts (PDict p))")
       (auto simp: pg_append_def pg_insert_def Let_def jsonb_objects_def)
qed

interpretation pg_guard: guarded_trail "pg_ops srv" "\<lambda>t. jsonb_objects srv \<longrightarrow> pg_inv t" "pg_event srv" for srv
proof unfold_locales
  show "jsonb_objects srv \<longrightarrow> pg_inv (fst (op_append (pg_ops srv) i a d ty p k))" if "jsonb_objects srv \<longrightarrow> pg_inv a" for a i d ty p k
    using that pg_append_inv by (simp add: pg_ops_def)
next
  show "pg_event srv (ar_event_id r) d"
    if "op_append (pg_ops srv) i a d ty p k = (a', Inr r)" "\<not> ar_deduplicated r" for i a d ty p k a' r
    using that by (cases "pg_uuid srv i"; cases "pg_jsonb srv (json_dumps default_opts (PDict p))")
      (auto simp: pg_ops_def pg_append_def pg_insert_def pg_event_def Let_def split: if_splits)
qed

section \<open>Appends under fresh identifiers\<close>

text \<open>\<open>taken a\<close>: the identifiers in use; \<open>fits\<close>: what the adapter can store; \<open>markable\<close>: the marks it accepts.\<close>

locale fresh_trail = audit_trail ops inv usable stream keys mkrec readable
  for ops :: "'a audit_ops" and inv :: "'a \<Rightarrow> bool" and usable :: "'a \<Rightarrow> string \<Rightarrow> string \<Rightarrow> string \<Rightarrow> pydict \<Rightarrow> string option \<Rightarrow> bool"
    and stream :: "'a \<Rightarrow> string \<Rightarrow> pydict list" and keys :: "'a \<Rightarrow> string \<rightharpoonup> string"
    and mkrec :: "string \<Rightarrow> string \<Rightarrow> string \<Rightarrow> pydict \<Rightarrow> pydict" and readable :: "string \<Rightarrow> bool" +
  fixes taken :: "'a \<Rightarrow> string set" and fits :: "string \<Rightarrow> string \<Rightarrow> string \<Rightarrow> pydict \<Rightarrow> bool"
    and markable :: "string list \<Rightarrow> string \<Rightarrow> bool"
  assumes usable_fresh: "i \<notin> taken a \<Longrightarrow> fits i d ty p \<Longrightarrow> usable a i d ty p None"
    and taken_append: "fits i d ty p \<Longrightarrow> taken (fst (op_append ops i a d ty p None)) \<subseteq> insert i (taken a)"
    and mark_succeeds: "markable ids b \<Longrightarrow> \<exists>a'. op_mark_batched ops a ids b = (a', Inr ())"
begin

text \<open>Publishing a root under the identifiers \<open>uuid n\<close>, \<open>uuid (n + 1)\<close>, ... to the listed decisions.\<close>

lemma publish_fresh:
  assumes "inv a" "inj_on uuid {n..<n + length ds}" "\<forall>k \<in> {n..<n + length ds}. uuid k \<notin> taken a"
    and "\<forall>k \<in> {n..<n + length ds}. \<forall>d \<in> set ds. fits (uuid k) d ''MerkleRootPublished'' p"
  shows "\<exists>a'. publish_roots ops uuid n p ds a = (a', Inr ()) \<and> inv a' \<and> keys a' = keys a \<and>
    (\<forall>d. \<exists>is. length is = count_list ds d \<and> stream a' d = stream a d @ map (\<lambda>i. mkrec i ''MerkleRootPublished'' d p) is)"
  using assms
proof (induction ds arbitrary: a n)
  case (Cons d ds)
  let ?ty = "''MerkleRootPublished''"
  have here: "uuid n \<notin> taken a" "fits (uuid n) d ?ty p" using Cons.prems(3,4) by auto
  from append_fresh [OF Cons.prems(1) usable_fresh [OF here]] obtain a1 where
    a1: "op_append ops (uuid n) a d ?ty p None = (a1, Inr \<lparr>ar_event_id = uuid n, ar_deduplicated = False, ar_existing_event_id = None\<rparr>)"
      "inv a1" "stream a1 = (stream a)(d := stream a d @ [mkrec (uuid n) ?ty d p])" "keys a1 = keys a" by auto
  have sub: "{Suc n..<Suc n + length ds} \<subseteq> {n..<n + length (d # ds)}" by auto
  have "uuid k \<notin> taken a1" if "k \<in> {Suc n..<Suc n + length ds}" for k
  proof -
    have "uuid k \<noteq> uuid n" using that Cons.prems(2) by (auto dest: inj_onD)
    moreover have "uuid k \<notin> taken a" using that Cons.prems(3) sub by blast
    ultimately show ?thesis using taken_append [OF here(2), of a] a1(1) by auto
  qed
  with Cons.IH [OF a1(2) inj_on_subset [OF Cons.prems(2) sub]] Cons.prems(4) obtain a2 where
    a2: "publish_roots ops uuid (Suc n) p ds a1 = (a2, Inr ())" "inv a2" "keys a2 = keys a1"
      "\<And>x. \<exists>is. length is = count_list ds x \<and> stream a2 x = stream a1 x @ map (\<lambda>i. mkrec i ?ty x p) is"
    by auto
  have "\<exists>is. length is = count_list (d # ds) x \<and> stream a2 x = stream a x @ map (\<lambda>i. mkrec i ?ty x p) is" for x
  proof -
    obtain is' where is': "length is' = count_list ds x" "stream a2 x = stream a1 x @ map (\<lambda>i. mkrec i ?ty x p) is'"
      using a2(4) by blast
    show ?thesis by (rule exI [of _ "if x = d then uuid n # is' else is'"]) (use is' a1(3) in auto)
  qed
  with a1 a2 show ?case by auto
qed simp

end

interpretation memory_fresh: fresh_trail memory_ops "\<lambda>_. True" "\<lambda>_ _ _ _ _ _. True" memory_stream memory_keys memory_record "\<lambda>_. True"
  "\<lambda>_. {}" "\<lambda>_ _ _ _. True" "\<lambda>_ _. True"
  by unfold_locales (simp_all add: memory_mark_op)

definition pg_taken :: "pg_table \<Rightarrow> string set" where
  "pg_taken t = row_event_id ` set (pg_rows t)"

definition pg_fits :: "pg_server \<Rightarrow> string \<Rightarrow> string \<Rightarrow> string \<Rightarrow> pydict \<Rightarrow> bool" where
  "pg_fits srv i d ty p = (pg_uuid srv i = Some i \<and> pg_payload srv p \<noteq> None \<and> pg_text d \<and> pg_text ty)"

definition pg_markable :: "pg_server \<Rightarrow> string list \<Rightarrow> string \<Rightarrow> bool" where
  "pg_markable srv ids b = ((\<forall>i \<in> set ids. pg_uuid srv i \<noteq> None) \<and> pg_text b)"

interpretation pg_fresh: fresh_trail "pg_ops srv" pg_inv "pg_usable srv" pg_stream pg_keys "pg_record srv" pg_text
  pg_taken "pg_fits srv" "pg_markable srv" for srv
proof unfold_locales
  show "pg_usable srv a i d ty p None" if "i \<notin> pg_taken a" "pg_fits srv i d ty p" for i a d ty p
    using that by (simp add: pg_usable_def pg_taken_def pg_fits_def)
next
  show "pg_taken (fst (op_append (pg_ops srv) i a d ty p None)) \<subseteq> insert i (pg_taken a)" if "pg_fits srv i d ty p" for i d ty p a
    using that pg_ids_step [of srv a "Append i d ty p None"] by (auto simp: pg_taken_def pg_fits_def)
next
  show "\<exists>a'. op_mark_batched (pg_ops srv) a ids b = (a', Inr ())" if "pg_markable srv ids b" for ids b a
    using that by (auto simp: pg_markable_def pg_ops_def pg_mark_batched_def)
qed

section \<open>Anchoring over a trail and a store\<close>

locale anchoring = fresh_trail ops inv usable stream keys mkrec readable taken fits markable +
  store: kv_store st lookup row_ok sinv
  for ops :: "'a audit_ops" and inv usable stream keys mkrec readable taken fits markable
    and st :: "'s store_ops" and lookup row_ok sinv
begin

lemma set_all_inv: "sinv s \<Longrightarrow> \<forall>r \<in> set rs. row_ok (snd r) \<Longrightarrow> sinv (store.set_all rs s)"
proof (induction rs arbitrary: s)
  case (Cons r rs)
  then show ?case using store.set_lookup [of s "snd r" "fst r"] by fastforce
qed simp

text \<open>What an anchoring needs of the identifiers it draws and of the batch it closes.\<close>

definition ready :: "(nat \<Rightarrow> string) \<Rightarrow> 'a \<Rightarrow> pending_leaf list \<Rightarrow> pydict \<Rightarrow> bool" where
  "ready uuid a ps payload =
     (let ds = ''system'' # sorted_set (map pl_decision_id ps) in
      inj_on uuid {1..<1 + length ds} \<and>
      (\<forall>k \<in> {1..<1 + length ds}. uuid k \<notin> taken a \<and> (\<forall>d \<in> set ds. fits (uuid k) d ''MerkleRootPublished'' payload)) \<and>
      markable (map pl_event_id ps) (uuid 0))"

lemma anchor_succeeds:
  fixes s :: "('a, 's) anchor"
  defines "ls \<equiv> batch_leaves (an_builder s)"
  assumes "pending (an_builder s) \<noteq> []" "inv (an_audit s)" "sinv (an_store s)"
    and "stamp (merkle_root ls) = Inr tok"
    and "\<And>leaf steps. row_ok (proof_row leaf steps (merkle_root ls) (sign (merkle_root ls)) tok (uuid 0))"
    and "ready uuid (an_audit s) (pending (an_builder s))
      (root_payload (uuid 0) (merkle_root ls) (length ls) (sign (merkle_root ls)) tok)"
  obtains s' a1 where
    "close_and_anchor ops st sign stamp uuid s = (s', Inr (uuid 0))"
    "pending (an_builder s') = []" "inv (an_audit s')" "sinv (an_store s')" "keys (an_audit s') = keys (an_audit s)"
    "op_mark_batched ops a1 (map pl_event_id (pending (an_builder s))) (uuid 0) = (an_audit s', Inr ())"
    "\<And>d. \<exists>is. length is = count_list (''system'' # sorted_set (map pl_decision_id (pending (an_builder s)))) d \<and>
       stream (an_audit s') d = stream (an_audit s) d @ map (\<lambda>i. mkrec i ''MerkleRootPublished'' d
         (root_payload (uuid 0) (merkle_root ls) (length ls) (sign (merkle_root ls)) tok)) is"
    "\<And>leaf. leaf \<in> set ls \<Longrightarrow> \<exists>steps. valid_steps leaf steps (merkle_root ls) \<and>
       lookup (an_store s') (proof_key leaf) = Some (proof_row leaf steps (merkle_root ls) (sign (merkle_root ls)) tok (uuid 0))"
    "\<And>k. k \<notin> proof_key ` set ls \<Longrightarrow> lookup (an_store s') k = lookup (an_store s) k"
proof -
  define rt where "rt = merkle_root ls"
  define sg where "sg = sign rt"
  define pl where "pl = root_payload (uuid 0) rt (length ls) sg tok"
  define ds where "ds = ''system'' # sorted_set (map pl_decision_id (pending (an_builder s)))"
  define batch where "batch = \<lparr>leaves = ls, levels = tree_levels ls\<rparr>"
  define rows where "rows = proof_rows batch rt sg tok (uuid 0) 0 ls"
  have cl: "close_and_reset (an_builder s) = Inr ((an_builder s)\<lparr>pending := [], first_leaf_ts := None\<rparr>, batch, rt, pending (an_builder s))"
    using close_and_reset_eq [OF assms(2)] by (simp add: ls_def rt_def batch_def batch_leaves_def)
  have proofs: "\<exists>steps. proof_for batch (int i) = Inr steps" if "i < length ls" for i
    using batch_proof_exists [OF that] by (auto simp: batch_def)
  have ok: "\<forall>r \<in> set rows. row_ok (snd r)"
    using proofs assms(6) by (fastforce simp: rows_def proof_rows_def in_set_enumerate_eq rt_def sg_def)
  have pr: "project_proofs st batch rt sg tok (uuid 0) 0 ls (an_store s) = (store.set_all rows (an_store s), Inr ())"
    unfolding rows_def by (rule store.project_proofs_set_all) (use proofs assms(4) ok in \<open>auto simp: rows_def\<close>)
  note r = assms(7) [unfolded ready_def Let_def, folded rt_def, folded sg_def, folded pl_def ds_def]
  obtain a1 where a1: "publish_roots ops uuid 1 pl ds (an_audit s) = (a1, Inr ())" "inv a1" "keys a1 = keys (an_audit s)"
      "\<And>d. \<exists>is. length is = count_list ds d \<and> stream a1 d = stream (an_audit s) d @ map (\<lambda>i. mkrec i ''MerkleRootPublished'' d pl) is"
    using publish_fresh [OF assms(3), of uuid 1 ds pl] r by blast
  obtain a2 where a2: "op_mark_batched ops a1 (map pl_event_id (pending (an_builder s))) (uuid 0) = (a2, Inr ())"
    using mark_succeeds r by blast
  have frame: "inv a2" "stream a2 = stream a1" "keys a2 = keys a1" using mark_frame [OF a1(2) a2] by auto
  define s' where "s' = \<lparr>an_builder = (an_builder s)\<lparr>pending := [], first_leaf_ts := None\<rparr>, an_audit = a2,
    an_store = store.set_all rows (an_store s)\<rparr>"
  have look: "lookup (an_store s') = lookup (an_store s) ++ map_of (rev rows)"
    using store.lookup_set_all [OF assms(4) ok] by (simp add: s'_def)
  show thesis
  proof (rule that [of s' a1], goal_cases)
    case 1
    have "length (leaves batch) = length ls" by (simp add: batch_def)
    then show ?case using cl pr a1(1) a2 assms(5)
      by (simp add: close_and_anchor_def Let_def s'_def batch_def rt_def [symmetric] sg_def [symmetric] pl_def [symmetric]
          ds_def [symmetric] del: publish_roots.simps)
  next
    case (7 d)
    then show ?case using a1(4) [of d] by (simp add: s'_def frame ds_def pl_def rt_def sg_def)
  next
    case (8 leaf)
    then show ?case using proof_rows_lookup(1) [of leaf ls sg tok "uuid 0"] look
      by (auto simp: rows_def batch_def rt_def sg_def map_add_def)
  next
    case (9 k)
    then show ?case using proof_rows_lookup(2) [of k ls sg tok "uuid 0"] look
      by (simp add: rows_def batch_def rt_def sg_def map_add_def)
  qed (use frame a1 a2 set_all_inv [OF assms(4) ok] in \<open>simp_all add: s'_def\<close>)
qed

end

interpretation memory_anchoring: anchoring memory_ops "\<lambda>_. True" "\<lambda>_ _ _ _ _ _. True" memory_stream memory_keys memory_record "\<lambda>_. True"
  "\<lambda>_. {}" "\<lambda>_ _ _ _. True" "\<lambda>_ _. True" memory_store_ops map_of "\<lambda>_. True" "\<lambda>_. True"
  by unfold_locales

sublocale redis_server \<subseteq> docker: anchoring "pg_ops pgs" pg_inv "pg_usable pgs" pg_stream pg_keys "pg_record pgs" pg_text
  pg_taken "pg_fits pgs" "pg_markable pgs" "redis_store_ops srv" "\<lambda>s. rows_of (content s)" "\<lambda>v. json_value (PDict v)"
  "\<lambda>s. up s \<and> all_objects (content s)" for pgs
  by unfold_locales

section \<open>What the database does with a root event\<close>

text \<open>Values without floats and without NUL characters: a JSONB column gives these back as they were.\<close>

fun plain :: "pyval \<Rightarrow> bool" where
  "plain (PStr t) = pg_text t"
| "plain (PFloat x) = False"
| "plain (PList vs) = list_all plain vs"
| "plain (PDict kvs) = list_all (\<lambda>p. pg_text (fst p) \<and> plain (snd p)) kvs"
| "plain _ = True"

definition pg_exact :: "pg_server \<Rightarrow> bool" where
  "pg_exact srv = (\<forall>p. json_value (PDict p) \<longrightarrow> plain (PDict p) \<longrightarrow> pg_keeps srv p)"

lemma pg_text_append [simp]: "pg_text (a @ b) \<longleftrightarrow> pg_text a \<and> pg_text b"
  by (auto simp: pg_text_def)

lemma pg_text_digits: "list_all is_digit s \<Longrightarrow> pg_text s"
  by (auto simp: pg_text_def list_all_iff is_digit_def)

lemma pg_text_hex: "pg_text (to_hex bs)"
  using to_hex_lower [of bs] by (auto simp: pg_text_def list_all_iff is_lower_hex_def)

lemma pg_text_iso: "utc t \<Longrightarrow> pg_text (isoformat_ms t)"
  using pad_digits [THEN pg_text_digits]
  by (simp add: isoformat_ms_def iso_date_time_def iso_offset_def utc_def) (simp add: pg_text_def)

lemma root_payload_kept:
  assumes "pg_exact srv" "pg_text b" "pg_text (timestamp_iso tok)" "length (nat_str n) \<le> 4300"
  shows "pg_payload srv (root_payload b rt n sg tok) \<noteq> None"
proof -
  have "json_value (PDict (root_payload b rt n sg tok))" using assms(4) by (simp add: root_payload_def)
  moreover have "plain (PDict (root_payload b rt n sg tok))" using assms(2,3) pg_text_hex by (simp add: root_payload_def) (simp add: pg_text_def)
  ultimately have "pg_keeps srv (root_payload b rt n sg tok)" using assms(1) by (simp add: pg_exact_def)
  then show ?thesis by (auto simp: pg_keeps_def split: option.splits)
qed

section \<open>Runs\<close>

text \<open>Any write-side call, over any trail.\<close>

fun exec_on :: "'a audit_ops \<Rightarrow> 'a core \<Rightarrow> core_cmd \<Rightarrow> 'a core" where
  "exec_on ops c (Update now i cmd) = fst (handle_update_metric ops now i c cmd)"
| "exec_on ops c (BusEvent topic now i j payload) =
     (case map_of (event_routes ops now i j) topic of None \<Rightarrow> c | Some h \<Rightarrow> fst (h c payload))"
| "exec_on ops c (Supersede now i d m leaf ctx k) = fst (supersede_metric ops now i c d m leaf ctx k)"

definition added_leaves :: "'a core \<Rightarrow> 'a core \<Rightarrow> bytes list" where
  "added_leaves c c' = drop (length (pending (co_merkle c))) (batch_leaves (co_merkle c'))"

definition anchor_at :: "'a core \<Rightarrow> 's \<Rightarrow> ('a, 's) anchor" where
  "anchor_at c s = \<lparr>an_builder = co_merkle c, an_audit = co_audit c, an_store = s\<rparr>"

definition after_anchor :: "'a core \<Rightarrow> ('a, 's) anchor \<Rightarrow> 'a core \<times> 's" where
  "after_anchor c n = (c\<lparr>co_merkle := an_builder n, co_audit := an_audit n\<rparr>, an_store n)"

text \<open>The timer tick and the flush at shutdown.\<close>

definition docker_tick ::
    "pg_server \<Rightarrow> 's redis \<Rightarrow> (bytes \<Rightarrow> bytes) \<Rightarrow> string \<Rightarrow> datetime \<Rightarrow> datetime \<Rightarrow> (nat \<Rightarrow> string) \<Rightarrow> pg_table core \<Rightarrow> 's
     \<Rightarrow> pg_table core \<times> 's" where
  "docker_tick pgs srv sign auth now tsa_now uuid c s =
     after_anchor c (fst (maybe_close_and_anchor (pg_ops pgs) (redis_store_ops srv) sign
       (\<lambda>g. Inr (memory_tsa_timestamp auth tsa_now g)) uuid now (anchor_at c s)))"

definition docker_flush ::
    "pg_server \<Rightarrow> 's redis \<Rightarrow> (bytes \<Rightarrow> bytes) \<Rightarrow> string \<Rightarrow> datetime \<Rightarrow> (nat \<Rightarrow> string) \<Rightarrow> pg_table core \<Rightarrow> 's
     \<Rightarrow> pg_table core \<times> 's" where
  "docker_flush pgs srv sign auth tsa_now uuid c s =
     after_anchor c (fst (force_close (pg_ops pgs) (redis_store_ops srv) sign
       (\<lambda>g. Inr (memory_tsa_timestamp auth tsa_now g)) uuid (anchor_at c s)))"

text \<open>The identifiers of an anchoring: UUIDs, pairwise different and not in the table. The number of leaves prints.\<close>

definition fresh_ids :: "pg_server \<Rightarrow> pg_table core \<Rightarrow> (nat \<Rightarrow> string) \<Rightarrow> bool" where
  "fresh_ids pgs c uuid =
     (let n = length (sorted_set (map pl_decision_id (pending (co_merkle c)))) + 2 in
      inj_on uuid {1..<n} \<and> (\<forall>k < n. pg_uuid pgs (uuid k) = Some (uuid k) \<and> pg_text (uuid k)) \<and>
      (\<forall>k \<in> {1..<n}. uuid k \<notin> pg_taken (co_audit c)) \<and> length (nat_str (length (pending (co_merkle c)))) \<le> 4300)"

inductive docker_step ::
    "pg_server \<Rightarrow> 's redis \<Rightarrow> pydantic \<Rightarrow> (bytes \<Rightarrow> bytes) \<Rightarrow> pg_table core \<times> 's \<Rightarrow> bytes list \<Rightarrow> pg_table core \<times> 's \<Rightarrow> bool"
  for pgs srv P sign where
  call: "c' = exec_on (pg_ops pgs) c x \<Longrightarrow> docker_step pgs srv P sign (c, s) (added_leaves c c') (c', s)"
| tick: "utc tsa_now \<Longrightarrow> fresh_ids pgs c uuid \<Longrightarrow>
    docker_step pgs srv P sign (c, s) [] (docker_tick pgs srv sign auth now tsa_now uuid c s)"
| flush: "utc tsa_now \<Longrightarrow> fresh_ids pgs c uuid \<Longrightarrow>
    docker_step pgs srv P sign (c, s) [] (docker_flush pgs srv sign auth tsa_now uuid c s)"
| query: "rebuild P (pg_ops pgs) (redis_store_ops srv) now1 now2 (co_audit c) s d req = (s', r) \<Longrightarrow>
    (\<And>sb. r = Inr sb \<Longrightarrow> json_value (PDict (dump_scoreboard P sb))) \<Longrightarrow> docker_step pgs srv P sign (c, s) [] (c, s')"

inductive docker_run ::
    "pg_server \<Rightarrow> 's redis \<Rightarrow> pydantic \<Rightarrow> (bytes \<Rightarrow> bytes) \<Rightarrow> pg_table core \<times> 's \<Rightarrow> bytes list \<Rightarrow> pg_table core \<times> 's \<Rightarrow> bool"
  for pgs srv P sign where
  start: "docker_run pgs srv P sign s [] s"
| more: "docker_run pgs srv P sign s accepted t \<Longrightarrow> docker_step pgs srv P sign t ls u \<Longrightarrow>
    docker_run pgs srv P sign s (accepted @ ls) u"

lemma exec_batch_grows: "pg_guard.batch_grows pgs c (exec_on (pg_ops pgs) c x)"
  by (cases x) (auto simp: pg_guard.batch_grows_update supersede_metric_def intro: pg_guard.batch_grows_route pg_guard.batch_grows_done pg_guard.batch_grows_audit
      split: option.splits)

context redis_server
begin

definition docker_inv :: "pg_server \<Rightarrow> pg_table core \<times> 's \<Rightarrow> bool" where
  "docker_inv pgs = (\<lambda>(c, s). pg_inv (co_audit c) \<and> up s \<and> all_objects (content s) \<and>
     (\<forall>l \<in> set (pending (co_merkle c)). pg_event pgs (pl_event_id l) (pl_decision_id l)))"

definition stored :: "pg_table core \<times> 's \<Rightarrow> bytes \<Rightarrow> bool" where
  "stored = (\<lambda>(c, s) leaf. \<exists>row. rows_of (content s) (proof_key leaf) = Some row \<and> good_row leaf row)"

definition kept :: "pg_table core \<times> 's \<Rightarrow> bytes \<Rightarrow> bool" where
  "kept cs leaf = (leaf \<in> set (batch_leaves (co_merkle (fst cs))) \<or> stored cs leaf)"

lemma kept_write:
  assumes "jsonb_objects pgs" "docker_inv pgs (c, s)" "c' = exec_on (pg_ops pgs) c x"
  shows "docker_inv pgs (c', s)" "kept (c, s) leaf \<or> leaf \<in> set (added_leaves c c') \<Longrightarrow> kept (c', s) leaf"
proof -
  obtain ps where ps: "pending (co_merkle c') = pending (co_merkle c) @ ps" "\<forall>l \<in> set ps. pg_event pgs (pl_event_id l) (pl_decision_id l)"
    "pg_inv (co_audit c')"
    using exec_batch_grows [of pgs c x, unfolded pg_guard.batch_grows_def] assms by (auto simp: docker_inv_def)
  then show "docker_inv pgs (c', s)" using assms(2) by (auto simp: docker_inv_def)
  show "kept (c, s) leaf \<or> leaf \<in> set (added_leaves c c') \<Longrightarrow> kept (c', s) leaf"
    using ps(1) by (auto simp: kept_def stored_def batch_leaves_def added_leaves_def)
qed

lemma docker_ready:
  assumes "pg_exact pgs" "docker_inv pgs (c, s)" "fresh_ids pgs c uuid" "pg_text (timestamp_iso tok)"
  shows "docker.ready pgs uuid (co_audit c) (pending (co_merkle c))
    (root_payload (uuid 0) rt (length (batch_leaves (co_merkle c))) sg tok)"
proof -
  let ?ds = "''system'' # sorted_set (map pl_decision_id (pending (co_merkle c)))"
  note f = assms(3) [unfolded fresh_ids_def Let_def]
  have n: "{1..<1 + length ?ds} = {1..<length (sorted_set (map pl_decision_id (pending (co_merkle c)))) + 2}" by auto
  have "pg_text (uuid 0)" using f by auto
  then have "pg_payload pgs (root_payload (uuid 0) rt (length (batch_leaves (co_merkle c))) sg tok) \<noteq> None"
    using f by (intro root_payload_kept [OF assms(1) _ assms(4)]) (simp_all add: batch_leaves_def)
  moreover have "pg_text d" if "d \<in> set ?ds" for d
    using that assms(2) by (auto simp: docker_inv_def pg_event_def) (simp add: pg_text_def)
  moreover have "pg_text ''MerkleRootPublished''" by (simp add: pg_text_def)
  ultimately have "pg_fits pgs (uuid k) d ''MerkleRootPublished'' (root_payload (uuid 0) rt (length (batch_leaves (co_merkle c))) sg tok)"
    if "k \<in> {1..<1 + length ?ds}" "d \<in> set ?ds" for k d
    using that f unfolding n by (simp add: pg_fits_def)
  moreover have "pg_markable pgs (map pl_event_id (pending (co_merkle c))) (uuid 0)"
    using assms(2) \<open>pg_text (uuid 0)\<close> by (auto simp: pg_markable_def docker_inv_def pg_event_def)
  ultimately show ?thesis using f unfolding docker.ready_def Let_def n by blast
qed

lemma proof_row_json: "json_value (PDict (proof_row leaf steps rt sg tok b))"
  by (simp add: proof_row_def list_all_iff)

lemma kept_close:
  fixes f :: "bytes \<Rightarrow> tsa_token" and sign :: "bytes \<Rightarrow> bytes"
  assumes "pg_exact pgs" "docker_inv pgs (c, s)" "fresh_ids pgs c uuid" "pending (co_merkle c) \<noteq> []"
    and "utc t" "\<forall>g. timestamp_iso (f g) = isoformat_ms t"
  defines "cs' \<equiv> after_anchor c (fst (close_and_anchor (pg_ops pgs) (redis_store_ops srv) sign (\<lambda>g. Inr (f g)) uuid (anchor_at c s)))"
  shows "docker_inv pgs cs'" "kept (c, s) leaf \<Longrightarrow> stored cs' leaf"
proof -
  let ?s = "anchor_at c s" and ?ls = "batch_leaves (co_merkle c)"
  have at: "an_builder ?s = co_merkle c" "an_audit ?s = co_audit c" "an_store ?s = s" by (simp_all add: anchor_at_def)
  have pre: "pending (an_builder ?s) \<noteq> []" "pg_inv (an_audit ?s)" "up (an_store ?s) \<and> all_objects (content (an_store ?s))"
    using assms(2,4) by (simp_all add: at docker_inv_def)
  have "pg_text (timestamp_iso (f (merkle_root ?ls)))" using pg_text_iso [OF assms(5)] assms(6) by simp
  note ready = docker_ready [OF assms(1-3) this]
  obtain n where n: "close_and_anchor (pg_ops pgs) (redis_store_ops srv) sign (\<lambda>g. Inr (f g)) uuid ?s = (n, Inr (uuid 0))"
    "pending (an_builder n) = []" "pg_inv (an_audit n)" "up (an_store n)" "all_objects (content (an_store n))"
    "\<And>leaf. leaf \<in> set ?ls \<Longrightarrow> \<exists>steps. valid_steps leaf steps (merkle_root ?ls) \<and> rows_of (content (an_store n)) (proof_key leaf) =
       Some (proof_row leaf steps (merkle_root ?ls) (sign (merkle_root ?ls)) (f (merkle_root ?ls)) (uuid 0))"
    "\<And>k. k \<notin> proof_key ` set ?ls \<Longrightarrow> rows_of (content (an_store n)) k = rows_of (content s) k"
  proof (rule docker.anchor_succeeds [OF pre, where stamp = "\<lambda>g. Inr (f g)" and tok = "f (merkle_root ?ls)" and sign = sign
      and uuid = uuid and pgs = pgs], goal_cases)
    case (4 n a1)
    from 4(2-4) conjunct1 [OF 4(5)] conjunct2 [OF 4(5)] 4(9,10) [unfolded at] show ?case by (rule that)
  qed (use ready proof_row_json in \<open>simp_all add: at\<close>)
  show "docker_inv pgs cs'" using n(2-5) by (simp add: cs'_def n(1) after_anchor_def docker_inv_def)
  show "kept (c, s) leaf \<Longrightarrow> stored cs' leaf"
  proof (cases "leaf \<in> set ?ls")
    case True
    from n(6) [OF this] obtain steps where steps: "valid_steps leaf steps (merkle_root ?ls)" "rows_of (content (an_store n)) (proof_key leaf) =
        Some (proof_row leaf steps (merkle_root ?ls) (sign (merkle_root ?ls)) (f (merkle_root ?ls)) (uuid 0))" by blast
    then have "good_row leaf (proof_row leaf steps (merkle_root ?ls) (sign (merkle_root ?ls)) (f (merkle_root ?ls)) (uuid 0))"
      using assms(5,6) unfolding good_row_def by blast
    with steps show ?thesis by (simp add: cs'_def n(1) after_anchor_def stored_def)
  next
    case False
    then have "proof_key leaf \<notin> proof_key ` set ?ls" using proof_key_inj by blast
    then show "kept (c, s) leaf \<Longrightarrow> stored cs' leaf"
      using n(7) False by (simp add: cs'_def n(1) after_anchor_def stored_def kept_def)
  qed
qed

lemma after_anchor_id: "after_anchor c (anchor_at c s) = (c, s)"
  by (simp add: after_anchor_def anchor_at_def)

lemma kept_flush:
  assumes "pg_exact pgs" "docker_inv pgs (c, s)" "fresh_ids pgs c uuid" "utc t"
  shows "docker_inv pgs (docker_flush pgs srv sign auth t uuid c s)" "kept (c, s) leaf \<Longrightarrow> stored (docker_flush pgs srv sign auth t uuid c s) leaf"
proof -
  have b: "an_builder (anchor_at c s) = co_merkle c" by (simp add: anchor_at_def)
  have none: "docker_flush pgs srv sign auth t uuid c s = (c, s)" if "pending (co_merkle c) = []"
    using that by (simp add: docker_flush_def force_close_def has_pending_def b after_anchor_id)
  have some: "docker_flush pgs srv sign auth t uuid c s = after_anchor c (fst (close_and_anchor (pg_ops pgs) (redis_store_ops srv) sign
      (\<lambda>g. Inr (memory_tsa_timestamp auth t g)) uuid (anchor_at c s)))" if "pending (co_merkle c) \<noteq> []"
    using that by (simp add: docker_flush_def force_close_def has_pending_def b)
  note close = kept_close [OF assms(1-3) _ assms(4), where f = "memory_tsa_timestamp auth t" and sign = sign]
  show "docker_inv pgs (docker_flush pgs srv sign auth t uuid c s)"
    using none some close(1) assms(2) by (cases "pending (co_merkle c) = []") (simp_all add: memory_tsa_iso)
  show "kept (c, s) leaf \<Longrightarrow> stored (docker_flush pgs srv sign auth t uuid c s) leaf"
    using none some close(2) by (cases "pending (co_merkle c) = []") (auto simp: memory_tsa_iso kept_def batch_leaves_def)
qed

lemma tick_flush:
  "docker_tick pgs srv sign auth now t uuid c s = (c, s) \<or>
   docker_tick pgs srv sign auth now t uuid c s = docker_flush pgs srv sign auth t uuid c s"
  by (auto simp: docker_tick_def docker_flush_def maybe_close_and_anchor_def force_close_def should_close_def has_pending_def
      anchor_at_def after_anchor_def split: if_splits)

lemma kept_query:
  assumes "rebuild P (pg_ops pgs) (redis_store_ops srv) now1 now2 (co_audit c) s d req = (s', r)"
    and "\<And>sb. r = Inr sb \<Longrightarrow> json_value (PDict (dump_scoreboard P sb))" "docker_inv pgs (c, s)"
  shows "docker_inv pgs (c, s')" "kept (c, s) leaf \<Longrightarrow> kept (c, s') leaf"
proof -
  have inv: "up s \<and> all_objects (content s)" using assms(3) by (simp add: docker_inv_def)
  have "s' = s \<or> (\<exists>sb. (up s' \<and> all_objects (content s')) \<and>
      rows_of (content s') = (rows_of (content s))(scoreboard_key d \<mapsto> dump_scoreboard P sb))"
  proof (cases "rbind (op_read_range (pg_ops pgs) (co_audit c) d 0) (build_state P now1 now2 d req)")
    case (Inl e)
    then show ?thesis using assms(1) by (simp add: rebuild_def)
  next
    case (Inr sb)
    obtain s1 r1 where set: "st_set (redis_store_ops srv) s (scoreboard_key d) (dump_scoreboard P sb) = (s1, r1)"
      by (cases "st_set (redis_store_ops srv) s (scoreboard_key d) (dump_scoreboard P sb)")
    obtain s2 where s2: "rd_set srv s (scoreboard_key d) (json_dumps default_opts (PDict (dump_scoreboard P sb))) = (s2, Inr ())"
      using rd_set_content inv by blast
    then have r1: "r1 = Inr ()" using set by (simp add: redis_store_ops_def redis_set_def del: json_dumps.simps)
    then have r: "r = Inr sb" "s' = s1" using assms(1) Inr set by (simp_all add: rebuild_def)
    from set_lookup [OF inv assms(2) [OF r(1)], of "scoreboard_key d"] set r(2) r1 show ?thesis by auto
  qed
  then show "docker_inv pgs (c, s')" "kept (c, s) leaf \<Longrightarrow> kept (c, s') leaf"
    using assms(3) by (auto simp: docker_inv_def kept_def stored_def scoreboard_key_not_proof [symmetric])
qed

lemma kept_run:
  assumes "jsonb_objects pgs" "pg_exact pgs"
  shows "docker_run pgs srv P sign cs accepted cs' \<Longrightarrow> docker_inv pgs cs \<Longrightarrow>
    docker_inv pgs cs' \<and> (\<forall>leaf. kept cs leaf \<or> leaf \<in> set accepted \<longrightarrow> kept cs' leaf)"
proof (induction rule: docker_run.induct)
  case (more s accepted t ls u)
  have "docker_inv pgs u \<and> (\<forall>leaf. kept t leaf \<or> leaf \<in> set ls \<longrightarrow> kept u leaf)"
    using more.hyps(2)
  proof cases
    case (call c' c x s)
    then show ?thesis using kept_write [OF assms(1) _ call(4)] more by auto
  next
    case (tick tsa_now c uuid s auth now)
    then show ?thesis
      using kept_flush [OF assms(2) _ tick(5,4), where s = s and sign = sign and auth = auth] tick_flush [of pgs sign auth now tsa_now uuid c s] more
      by (auto simp: kept_def)
  next
    case (flush tsa_now c uuid s auth)
    then show ?thesis using kept_flush [OF assms(2) _ flush(5,4), where s = s and sign = sign and auth = auth] more by (auto simp: kept_def)
  next
    case (query now1 now2 c s d req s' r)
    then show ?thesis using kept_query [OF query(4,5)] more by auto
  qed
  with more show ?case by auto
qed simp

lemma stored_reads:
  assumes "docker_inv pgs (c, s)" "stored (c, s) leaf"
  shows "\<exists>row. redis_get srv s (proof_key leaf) = Inr (Some row) \<and> row_verifies leaf row"
  using get_lookup [of s "proof_key leaf"] assms good_row_verifies
  by (auto simp: docker_inv_def stored_def redis_store_ops_def)

end

lemma docker_inv_start: "redis_server srv content up \<Longrightarrow> up s0 \<Longrightarrow> all_objects (content s0) \<Longrightarrow>
    redis_server.docker_inv content up pgs (new_core new_pg_table (new_builder n t), s0)"
  by (simp add: redis_server.docker_inv_def new_core_def new_pg_table_def new_builder_def pg_inv_def)

text \<open>The leaf and the event of a command.\<close>

definition leaf_of :: "datetime \<Rightarrow> update_metric_command \<Rightarrow> bytes" where
  "leaf_of now cmd = commit_leaf now (um_decision_id cmd) (um_metric_name cmd) (um_value cmd) (um_evidence_refs cmd) (um_idempotency_key cmd)"

definition commit_payload_of :: "datetime \<Rightarrow> update_metric_command \<Rightarrow> pydict" where
  "commit_payload_of now cmd = committed_payload (um_decision_id cmd) (um_metric_name cmd) (um_value cmd) (um_evidence_refs cmd)
     (um_idempotency_key cmd) (to_hex (leaf_of now cmd)) (isoformat_ms now) (PStr (um_proposed_by cmd))"

lemma update_audit:
  "um_evidence_refs cmd \<noteq> [] \<Longrightarrow> co_audit (fst (handle_update_metric ops now i c cmd)) =
     trail_exec ops (co_audit c) (Append i (um_decision_id cmd) ''MetricCommitted'' (commit_payload_of now cmd) (Some (um_idempotency_key cmd)))"
  by (cases "op_append ops i (co_audit c) (um_decision_id cmd) ''MetricCommitted'' (commit_payload_of now cmd) (Some (um_idempotency_key cmd))")
     (auto simp: handle_update_metric_def commit_def audit_append_def commit_payload_of_def leaf_of_def Let_def sbind_def split: sum.splits)

section \<open>Properties\<close>


text \<open>A database that refuses everything but objects and keeps these as they are.\<close>

definition object_server :: pg_server where
  "object_server = \<lparr>pg_uuid = Some, pg_jsonb = (\<lambda>j. if object_of j = None then None else Some j)\<rparr>"

lemma object_server_ok: "jsonb_objects object_server" "pg_exact object_server"
proof -
  show "jsonb_objects object_server"
    by (auto simp: jsonb_objects_def object_server_def object_of_def is_object_def split: sum.splits pyval.splits if_splits)
  have "pg_keeps object_server p" if "json_value (PDict p)" for p
    using that loads_dumps_value [OF that] by (simp add: pg_keeps_def pg_payload_def object_server_def object_of_def)
  then show "pg_exact object_server" by (simp add: pg_exact_def)
qed

definition sample_command :: update_metric_command where
  "sample_command = \<lparr>um_decision_id = ''d'', um_metric_name = ''m'', um_value = PNone, um_idempotency_key = ''k'',
     um_evidence_refs = [''e''], um_proposed_by = ''u'', um_runtime_context = PNone\<rparr>"

lemma sample_usable:
  "pg_payload object_server (commit_payload_of now sample_command) \<noteq> None"
  "pg_usable object_server new_pg_table i ''d'' ''MetricCommitted'' (commit_payload_of now sample_command) (Some ''k'')"
proof -
  have v: "json_value (PDict (commit_payload_of now sample_command))"
    by (simp add: commit_payload_of_def committed_payload_def sample_command_def)
  show p: "pg_payload object_server (commit_payload_of now sample_command) \<noteq> None"
    using loads_dumps_value [OF v] by (simp add: pg_payload_def object_server_def object_of_def del: json_dumps.simps)
  then show "pg_usable object_server new_pg_table i ''d'' ''MetricCommitted'' (commit_payload_of now sample_command) (Some ''k'')"
    by (simp add: pg_usable_def object_server_def new_pg_table_def pg_text_def)
qed

lemma sample_accepted:
  "\<exists>c1. handle_update_metric (pg_ops object_server) epoch ''i'' (new_core new_pg_table (new_builder 10 (Fin 5))) sample_command =
     (c1, Inr \<lparr>ur_status = ACCEPTED, ur_leaf_hash = Some (to_hex (leaf_of epoch sample_command))\<rparr>) \<and>
   pending (co_merkle c1) = [\<lparr>pl_leaf_hash = leaf_of epoch sample_command, pl_event_id = ''i'', pl_decision_id = ''d''\<rparr>] \<and>
   pg_taken (co_audit c1) \<subseteq> {''i''}"
proof -
  let ?c = "new_core new_pg_table (new_builder 10 (Fin 5))"
  have start: "co_audit ?c = new_pg_table" "pg_inv new_pg_table" "pg_keys new_pg_table ''k'' = None"
    "pg_taken new_pg_table = {}" "co_merkle ?c = new_builder 10 (Fin 5)"
    by (simp_all add: new_core_def new_pg_table_def pg_inv_def pg_keys_def pg_find_key_def pg_taken_def)
  have u: "pg_usable object_server (co_audit ?c) ''i'' ''d'' ''MetricCommitted''
      (committed_payload ''d'' ''m'' PNone [''e''] ''k'' (to_hex (commit_leaf epoch ''d'' ''m'' PNone [''e''] ''k'')) (isoformat_ms epoch) (PStr ''u''))
      (Some ''k'')"
    using sample_usable(2) [of "''i''" epoch] by (simp add: start commit_payload_of_def leaf_of_def sample_command_def)
  from audit_trail.commit_fresh [OF pg.audit_trail_axioms [of object_server], of ?c "''k''" "''i''" "''d''" "''m''" PNone "[''e'']"
      epoch "PStr ''u''"] u obtain c1 where
    c1: "handle_update_metric (pg_ops object_server) epoch ''i'' ?c sample_command =
      (c1, Inr \<lparr>ur_status = ACCEPTED, ur_leaf_hash = Some (to_hex (leaf_of epoch sample_command))\<rparr>)"
      "co_merkle c1 = add_leaf (co_merkle ?c) (leaf_of epoch sample_command) ''i'' ''d'' (timestamp epoch)"
    by (auto simp: start handle_update_metric_def sample_command_def leaf_of_def)
  let ?cmd = "Append ''i'' ''d'' ''MetricCommitted'' (commit_payload_of epoch sample_command) (Some ''k'')"
  have fields: "um_evidence_refs sample_command \<noteq> []" "um_decision_id sample_command = ''d''" "um_idempotency_key sample_command = ''k''"
    by (simp_all add: sample_command_def)
  have "co_audit c1 = trail_exec (pg_ops object_server) new_pg_table ?cmd"
    using update_audit [OF fields(1), of "pg_ops object_server" epoch "''i''" ?c] c1(1) by (simp add: start fields del: trail_exec.simps)
  moreover have "pg_uuid object_server = Some" by (simp add: object_server_def)
  ultimately have "pg_taken (co_audit c1) \<subseteq> {''i''}"
    using pg_ids_step [of object_server new_pg_table ?cmd] start(4) by (auto simp: pg_taken_def simp del: trail_exec.simps)
  with c1 show ?thesis by (auto simp: start add_leaf_def new_builder_def new_core_def)
qed

definition sample_ids :: "nat \<Rightarrow> string" where
  "sample_ids k = replicate (Suc k) (CHR ''u'')"

lemma sample_fresh_ids:
  assumes "length (pending (co_merkle c)) = 1" "pg_taken (co_audit c) \<subseteq> {''i''}"
  shows "fresh_ids object_server c sample_ids"
proof -
  have "inj sample_ids" by (rule injI) (simp add: sample_ids_def replicate_eq_replicate)
  moreover have "sample_ids k \<noteq> ''i''" for k by (simp add: sample_ids_def)
  moreover have "pg_text (sample_ids k)" for k by (auto simp: sample_ids_def pg_text_def)
  ultimately show ?thesis using assms
    by (auto simp: fresh_ids_def Let_def object_server_def nat_str.simps intro: inj_on_subset)
qed


text \<open>C29: a restart strands the open batch. The batch lives in the memory of the process, so a service that is started again on
  the same table does not know a commit that was accepted but not yet anchored: sending the command again is ignored as
  a duplicate, the batch stays empty, and a flush anchors nothing. (\<^verbatim>\<open>read_unbatched\<close>, which would find the commit, is
  not called by the service.)\<close>

theorem restart_strands_commit:
  assumes "pg_inv (co_audit c)" "um_evidence_refs cmd \<noteq> []"
    and "pg_keys (co_audit c) (um_idempotency_key cmd) = None"
    and "pg_usable pgs (co_audit c) i (um_decision_id cmd) ''MetricCommitted'' (commit_payload_of now cmd) (Some (um_idempotency_key cmd))"
    and "j \<noteq> i" "j \<notin> pg_taken (co_audit c)" "pg_uuid pgs j = Some j" "pg_payload pgs (commit_payload_of now' cmd) \<noteq> None"
  shows "\<exists>c1 c2. handle_update_metric (pg_ops pgs) now i c cmd =
      (c1, Inr \<lparr>ur_status = ACCEPTED, ur_leaf_hash = Some (to_hex (leaf_of now cmd))\<rparr>) \<and>
    handle_update_metric (pg_ops pgs) now' j (new_core (co_audit c1) (new_builder n t)) cmd =
      (c2, Inr \<lparr>ur_status = DUPLICATE_IGNORED, ur_leaf_hash = None\<rparr>) \<and>
    pending (co_merkle c2) = [] \<and> docker_flush pgs srv sign auth tsa_now uuid c2 s = (c2, s)"
proof -
  obtain c1 where c1: "handle_update_metric (pg_ops pgs) now i c cmd =
      (c1, Inr \<lparr>ur_status = ACCEPTED, ur_leaf_hash = Some (to_hex (leaf_of now cmd))\<rparr>)" "pg_inv (co_audit c1)"
    "pg_keys (co_audit c1) = (pg_keys (co_audit c))(um_idempotency_key cmd \<mapsto> i)"
    using audit_trail.commit_fresh [OF pg.audit_trail_axioms assms(1,3) assms(4) [unfolded commit_payload_of_def leaf_of_def]] assms(2)
    by (auto simp: handle_update_metric_def leaf_of_def)
  have taken: "pg_taken (co_audit c1) \<subseteq> insert i (pg_taken (co_audit c))"
    using pg_ids_step [of pgs "co_audit c" "Append i (um_decision_id cmd) ''MetricCommitted'' (commit_payload_of now cmd) (Some (um_idempotency_key cmd))"]
      assms(4) c1(1) update_audit [OF assms(2), of "pg_ops pgs" now i c] by (auto simp: pg_taken_def pg_usable_def)
  let ?c = "new_core (co_audit c1) (new_builder n t)"
  have "pg_usable pgs (co_audit ?c) j (um_decision_id cmd) ''MetricCommitted'' (commit_payload_of now' cmd) (Some (um_idempotency_key cmd))"
    using assms(4-8) taken by (auto simp: pg_usable_def pg_taken_def new_core_def)
  then obtain c2 where c2: "handle_update_metric (pg_ops pgs) now' j ?c cmd = (c2, Inr \<lparr>ur_status = DUPLICATE_IGNORED, ur_leaf_hash = None\<rparr>)"
    "co_merkle c2 = new_builder n t"
    using audit_trail.commit_seen [OF pg.audit_trail_axioms [of pgs], of ?c "um_idempotency_key cmd" i j "um_decision_id cmd" "um_metric_name cmd"
        "um_value cmd" "um_evidence_refs cmd" now' "PStr (um_proposed_by cmd)"] c1(2,3) assms(2)
    by (auto simp: handle_update_metric_def commit_payload_of_def leaf_of_def new_core_def)
  have "docker_flush pgs srv sign auth tsa_now uuid c2 s = (c2, s)"
    by (simp add: docker_flush_def force_close_def has_pending_def anchor_at_def after_anchor_def c2(2) new_builder_def)
  with c1(1) c2 show ?thesis by (auto simp: new_builder_def)
qed

theorem restart_strands_commit_witness:
  "\<exists>c1 c2. handle_update_metric (pg_ops object_server) epoch ''i'' (new_core new_pg_table (new_builder 10 (Fin 5))) sample_command =
      (c1, Inr \<lparr>ur_status = ACCEPTED, ur_leaf_hash = Some (to_hex (leaf_of epoch sample_command))\<rparr>) \<and>
    handle_update_metric (pg_ops object_server) epoch ''j'' (new_core (co_audit c1) (new_builder 10 (Fin 5))) sample_command =
      (c2, Inr \<lparr>ur_status = DUPLICATE_IGNORED, ur_leaf_hash = None\<rparr>) \<and> pending (co_merkle c2) = []"
proof -
  let ?c = "new_core new_pg_table (new_builder 10 (Fin 5))"
  have "pg_inv (co_audit ?c)" "um_evidence_refs sample_command \<noteq> []" "pg_keys (co_audit ?c) (um_idempotency_key sample_command) = None"
    "pg_usable object_server (co_audit ?c) ''i'' (um_decision_id sample_command) ''MetricCommitted'' (commit_payload_of epoch sample_command)
      (Some (um_idempotency_key sample_command))" "''j'' \<noteq> ''i''" "''j'' \<notin> pg_taken (co_audit ?c)" "pg_uuid object_server ''j'' = Some ''j''"
    using sample_usable(2) [of "''i''" epoch]
    by (simp_all add: new_core_def new_pg_table_def pg_inv_def pg_keys_def pg_find_key_def pg_taken_def object_server_def sample_command_def)
  from restart_strands_commit [OF this sample_usable(1), of epoch 10 "Fin 5" dict_redis rev "''t''" epoch sample_ids "[]"] show ?thesis by blast
qed

end
