(* ===== verification/KafkaBus.thy ===== *)
theory KafkaBus
  imports Adapters FloatText
begin

text \<open>
  \<^verbatim>\<open>infrastructure/kafka_adapter.py\<close>: the life cycle of the adapter's clients, what it hands to the producer for a published
  payload, and the consumer loop of a subscription with its commits. The client library \<^verbatim>\<open>aiokafka\<close> is a parameter:
  clients start and stop, \<open>bk_send\<close> takes a record for a topic, and a consumer yields values and commits; what it documents
  of a consumer is the hypothesis \<open>serves\<close>.
\<close>

section \<open>Adapter\<close>

text \<open>A client object of the library is a handle; \<open>'b\<close> is the state of the library and the broker.\<close>

type_synonym client = nat

record 'b broker =
  bk_start :: "'b \<Rightarrow> client \<Rightarrow> ('b, unit) sres"
  bk_stop :: "'b \<Rightarrow> client \<Rightarrow> ('b, unit) sres"
  bk_send :: "'b \<Rightarrow> client \<Rightarrow> string \<Rightarrow> bytes option \<Rightarrow> bytes \<Rightarrow> ('b, unit) sres"

text \<open>\<^verbatim>\<open>KafkaEventBus\<close>; its \<^verbatim>\<open>_subscriptions\<close> stay empty and are left out.\<close>

record kafka_bus =
  kb_bootstrap :: string
  kb_group :: string
  kb_producer :: "client option"
  kb_consumers :: "client list"

definition new_kafka_bus :: "string \<Rightarrow> string \<Rightarrow> kafka_bus" where
  "new_kafka_bus bootstrap_servers consumer_group =
     \<lparr>kb_bootstrap = bootstrap_servers, kb_group = consumer_group, kb_producer = None, kb_consumers = []\<rparr>"

text \<open>The serializers of \<^verbatim>\<open>start()\<close>.\<close>

definition value_serializer :: "pydict \<Rightarrow> bytes" where
  "value_serializer v = dumps_utf8 (PDict v)"

definition key_serializer :: "string \<Rightarrow> bytes option" where
  "key_serializer k = (if k = [] then None else Some (utf8_encode k))"

text \<open>The deserializer of \<^verbatim>\<open>subscribe()\<close>.\<close>

definition value_deserializer :: "bytes \<Rightarrow> pyval res" where
  "value_deserializer v = loads_utf8 v"

text \<open>\<^verbatim>\<open>start()\<close>: the new producer is assigned before it is started, so it stays when starting it raises.\<close>

definition kafka_start :: "'b broker \<Rightarrow> client \<Rightarrow> kafka_bus \<times> 'b \<Rightarrow> (kafka_bus \<times> 'b, unit) sres" where
  "kafka_start bk producer s =
     (case s of (bus, b) \<Rightarrow>
        (let bus = bus\<lparr>kb_producer := Some producer\<rparr> in
         case bk_start bk b producer of (b, r) \<Rightarrow> ((bus, b), r)))"

text \<open>\<^verbatim>\<open>stop()\<close>: the producer, then the consumers in the order of their subscription; the first exception ends it.\<close>

primrec stop_clients :: "'b broker \<Rightarrow> client list \<Rightarrow> 'b \<Rightarrow> ('b, unit) sres" where
  "stop_clients bk [] b = (b, Inr ())"
| "stop_clients bk (c # cs) b = sbind (bk_stop bk b c) (\<lambda>b _. stop_clients bk cs b) (\<lambda>b. b)"

definition kafka_stop :: "'b broker \<Rightarrow> kafka_bus \<times> 'b \<Rightarrow> (kafka_bus \<times> 'b, unit) sres" where
  "kafka_stop bk s =
     (case s of (bus, b) \<Rightarrow>
        (case stop_clients bk ((case kb_producer bus of Some p \<Rightarrow> [p] | None \<Rightarrow> []) @ kb_consumers bus) b of
           (b, r) \<Rightarrow> ((bus, b), r)))"

definition kafka_publish :: "'b broker \<Rightarrow> kafka_bus \<times> 'b \<Rightarrow> string \<Rightarrow> string \<Rightarrow> pydict \<Rightarrow> (kafka_bus \<times> 'b, unit) sres" where
  "kafka_publish bk s topic key payload =
     (case s of (bus, b) \<Rightarrow>
        (case kb_producer bus of
           None \<Rightarrow> (s, Inl (ExternalError ''AssertionError''))
         | Some p \<Rightarrow>
             (case bk_send bk b p topic (key_serializer key) (value_serializer payload) of (b, r) \<Rightarrow> ((bus, b), r))))"

text \<open>\<^verbatim>\<open>subscribe()\<close> up to the creation of the loop task: the consumer is kept once it has started.\<close>

definition kafka_subscribe :: "'b broker \<Rightarrow> client \<Rightarrow> kafka_bus \<times> 'b \<Rightarrow> (kafka_bus \<times> 'b, unit) sres" where
  "kafka_subscribe bk consumer s =
     (case s of (bus, b) \<Rightarrow>
        (case bk_start bk b consumer of
           (b, Inl e) \<Rightarrow> ((bus, b), Inl e)
         | (b, Inr _) \<Rightarrow> ((bus\<lparr>kb_consumers := kb_consumers bus @ [consumer]\<rparr>, b), Inr ())))"

text \<open>The consumer object of the library: asking for the next record gives its deserialized value, an exception, or the end of
  the iteration (\<open>None\<close>); \<open>cn_commit\<close> is \<^verbatim>\<open>commit()\<close> without arguments.\<close>

record 'b consumer =
  cn_next :: "'b \<Rightarrow> 'b \<times> pyval res option"
  cn_commit :: "'b \<Rightarrow> ('b, unit) sres"

text \<open>The body of the loop: an exception of the handler or of the commit is logged. A value that is no dictionary makes every
  handler of the service raise at its first access to the payload, before it changes anything.\<close>

definition kafka_handle :: "'b consumer \<Rightarrow> 'c handler \<Rightarrow> pyval \<Rightarrow> 'c \<times> 'b \<Rightarrow> 'c \<times> 'b" where
  "kafka_handle cn h v s =
     (case s of (c, b) \<Rightarrow>
        (case v of
           PDict p \<Rightarrow> (case h c p of (c, Inr _) \<Rightarrow> (c, fst (cn_commit cn b)) | (c, Inl _) \<Rightarrow> (c, b))
         | _ \<Rightarrow> (c, b)))"

text \<open>The first \<open>n\<close> rounds of the loop. The iteration is outside the \<^verbatim>\<open>try\<close>, so an exception of it ends the loop.\<close>

datatype loop_state = Consuming | Ended | Raised pyexc

primrec kafka_loop :: "'b consumer \<Rightarrow> 'c handler \<Rightarrow> nat \<Rightarrow> 'c \<times> 'b \<Rightarrow> ('c \<times> 'b) \<times> loop_state" where
  "kafka_loop cn h 0 s = (s, Consuming)"
| "kafka_loop cn h (Suc n) s =
     (case s of (c, b) \<Rightarrow>
        (case cn_next cn b of
           (b, None) \<Rightarrow> ((c, b), Ended)
         | (b, Some (Inl e)) \<Rightarrow> ((c, b), Raised e)
         | (b, Some (Inr v)) \<Rightarrow> kafka_loop cn h n (kafka_handle cn h v (c, b))))"

text \<open>What the library documents of a consumer that is alone on its partition: it yields the records of the topic in order,
  deserialized, and a commit stores the position behind the last record it yielded.\<close>

definition serves :: "'b consumer \<Rightarrow> ('b \<Rightarrow> bytes list) \<Rightarrow> ('b \<Rightarrow> nat) \<Rightarrow> ('b \<Rightarrow> nat) \<Rightarrow> bool" where
  "serves cn topic position committed =
     ((\<forall>b v. position b < length (topic b) \<longrightarrow> value_deserializer (topic b ! position b) = Inr v \<longrightarrow>
         (\<exists>b'. cn_next cn b = (b', Some (Inr v)) \<and> topic b' = topic b \<and> position b' = Suc (position b) \<and>
               committed b' = committed b)) \<and>
      (\<forall>b. \<exists>b'. cn_commit cn b = (b', Inr ()) \<and> topic b' = topic b \<and> position b' = position b \<and> committed b' = position b))"

section \<open>Lemmas\<close>

lemma serializer_roundtrip: "json_value (PDict p) \<Longrightarrow> value_deserializer (value_serializer p) = Inr (PDict p)"
  by (simp add: value_deserializer_def value_serializer_def loads_dumps_utf8)

lemma key_serializer_inj: "key_serializer k = key_serializer l \<longleftrightarrow> k = l"
  by (auto simp: key_serializer_def utf8_encode_inj)

text \<open>Which records were handled without an exception.\<close>

primrec handled :: "'c handler \<Rightarrow> pydict list \<Rightarrow> 'c \<Rightarrow> bool list" where
  "handled h [] c = []"
| "handled h (m # ms) c = (case snd (h c m) of Inr _ \<Rightarrow> True | Inl _ \<Rightarrow> False) # handled h ms (fst (h c m))"

lemma length_handled [simp]: "length (handled h ms c) = length ms"
  by (induction ms arbitrary: c) auto

definition commit_point :: "nat \<Rightarrow> bool list \<Rightarrow> nat \<Rightarrow> nat" where
  "commit_point pos oks old = (if True \<in> set oks then pos + length (dropWhile Not (rev oks)) else old)"

lemma commit_point_Cons: "commit_point pos (ok # oks) old = commit_point (Suc pos) oks (if ok then Suc pos else old)"
  by (auto simp: commit_point_def dropWhile_append)

lemma kafka_round:
  assumes "serves cn topic position committed" "position b < length (topic b)"
    and "topic b ! position b = value_serializer p" "json_value (PDict p)"
  shows "\<exists>b'. kafka_loop cn h (Suc n) (c, b) = kafka_loop cn h n (fst (h c p), b') \<and> topic b' = topic b \<and>
    position b' = Suc (position b) \<and>
    committed b' = (if isl (snd (h c p)) then committed b else Suc (position b))"
proof -
  have "value_deserializer (topic b ! position b) = Inr (PDict p)" using assms(3,4) serializer_roundtrip by simp
  then obtain b1 where b1: "cn_next cn b = (b1, Some (Inr (PDict p)))" "topic b1 = topic b" "position b1 = Suc (position b)"
    "committed b1 = committed b" using assms(1,2) unfolding serves_def by blast
  obtain b2 where b2: "cn_commit cn b1 = (b2, Inr ())" "topic b2 = topic b1" "position b2 = position b1" "committed b2 = position b1"
    using assms(1) unfolding serves_def by blast
  obtain c' r where h: "h c p = (c', r)" by (cases "h c p")
  show ?thesis
  proof (cases r)
    case (Inl e)
    then show ?thesis using b1 h by (intro exI [of _ b1]) (simp add: kafka_handle_def)
  next
    case (Inr u)
    then show ?thesis using b1 b2 h by (intro exI [of _ b2]) (simp add: kafka_handle_def)
  qed
qed

lemma kafka_loop_run:
  assumes "serves cn topic position committed"
  shows "topic b = pre @ map value_serializer ps \<Longrightarrow> position b = length pre \<Longrightarrow> \<forall>p \<in> set ps. json_value (PDict p) \<Longrightarrow>
   \<exists>b'. kafka_loop cn h (length ps) (c, b) = ((foldl (\<lambda>c p. fst (h c p)) c ps, b'), Consuming) \<and>
     position b' = length pre + length ps \<and> committed b' = commit_point (length pre) (handled h ps c) (committed b)"
proof (induction ps arbitrary: pre c b)
  case (Cons p ps)
  obtain b1 where b1: "kafka_loop cn h (Suc (length ps)) (c, b) = kafka_loop cn h (length ps) (fst (h c p), b1)"
    "topic b1 = topic b" "position b1 = Suc (position b)"
    "committed b1 = (if isl (snd (h c p)) then committed b else Suc (position b))"
    using kafka_round [OF assms, of b p h "length ps" c] Cons.prems by (auto simp: nth_append)
  have "topic b1 = (pre @ [value_serializer p]) @ map value_serializer ps" "position b1 = length (pre @ [value_serializer p])"
    using b1 Cons.prems by simp_all
  from Cons.IH [OF this, of "fst (h c p)"] b1 Cons.prems show ?case
    by (cases "snd (h c p)") (auto simp: commit_point_Cons)
qed (simp add: commit_point_def)

lemma commit_point_snoc: "commit_point 0 (oks @ [ok]) 0 = (if ok then Suc (length oks) else commit_point 0 oks 0)"
  by (auto simp: commit_point_def)

lemma commit_point_covers: "i < commit_point 0 oks 0 \<longleftrightarrow> (\<exists>j \<ge> i. j < length oks \<and> oks ! j)"
proof (induction oks rule: rev_induct)
  case (snoc ok oks)
  show ?case
  proof (cases ok)
    case True
    have "i < Suc (length oks) \<Longrightarrow> \<exists>j \<ge> i. j < length (oks @ [ok]) \<and> (oks @ [ok]) ! j"
      using True by (intro exI [of _ "length oks"]) simp
    then show ?thesis using True by (auto simp: commit_point_snoc)
  next
    case False
    then show ?thesis using snoc by (auto simp: commit_point_snoc nth_append less_Suc_eq)
  qed
qed (simp add: commit_point_def)

subsection \<open>Life cycle\<close>

text \<open>The clients that run, for a library whose starts and stops succeed.\<close>

definition reliable :: "'b broker \<Rightarrow> ('b \<Rightarrow> client set) \<Rightarrow> bool" where
  "reliable bk running = ((\<forall>b c. \<exists>b'. bk_start bk b c = (b', Inr ()) \<and> running b' = insert c (running b)) \<and>
     (\<forall>b c. \<exists>b'. bk_stop bk b c = (b', Inr ()) \<and> running b' = running b - {c}))"

definition owned :: "kafka_bus \<Rightarrow> client set" where
  "owned bus = set_option (kb_producer bus) \<union> set (kb_consumers bus)"

lemma reliableD:
  "reliable bk running \<Longrightarrow> \<exists>b'. bk_start bk b c = (b', Inr ()) \<and> running b' = insert c (running b)"
  "reliable bk running \<Longrightarrow> \<exists>b'. bk_stop bk b c = (b', Inr ()) \<and> running b' = running b - {c}"
  unfolding reliable_def by blast+

lemma stop_clients_all:
  "reliable bk running \<Longrightarrow> \<exists>b'. stop_clients bk cs b = (b', Inr ()) \<and> running b' = running b - set cs"
proof (induction cs arbitrary: b)
  case (Cons c cs)
  obtain b1 where b1: "bk_stop bk b c = (b1, Inr ())" "running b1 = running b - {c}"
    using reliableD(2) [OF Cons.prems] by blast
  from Cons.IH [OF Cons.prems, of b1] b1 show ?case by auto
qed simp

lemma kafka_start_owned:
  assumes "reliable bk running"
  shows "\<exists>bus' b'. kafka_start bk p (bus, b) = ((bus', b'), Inr ()) \<and> owned bus' = insert p (set (kb_consumers bus)) \<and>
    running b' = insert p (running b)"
proof -
  obtain b' where "bk_start bk b p = (b', Inr ())" "running b' = insert p (running b)" using reliableD(1) [OF assms] by blast
  then show ?thesis by (simp add: kafka_start_def owned_def)
qed

lemma kafka_subscribe_owned:
  assumes "reliable bk running"
  shows "\<exists>bus' b'. kafka_subscribe bk c (bus, b) = ((bus', b'), Inr ()) \<and> owned bus' = insert c (owned bus) \<and>
    running b' = insert c (running b) \<and> kb_producer bus' = kb_producer bus"
proof -
  obtain b' where "bk_start bk b c = (b', Inr ())" "running b' = insert c (running b)" using reliableD(1) [OF assms] by blast
  then show ?thesis by (auto simp: kafka_subscribe_def owned_def)
qed

lemma kafka_stop_owned:
  assumes "reliable bk running"
  shows "\<exists>b'. kafka_stop bk (bus, b) = ((bus, b'), Inr ()) \<and> running b' = running b - owned bus"
proof -
  let ?cs = "(case kb_producer bus of Some p \<Rightarrow> [p] | None \<Rightarrow> []) @ kb_consumers bus"
  have "set ?cs = owned bus" by (auto simp: owned_def split: option.splits)
  with stop_clients_all [OF assms, of ?cs b] show ?thesis by (auto simp: kafka_stop_def)
qed

text \<open>Start, any subscriptions, stop.\<close>

primrec subscribe_each :: "'b broker \<Rightarrow> client list \<Rightarrow> kafka_bus \<times> 'b \<Rightarrow> (kafka_bus \<times> 'b, unit) sres" where
  "subscribe_each bk [] s = (s, Inr ())"
| "subscribe_each bk (c # cs) s = sbind (kafka_subscribe bk c s) (\<lambda>s _. subscribe_each bk cs s) (\<lambda>s. s)"

lemma subscribe_each_owned:
  "reliable bk running \<Longrightarrow> \<exists>bus' b'. subscribe_each bk cs (bus, b) = ((bus', b'), Inr ()) \<and> owned bus' = owned bus \<union> set cs \<and>
    running b' = running b \<union> set cs"
proof (induction cs arbitrary: bus b)
  case (Cons c cs)
  obtain bus1 b1 where s1: "kafka_subscribe bk c (bus, b) = ((bus1, b1), Inr ())" "owned bus1 = insert c (owned bus)"
    "running b1 = insert c (running b)" using kafka_subscribe_owned [OF Cons.prems, of c bus b] by blast
  from Cons.IH [OF Cons.prems, of bus1 b1] s1 show ?case by auto
qed simp

section \<open>Properties\<close>

text \<open>C32: Delivery over Kafka. A consumer that behaves as its library documents, on a topic with the records of published
  payloads of JSON values: after as many rounds as there are records, the loop has handed every payload to the handler
  once, unchanged and in order, whatever exceptions the handler raised, has kept what the handler did, and is still
  consuming. The committed position covers exactly the records that were handled, or that failed before a record that
  was handled: a failed record is not redelivered once a later one succeeds.\<close>

theorem kafka_delivery:
  assumes "serves cn topic position committed" "\<forall>p \<in> set ps. json_value (PDict p)"
    and "topic b = map value_serializer ps" "position b = 0" "committed b = 0"
  shows "\<exists>b'. kafka_loop cn h (length ps) (c, b) = ((foldl (\<lambda>c p. fst (h c p)) c ps, b'), Consuming) \<and>
    position b' = length ps \<and> (\<forall>i. i < committed b' \<longleftrightarrow> (\<exists>j \<ge> i. j < length ps \<and> handled h ps c ! j))"
  using kafka_loop_run [OF assms(1), of b "[]" ps h c] assms(2-5) commit_point_covers [of _ "handled h ps c"] by auto

text \<open>A handler that counts its calls and raises on a payload without metric name.\<close>

definition sample_handler :: "nat handler" where
  "sample_handler c p = (Suc c, rbind (getitem p ''metric_name'') (\<lambda>_. Inr ()))"

definition sample_records :: "pydict list" where
  "sample_records = [[(''metric_name'', PNone)], [], [(''metric_name'', PNone)], []]"

text \<open>A consumer on a list of records: records, position, committed position.\<close>

definition list_consumer :: "(bytes list \<times> nat \<times> nat) consumer" where
  "list_consumer = \<lparr>cn_next = (\<lambda>(rs, n, k). if n < length rs then ((rs, Suc n, k), Some (value_deserializer (rs ! n))) else ((rs, n, k), None)),
     cn_commit = (\<lambda>(rs, n, k). ((rs, n, n), Inr ()))\<rparr>"

lemma list_consumer_serves: "serves list_consumer fst (fst \<circ> snd) (snd \<circ> snd)"
  by (auto simp: serves_def list_consumer_def)

theorem kafka_delivery_witness:
  "\<exists>b'. kafka_loop list_consumer sample_handler 4 (0, map value_serializer sample_records, 0, 0) = ((4, b'), Consuming) \<and>
     (\<forall>i. i < snd (snd b') \<longleftrightarrow> (\<exists>j \<ge> i. j < 4 \<and> [True, False, True, False] ! j))"
proof -
  have "\<forall>p \<in> set sample_records. json_value (PDict p)" by (simp add: sample_records_def)
  moreover have "foldl (\<lambda>c p. fst (sample_handler c p)) 0 sample_records = 4" "length sample_records = 4"
    "handled sample_handler sample_records 0 = [True, False, True, False]"
    by (simp_all add: sample_handler_def sample_records_def getitem_def)
  ultimately show ?thesis
    using kafka_delivery [OF list_consumer_serves, of sample_records "(map value_serializer sample_records, 0, 0)" sample_handler 0]
    by (auto simp del: kafka_loop.simps)
qed

text \<open>The life cycle of the clients. Publishing on a bus that was not started raises and changes nothing. With a library whose
  starts and stops succeed, \<^verbatim>\<open>start()\<close> and any subscriptions start exactly the producer and one consumer each, and
  \<^verbatim>\<open>stop()\<close> stops exactly these, leaving all other clients as they were.\<close>

theorem kafka_lifecycle:
  assumes "reliable bk running" "running b \<inter> insert p (set cs) = {}"
  shows "kafka_publish bk (new_kafka_bus url grp, b) topic key payload =
      ((new_kafka_bus url grp, b), Inl (ExternalError ''AssertionError'')) \<and>
    (\<exists>s1 bus2 b2 b3. kafka_start bk p (new_kafka_bus url grp, b) = (s1, Inr ()) \<and>
      subscribe_each bk cs s1 = ((bus2, b2), Inr ()) \<and> running b2 = running b \<union> insert p (set cs) \<and>
      kafka_stop bk (bus2, b2) = ((bus2, b3), Inr ()) \<and> running b3 = running b)"
proof -
  obtain bus1 b1 where s1: "kafka_start bk p (new_kafka_bus url grp, b) = ((bus1, b1), Inr ())" "owned bus1 = {p}"
    "running b1 = insert p (running b)"
    using kafka_start_owned [OF assms(1), of p "new_kafka_bus url grp" b] by (auto simp: new_kafka_bus_def)
  obtain bus2 b2 where s2: "subscribe_each bk cs (bus1, b1) = ((bus2, b2), Inr ())" "owned bus2 = insert p (set cs)"
    "running b2 = running b \<union> insert p (set cs)"
    using subscribe_each_owned [OF assms(1), of cs bus1 b1] s1 by auto
  obtain b3 where "kafka_stop bk (bus2, b2) = ((bus2, b3), Inr ())" "running b3 = running b2 - owned bus2"
    using kafka_stop_owned [OF assms(1)] by blast
  moreover from this s2 assms(2) have "running b3 = running b" by auto
  ultimately show ?thesis using s1(1) s2 by (simp add: kafka_publish_def new_kafka_bus_def)
qed

definition sample_clients :: "client set broker" where
  "sample_clients = \<lparr>bk_start = (\<lambda>b c. (insert c b, Inr ())), bk_stop = (\<lambda>b c. (b - {c}, Inr ())),
     bk_send = (\<lambda>b c topic key v. (b, Inr ()))\<rparr>"

theorem kafka_lifecycle_witness:
  "\<exists>s1 bus2 b2. kafka_start sample_clients 0 (new_kafka_bus ''kafka:9092'' ''core'', {}) = (s1, Inr ()) \<and>
     subscribe_each sample_clients [1, 2] s1 = ((bus2, b2), Inr ()) \<and> b2 = {0, 1, 2} \<and>
     kafka_stop sample_clients (bus2, b2) = ((bus2, {}), Inr ())"
proof -
  have "reliable sample_clients (\<lambda>b. b)" by (simp add: reliable_def sample_clients_def)
  from kafka_lifecycle [OF this, of "{}" 0 "[1, 2]"] show ?thesis by auto
qed

end
