(* ===== verification/Spec2Isabelle.thy ===== *)
theory Spec2Isabelle
  imports Startup TypedRuns TsaHttp DurableRuns KafkaBus
begin

text \<open>
  A verification library for the Decision Intelligence Core: an append-only audit trail of metric events, Merkle
  anchoring of committed metrics, and a read model that is rebuilt from the trail.

  \<^bold>\<open>The program\<close> (under \<^verbatim>\<open>src/\<close>). A command or a bus event reaches the command handler
  (\<^verbatim>\<open>application/command_handler.py\<close>), which validates it (evidence present, invariant I3; idempotency key unseen,
  invariant I6), appends events to the audit trail (\<^verbatim>\<open>interfaces/audit_trail.py\<close>) and hands the leaf hash of a
  committed metric to the batch builder (\<^verbatim>\<open>application/merkle.py\<close>). A timer lets the anchor service
  (\<^verbatim>\<open>application/merkle_anchor_service.py\<close>) close the batch, sign and timestamp its root, store one proof row per leaf
  in the projection store and publish the root to the decisions concerned. Queries rebuild the scoreboard of a decision
  from its events (\<^verbatim>\<open>application/scoreboard_projector.py\<close>) through the registries and the policy evaluator, or read a
  proof row. REST (\<^verbatim>\<open>api/\<close>) and gRPC (\<^verbatim>\<open>grpc_transport/\<close>) expose the commands and the queries.

  \<^bold>\<open>The theories\<close>, from the bottom.

  \<^item> \<open>Prelude\<close>: exceptions as values (\<open>pyexc\<close>, \<open>'a res\<close>, and \<open>('s, 'a) sres\<close> for a call that leaves a state behind
    even when it raises), dictionaries as insertion-ordered association lists, slices, sorted sets.
  \<^item> \<open>Codec\<close>, \<open>Sha256\<close>, \<open>PyFloat\<close>, \<open>Json\<close>, \<open>JsonParse\<close>, \<open>FloatText\<close>, \<open>PyTime\<close>: what the sources use of Python's standard
    library, executable: \<^verbatim>\<open>bytes.hex\<close>/\<^verbatim>\<open>fromhex\<close>, UTF-8, SHA-256, binary64 arithmetic with round-to-nearest-even,
    \<^verbatim>\<open>json.dumps\<close> and \<^verbatim>\<open>json.loads\<close> (with the proof that the second undoes the first, floats included), \<^verbatim>\<open>datetime\<close>
    with \<^verbatim>\<open>isoformat\<close> and \<^verbatim>\<open>fromisoformat\<close>. Rounding has the interface \<open>rounding\<close>, hashing the interface \<open>digest\<close>.
  \<^item> \<open>Merkle\<close>: \<^verbatim>\<open>application/merkle.py\<close>. Proofs of a closed batch verify; proofs bind their leaf up to an exhibited
    SHA-256 collision; proof length; what the leaf hash separates and what it does not; the builder's invariant.
  \<^item> \<open>Domain\<close>: \<^verbatim>\<open>domain/enums.py\<close> and \<^verbatim>\<open>domain/models.py\<close>. Pydantic is the parameter record \<open>pydantic\<close>, its documented
    behaviour the hypothesis \<open>pydantic_ok\<close>, which the concrete \<open>strict_pydantic\<close> satisfies.
  \<^item> \<open>AuditTrail\<close>: the port as a record of operations, its contract as the locale \<open>audit_trail\<close>, the in-memory adapter
    (\<^verbatim>\<open>infrastructure/memory_adapters.py\<close>) as its interpretation; append-only and idempotent under every sequence of calls.
  \<^item> \<open>Adapters\<close>: projection store (locale \<open>kv_store\<close>), timestamp authority (locale \<open>tsa_roundtrip\<close>), event bus.
  \<^item> \<open>Registries\<close>: metrics, risk and evidence registries and the completion criteria as functions of an event stream.
  \<^item> \<open>PolicyEvaluator\<close>: score and verdict; the data gate I4, the range of the score, the critical veto, monotonicity in
    the risk signals.
  \<^item> \<open>CommandHandler\<close>: all handlers and the event dispatcher, generic in the audit trail; facts about commits are proved
    from the contract and used through its interpretation; runs of the write side (\<open>core_exec\<close>).
  \<^item> \<open>MerkleAnchor\<close>: closing and anchoring a batch, decoding a proof row.
  \<^item> \<open>ScoreboardProjector\<close>: rebuilding the read model.
  \<^item> \<open>Api\<close>: REST endpoints, timer tick, shutdown flush, wired with the in-memory adapters.
  \<^item> \<open>UnixTime\<close>, \<open>Grpc\<close>: the gRPC servicer (\<^verbatim>\<open>grpc_transport/server.py\<close>) over the same state, and its millisecond
    timestamps, exact between 2004 and the 32-bit rollover of 2038.
  \<^item> \<open>SystemRuns\<close>: the service as a labelled transition system (\<open>app_step\<close>, \<open>app_run\<close>) over REST, gRPC and the bus, with
    its invariant by rule induction, and the end-to-end theorems.
  \<^item> \<open>Transports\<close>: a command has the same effect over REST and gRPC, and both serve the same proof.
  \<^item> \<open>Ed25519\<close>: the signer (\<^verbatim>\<open>infrastructure/ed25519_signer.py\<close>) over the cryptography package as a parameter; every served
    proof carries a signature of its root that the signer's public key verifies.
  \<^item> \<open>PyNumber\<close>, \<open>Startup\<close>: \<^verbatim>\<open>int()\<close> and \<^verbatim>\<open>float()\<close> of a string, and with them \<^verbatim>\<open>build_app_state\<close> (\<^verbatim>\<open>api/deps.py\<close>), the event
    subscriptions, the log formatter and the health check.
  \<^item> \<open>Events\<close>, \<open>TypedRuns\<close>: the event classes of \<^verbatim>\<open>domain/events.py\<close> with their validation; type soundness: under
    conforming payloads no handler raises and every scoreboard can be rebuilt.
  \<^item> \<open>Der\<close>, \<open>Asn1\<close>, \<open>Rfc3161\<close>: the DER codec and the RFC 3161 client (\<^verbatim>\<open>infrastructure/rfc3161_client.py\<close>) and the
    stub of \<^verbatim>\<open>rfc3161_tsa.py\<close>: the decoder is total and undoes the encoder, only matching responses are accepted, a
    conforming authority is understood (the client interprets \<open>tsa_roundtrip\<close>).
  \<^item> \<open>Url\<close>, \<open>TsaHttp\<close>: URL splitting and Base64 as the standard library does them, the client's choice of proxy and the
    request it sends; only the exchange of \<^verbatim>\<open>http.client\<close> over a socket is a parameter. Proxy credentials go to the proxy.
  \<^item> \<open>PostgresAudit\<close>, \<open>RedisStore\<close>, \<open>KafkaBus\<close>, \<open>Durable\<close>: the durable adapters. The Postgres trail interprets
    \<open>audit_trail\<close> and refines the in-memory one, Redis interprets \<open>kv_store\<close>, and the scoreboard over both is the one
    over the in-memory adapters. The database server, the Redis server and the broker are parameter records, their
    documented behaviour the assumptions of the properties, each with a concrete instance.
  \<^item> \<open>DurableRuns\<close>: the service on the durable adapters as a transition system. The anchor service is proved once, in the
    locale \<open>anchoring\<close> over the contracts of a trail and a store; \<open>guarded_trail\<close> says what a write leaves behind even when
    the database refuses it. No accepted leaf is lost while the process runs; a restart strands the open batch.

  \<^bold>\<open>Conventions\<close>. Clock readings and drawn identifiers are arguments of the operation that makes them. A value outside
  the source's type annotations is the error \<open>IllTyped\<close>. Strings range over code points below 256. Every loop is a total
  recursive function; the JSON parser recurses on fuel that \<open>json_loads_fuel\<close> shows to be enough for every text.
  Theorems about hashing assume nothing about SHA-256; where a collision would falsify a claim, the claim exhibits it.

  \<^bold>\<open>Not modelled\<close>. Installing log handlers and tracing, and the server loops (I/O); the generated protobuf code; what
  happens on a socket (databases, brokers, HTTP), which are parameters.
\<close>

end
